(* ===== verification/Prelude.thy ===== *)
theory Prelude
  imports Main "HOL-Library.Sublist" "HOL-Library.Monad_Syntax"
begin

text \<open>
  Prelude of the development: the JavaScript values and string operations the page scripts use,
  the loop that searches a free row number, and the lemmas about them that the components share.

  JavaScript strings are \<open>string\<close>s (character lists); a value that may be \<open>undefined\<close> or
  \<open>null\<close> is an \<open>option\<close>.  An exception is a value of the type \<open>js_error\<close> on the left of a
  sum.
\<close>

named_theorems page_simps \<open>what the queries and updates of the page model return\<close>
named_theorems string_simps \<open>the string operations of the scripts\<close>

section \<open>Errors\<close>

text \<open>
  The exceptions the scripts can raise: a property of \<open>null\<close> or \<open>undefined\<close> is read, a
  \<open>const\<close> is assigned to (both \<open>TypeError\<close>), or a call stack is exhausted
  (\<open>RangeError\<close> or \<open>InternalError\<close>, depending on the browser), or a
  malformed escape is decoded.
\<close>

datatype js_error = TypeError | TooMuchRecursion | URIError

type_synonym 'a js = "js_error + 'a"

definition js_bind :: "'a js \<Rightarrow> ('a \<Rightarrow> 'b js) \<Rightarrow> 'b js" where
  "js_bind m f = (case m of Inl x \<Rightarrow> Inl x | Inr a \<Rightarrow> f a)"

lemma js_bind_simps [simp]:
  "js_bind (Inl x) f = Inl x" "js_bind (Inr a) f = f a"
  by (simp_all add: js_bind_def)

lemma js_bind_Inr: "js_bind m f = Inr b \<longleftrightarrow> (\<exists>a. m = Inr a \<and> f a = Inr b)"
  by (cases m) auto

text \<open>A loop over a list whose body may throw: the first exception leaves the loop.\<close>

fun js_foldl :: "('s \<Rightarrow> 'a \<Rightarrow> 's js) \<Rightarrow> 's \<Rightarrow> 'a list \<Rightarrow> 's js" where
  "js_foldl f s [] = Inr s"
| "js_foldl f s (x # xs) = js_bind (f s x) (\<lambda>s'. js_foldl f s' xs)"

text \<open>The same where what was done before the exception stays done.\<close>

fun js_run :: "('s \<Rightarrow> 'a \<Rightarrow> 's \<times> js_error option) \<Rightarrow> 's \<Rightarrow> 'a list \<Rightarrow> 's \<times> js_error option" where
  "js_run f s [] = (s, None)"
| "js_run f s (x # xs) = (case f s x of (s', None) \<Rightarrow> js_run f s' xs | (s', Some x') \<Rightarrow> (s', Some x'))"

text \<open>
  A property of the loop state that every successful round keeps holds at the end.
\<close>

lemma js_foldl_invariant:
  assumes "js_foldl f s xs = Inr s'" and "P s"
    and "\<And>s x s'. x \<in> set xs \<Longrightarrow> P s \<Longrightarrow> f s x = Inr s' \<Longrightarrow> P s'"
  shows "P s'"
  using assms
proof (induction xs arbitrary: s)
  case (Cons x xs)
  then show ?case by (auto simp: js_bind_Inr)
qed simp

section \<open>Numbers and their text\<close>

fun nat_str :: "nat \<Rightarrow> string" where
  "nat_str n =
     (if n < 10 then [char_of (48 + n)] else nat_str (n div 10) @ [char_of (48 + n mod 10)])"

declare nat_str.simps [simp del]

definition int_str :: "int \<Rightarrow> string" where
  "int_str i = (if i < 0 then CHR ''-'' # nat_str (nat (- i)) else nat_str (nat i))"

definition is_digit :: "char \<Rightarrow> bool" where
  "is_digit c \<longleftrightarrow> 48 \<le> (of_char c :: nat) \<and> (of_char c :: nat) \<le> 57"

definition digit_val :: "char \<Rightarrow> nat" where
  "digit_val c = of_char c - 48"

definition digits_val :: "string \<Rightarrow> nat" where
  "digits_val s = foldl (\<lambda>a c. 10 * a + digit_val c) 0 s"

lemma is_digit_char [simp]: "n < 10 \<Longrightarrow> is_digit (char_of (48 + n :: nat))"
  by (simp add: is_digit_def of_char_of)

lemma digit_val_char [simp]: "n < 10 \<Longrightarrow> digit_val (char_of (48 + n :: nat)) = n"
  by (simp add: digit_val_def of_char_of)

lemma digits_val_snoc: "digits_val (s @ [c]) = 10 * digits_val s + digit_val c"
  by (simp add: digits_val_def)

lemma digits_val_nat_str [simp]: "digits_val (nat_str n) = n"
proof (induction n rule: nat_str.induct)
  case (1 n)
  show ?case
  proof (cases "n < 10")
    case True
    then show ?thesis by (subst nat_str.simps) (simp add: digits_val_def)
  next
    case False
    then show ?thesis using "1.IH" by (subst nat_str.simps) (simp add: digits_val_snoc)
  qed
qed

lemma nat_str_inject [simp]: "nat_str m = nat_str n \<longleftrightarrow> m = n"
  by (metis digits_val_nat_str)

lemma nat_str_nonempty [simp]: "nat_str n \<noteq> []"
  by (subst nat_str.simps) simp

lemma nat_str_digits: "c \<in> set (nat_str n) \<Longrightarrow> is_digit c"
proof (induction n rule: nat_str.induct)
  case (1 n)
  then show ?case
    by (subst (asm) (2) nat_str.simps) (auto split: if_splits)
qed

section \<open>String operations of the scripts\<close>

text \<open>\<open>s.split(c)\<close> for a one-character separator: never the empty array.\<close>

fun split_on :: "char \<Rightarrow> string \<Rightarrow> string list" where
  "split_on c [] = [[]]"
| "split_on c (x # xs) =
     (if x = c then [] # split_on c xs
      else (case split_on c xs of [] \<Rightarrow> [[x]] | y # ys \<Rightarrow> (x # y) # ys))"

text \<open>\<open>xs.join(sep)\<close>.\<close>

fun join_with :: "string \<Rightarrow> string list \<Rightarrow> string" where
  "join_with sep [] = []"
| "join_with sep [x] = x"
| "join_with sep (x # y # ys) = x @ sep @ join_with sep (y # ys)"

lemma split_on_nonempty [simp]: "split_on c s \<noteq> []"
  by (induction s) (auto split: list.splits)

lemma split_on_plain: "c \<notin> set s \<Longrightarrow> split_on c s = [s]"
  by (induction s) auto

lemma split_on_append: "c \<notin> set s \<Longrightarrow> split_on c (s @ c # t) = s # split_on c t"
  by (induction s) (auto split: list.splits)

lemma split_join:
  "xs \<noteq> [] \<Longrightarrow> \<forall>x \<in> set xs. c \<notin> set x \<Longrightarrow> split_on c (join_with [c] xs) = xs"
  by (induction "[c]" xs rule: join_with.induct) (auto simp: split_on_plain split_on_append)

text \<open>\<open>s.replace(p, r)\<close> for a literal pattern: the first occurrence only.\<close>

fun replace_first :: "string \<Rightarrow> string \<Rightarrow> string \<Rightarrow> string" where
  "replace_first p r [] = (if p = [] then r else [])"
| "replace_first p r (c # cs) =
     (if prefix p (c # cs) then r @ drop (length p) (c # cs) else c # replace_first p r cs)"

text \<open>
  \<open>s.replace(/p.*$/, r)\<close>: everything from the first occurrence of \<open>p\<close> to the end.
  (No line breaks in the strings concerned, so the dot matches every character.)
\<close>

fun replace_tail :: "string \<Rightarrow> string \<Rightarrow> string \<Rightarrow> string" where
  "replace_tail p r [] = (if p = [] then r else [])"
| "replace_tail p r (c # cs) =
     (if prefix p (c # cs) then r else c # replace_tail p r cs)"

text \<open>\<open>s.replace(/p$/, '')\<close> for a literal \<open>p\<close>.\<close>

definition strip_suffix :: "string \<Rightarrow> string \<Rightarrow> string" where
  "strip_suffix p s = (if suffix p s then take (length s - length p) s else s)"

lemma strip_suffix_append [simp]: "strip_suffix p (s @ p) = s"
  by (simp add: strip_suffix_def suffix_def)

text \<open>
  \<open>s.replace(new RegExp(key + '\\d+'), '')\<close>: the leftmost place where the literal
  \<open>key\<close> is followed by at least one digit; \<open>key\<close> and all digits after it go.
\<close>

definition param_here :: "string \<Rightarrow> string \<Rightarrow> bool" where
  "param_here key s \<longleftrightarrow>
     prefix key s \<and> (case drop (length key) s of [] \<Rightarrow> False | c # _ \<Rightarrow> is_digit c)"

fun strip_param :: "string \<Rightarrow> string \<Rightarrow> string" where
  "strip_param key [] = []"
| "strip_param key (c # cs) =
     (if param_here key (c # cs) then dropWhile is_digit (drop (length key) (c # cs))
      else c # strip_param key cs)"

fun has_param :: "string \<Rightarrow> string \<Rightarrow> bool" where
  "has_param key [] = False"
| "has_param key (c # cs) = (param_here key (c # cs) \<or> has_param key cs)"

text \<open>The same with the flag \<open>g\<close>: every occurrence.\<close>

function strip_params :: "string \<Rightarrow> string \<Rightarrow> string" where
  "strip_params key [] = []"
| "strip_params key (c # cs) =
     (if key \<noteq> [] \<and> param_here key (c # cs)
      then strip_params key (dropWhile is_digit (drop (length key) (c # cs)))
      else c # strip_params key cs)"
  by pat_completeness auto
termination
proof (relation "measure (\<lambda>(k, s). length s)", simp_all)
  fix key :: string and c and cs :: string
  assume "key \<noteq> [] \<and> param_here key (c # cs)"
  then obtain k ks where k: "key = k # ks" by (cases key) auto
  have "length (dropWhile is_digit (drop (length ks) cs)) \<le> length (drop (length ks) cs)"
    by (rule length_dropWhile_le)
  then show "length (dropWhile is_digit (drop (length key) (c # cs))) < Suc (length cs)"
    by (simp add: k)
qed

lemma strip_param_none: "\<not> has_param key s \<Longrightarrow> strip_param key s = s"
  by (induction s) auto

lemma strip_params_none: "\<not> has_param key s \<Longrightarrow> strip_params key s = s"
  by (induction s) auto

text \<open>
  A key that starts with \<open>;\<close> and has no other \<open>;\<close> cannot match across a \<open>;\<close>: the part
  of a URL before the separator and the part from it on are searched one after the other.
\<close>

lemma prefix_Cons_append_sep:
  assumes "a \<noteq> []" "c \<notin> set ks" "prefix (c # ks) (a @ c # b)"
  shows "prefix (c # ks) a \<and> length (c # ks) \<le> length a"
proof -
  from assms obtain x a' where a: "a = x # a'" by (cases a) auto
  with assms(3) have x: "x = c" and p: "prefix ks (a' @ c # b)" by auto
  have "\<not> length a' < length ks"
  proof
    assume l: "length a' < length ks"
    from p obtain zs where "a' @ c # b = ks @ zs" by (auto elim: prefixE)
    then have "ks ! length a' = (a' @ c # b) ! length a'"
      using l by (metis nth_append)
    with l have "c \<in> set ks" by (metis nth_append_length nth_mem)
    with assms(2) show False ..
  qed
  with p have "prefix ks a'"
    by (auto simp: prefix_def append_eq_append_conv2)
  with a x show ?thesis by (auto dest: prefix_length_le)
qed

lemma param_here_sep:
  assumes "c \<notin> set ks" "\<not> is_digit c" "a \<noteq> []"
  shows "param_here (c # ks) (a @ c # b) \<longleftrightarrow> param_here (c # ks) a"
proof
  assume p: "param_here (c # ks) (a @ c # b)"
  then have "prefix (c # ks) (a @ c # b)" by (simp add: param_here_def)
  from prefix_Cons_append_sep [OF assms(3,1) this]
  have "prefix (c # ks) a" "length (c # ks) \<le> length a" by auto
  with p assms(2) show "param_here (c # ks) a"
    by (auto simp: param_here_def split: list.splits)
next
  assume p: "param_here (c # ks) a"
  then have "prefix (c # ks) a" "drop (length (c # ks)) a \<noteq> []"
    by (auto simp: param_here_def split: list.splits)
  then have "prefix (c # ks) a" "length (c # ks) < length a" by auto
  with p show "param_here (c # ks) (a @ c # b)"
    by (auto simp: param_here_def split: list.splits intro: prefix_prefix)
qed

lemma has_param_sep:
  assumes "c \<notin> set ks" "\<not> is_digit c"
  shows "has_param (c # ks) (a @ c # b) \<longleftrightarrow> has_param (c # ks) a \<or> has_param (c # ks) (c # b)"
proof (induction a)
  case (Cons x a)
  then show ?case
    using param_here_sep [OF assms, of "x # a" b] by simp
qed simp

lemma strip_param_sep:
  assumes "c \<notin> set ks" "\<not> is_digit c" "\<not> has_param (c # ks) a"
  shows "strip_param (c # ks) (a @ c # b) = a @ strip_param (c # ks) (c # b)"
  using assms(3)
proof (induction a)
  case (Cons x a)
  then show ?case
    using param_here_sep [OF assms(1,2), of "x # a" b] by simp
qed simp

lemma param_here_digits:
  "ds \<noteq> [] \<Longrightarrow> \<forall>c \<in> set ds. is_digit c \<Longrightarrow> param_here key (key @ ds @ t)"
  by (cases ds) (auto simp: param_here_def)

lemma strip_param_digits:
  assumes "key \<noteq> []" "ds \<noteq> []" "\<forall>c \<in> set ds. is_digit c" "t = [] \<or> \<not> is_digit (hd t)"
  shows "strip_param key (key @ ds @ t) = t"
proof -
  have *: "dropWhile is_digit (ds @ t) = t"
    using assms(3,4) by (cases t) (auto simp: dropWhile_append)
  from assms(1) obtain c cs where key: "key = c # cs" by (cases key) auto
  have "param_here (c # cs) (c # cs @ ds @ t)"
    using param_here_digits [OF assms(2,3), of key t] by (simp add: key)
  then show ?thesis using * by (simp add: key)
qed

text \<open>Whether a string occurs in another: the selector \<open>[name*="..."]\<close>.\<close>

fun contains :: "string \<Rightarrow> string \<Rightarrow> bool" where
  "contains p [] \<longleftrightarrow> p = []"
| "contains p (c # cs) \<longleftrightarrow> prefix p (c # cs) \<or> contains p cs"

section \<open>Escapes in addresses\<close>

text \<open>
  \<open>decodeURIComponent\<close> on escapes of ASCII characters; \<open>None\<close> stands for the exception on a
  malformed escape (and for escapes of other characters, which are not modelled).
\<close>

definition hex_val :: "char \<Rightarrow> nat option" where
  "hex_val c =
     (let n = (of_char c :: nat) in
      if 48 \<le> n \<and> n \<le> 57 then Some (n - 48)
      else if 65 \<le> n \<and> n \<le> 70 then Some (n - 55)
      else if 97 \<le> n \<and> n \<le> 102 then Some (n - 87) else None)"

fun decodeURIComponent :: "string \<Rightarrow> string option" where
  "decodeURIComponent [] = Some []"
| "decodeURIComponent (c # cs) =
     (if c \<noteq> CHR ''%'' then map_option (\<lambda>r. c # r) (decodeURIComponent cs)
      else
        (case cs of
           a # b # rest \<Rightarrow>
             (case (hex_val a, hex_val b) of
                (Some x, Some y) \<Rightarrow>
                  if x < 8 then map_option (\<lambda>r. char_of (16 * x + y) # r) (decodeURIComponent rest) else None
              | _ \<Rightarrow> None)
         | _ \<Rightarrow> None))"

section \<open>Lists without duplicates\<close>

text \<open>\<open>if (!xs.includes(x)) xs.push(x)\<close>.\<close>

definition push_new :: "'a \<Rightarrow> 'a list \<Rightarrow> 'a list" where
  "push_new x xs = (if x \<in> set xs then xs else xs @ [x])"

lemma set_push_new [simp]: "set (push_new x xs) = insert x (set xs)"
  by (auto simp: push_new_def)

lemma distinct_push_new [simp]: "distinct (push_new x xs) \<longleftrightarrow> distinct xs"
  by (auto simp: push_new_def)

lemma set_fold_push_new: "set (fold (\<lambda>e acc. push_new (f e) acc) es acc) = f ` set es \<union> set acc"
  by (induction es arbitrary: acc) auto

lemma distinct_fold_push_new:
  "distinct acc \<Longrightarrow> distinct (fold (\<lambda>e acc. push_new (f e) acc) es acc)"
  by (induction es arbitrary: acc) auto

lemma all_update: "\<forall>x \<in> set xs. P x \<Longrightarrow> P y \<Longrightarrow> \<forall>x \<in> set (xs[i := y]). P x"
  using set_update_subset_insert [of xs i y] by blast

section \<open>Searching a free number\<close>

text \<open>
  The scripts number new form rows with a loop of the form
  \<open>while ($("input#NAME_" + offset).length) offset += 1\<close>.
  The loop has no bound of its own, so not returning is the value \<open>None\<close>.
\<close>

partial_function (option) first_free :: "(nat \<Rightarrow> bool) \<Rightarrow> nat \<Rightarrow> nat option" where
  "first_free taken n = (if taken n then first_free taken (Suc n) else Some n)"

lemma first_free_free: "\<not> taken n \<Longrightarrow> first_free taken n = Some n"
  by (simp add: first_free.simps)

lemma first_free_taken: "taken n \<Longrightarrow> first_free taken n = first_free taken (Suc n)"
  by (simp add: first_free.simps)

lemma first_free_least:
  "n \<le> m \<Longrightarrow> \<not> taken m \<Longrightarrow> \<forall>k. n \<le> k \<and> k < m \<longrightarrow> taken k \<Longrightarrow> first_free taken n = Some m"
  by (induction rule: inc_induct) (simp_all add: first_free_free first_free_taken)

text \<open>Doing something that may not return several times.\<close>

fun iterate_opt :: "nat \<Rightarrow> ('d \<Rightarrow> 'd option) \<Rightarrow> 'd \<Rightarrow> 'd option" where
  "iterate_opt 0 f d = Some d"
| "iterate_opt (Suc k) f d = Option.bind (f d) (iterate_opt k f)"

text \<open>
  The contract of a form that grows by numbered rows: which numbers are in use, and what adding
  the row of a number does.  \<open>ok\<close> is what the form needs to be in for the row to be added (the
  button that was clicked stands in a table row, for example).
\<close>

locale numbered_rows =
  fixes taken :: "'d \<Rightarrow> nat \<Rightarrow> bool"
    and add :: "'d \<Rightarrow> nat \<Rightarrow> 'd"
    and ok :: "'d \<Rightarrow> bool"
  assumes finite_taken: "finite {n. taken d n}"
    and taken_add: "ok d \<Longrightarrow> taken (add d n) k \<longleftrightarrow> k = n \<or> taken d k"
    and ok_add: "ok d \<Longrightarrow> ok (add d n)"
begin

lemma search_returns:
  "\<exists>m \<ge> n. first_free (taken d) n = Some m \<and> \<not> taken d m \<and> (\<forall>k. n \<le> k \<and> k < m \<longrightarrow> taken d k)"
proof -
  have "\<not> {n..} \<subseteq> {m. taken d m}"
    using finite_subset [OF _ finite_taken [of d], of "{n..}"] infinite_Ici [of n] by blast
  then have ex: "\<exists>m. n \<le> m \<and> \<not> taken d m" by auto
  define m where "m = (LEAST m. n \<le> m \<and> \<not> taken d m)"
  have "n \<le> m \<and> \<not> taken d m" unfolding m_def by (rule LeastI_ex [OF ex])
  moreover have "\<forall>k. n \<le> k \<and> k < m \<longrightarrow> taken d k"
    unfolding m_def by (metis (mono_tags, lifting) not_less_Least)
  ultimately show ?thesis by (intro exI [of _ m]) (simp add: first_free_least)
qed

text \<open>Adding the row the search found: the next search returns another number.\<close>

lemma next_search_differs:
  assumes "ok d" "first_free (taken d) n = Some m"
  shows "first_free (taken (add d m)) n \<noteq> Some m"
proof
  assume "first_free (taken (add d m)) n = Some m"
  moreover have "\<not> taken (add d m) m" if "first_free (taken (add d m)) n = Some m"
    using search_returns [of n "add d m"] that by auto
  ultimately show False using assms(1) by (simp add: taken_add)
qed

text \<open>
  Rows added one after the other never share a number: every one takes a number of its own, and
  numbers in use stay in use.
\<close>

lemma adding_rows:
  "ok d \<Longrightarrow> \<exists>d'. iterate_opt k (\<lambda>d. map_option (add d) (first_free (taken d) n)) d = Some d' \<and> ok d'
     \<and> card {j. taken d' j} = card {j. taken d j} + k \<and> (\<forall>j. taken d j \<longrightarrow> taken d' j)"
proof (induction k arbitrary: d)
  case (Suc k)
  obtain m where m: "first_free (taken d) n = Some m" "\<not> taken d m"
    using search_returns [of n d] by blast
  obtain d' where IH: "iterate_opt k (\<lambda>d. map_option (add d) (first_free (taken d) n)) (add d m) = Some d'"
    "ok d'" "card {j. taken d' j} = card {j. taken (add d m) j} + k" "\<forall>j. taken (add d m) j \<longrightarrow> taken d' j"
    using Suc.IH [OF ok_add [OF Suc.prems]] by blast
  have "{j. taken (add d m) j} = insert m {j. taken d j}" using taken_add [OF Suc.prems, of m] by auto
  then have "card {j. taken (add d m) j} = Suc (card {j. taken d j})"
    using finite_taken [of d] m(2) by simp
  then show ?case using m(1) IH taken_add [OF Suc.prems, of m] by auto
qed simp

end

text \<open>
  The contract of a page driven by events: every event that may occur keeps what is claimed of the page.
  Then every session keeps it.
\<close>

locale handled =
  fixes step :: "'s \<Rightarrow> 'e \<Rightarrow> 's"
    and may :: "'e \<Rightarrow> bool"
    and ok :: "'s \<Rightarrow> bool"
  assumes step_ok: "ok s \<Longrightarrow> may e \<Longrightarrow> ok (step s e)"
begin

lemma run_ok: "ok s \<Longrightarrow> \<forall>e \<in> set es. may e \<Longrightarrow> ok (foldl step s es)"
  by (induction es arbitrary: s) (simp_all add: step_ok)

end

end
