(* ===== verification/Dom.thy ===== *)
theory Dom
  imports Prelude
begin

text \<open>
  The page the scripts work on.  A document is the list of its elements in document order; every
  element carries its identity and the identities of its ancestors, nearest first.  Queries
  (\<open>getElementById\<close>, \<open>closest\<close>, \<open>find\<close>, \<open>querySelectorAll\<close>) are filters of that list,
  changes of attributes and classes are maps over it, and insertion and removal move whole
  subtrees.  This is the part of the DOM and of jQuery's traversal functions the scripts use.
\<close>

section \<open>Elements\<close>

text \<open>
  \<open>val\<close> is the property \<open>value\<close> and \<open>dflt\<close> is \<open>defaultValue\<close>; \<open>on\<close> is
  \<open>checked\<close> of a checkbox or radio button and \<open>selected\<close> of an option, \<open>dflt_on\<close> its
  default; \<open>off\<close> is \<open>disabled\<close>; \<open>disp\<close> and \<open>vis\<close> are \<open>style.display\<close> and
  \<open>style.visibility\<close>; \<open>etext\<close> is the element's own text.  The class attribute is the list
  \<open>cls\<close>; every other attribute (\<open>id\<close>, \<open>name\<close>, \<open>type\<close>, custom ones) is in
  \<open>attrs\<close>.
\<close>

record elem =
  ref :: nat
  path :: "nat list"
  tag :: string
  attrs :: "string \<rightharpoonup> string"
  cls :: "string list"
  val :: string
  dflt :: string
  on :: bool
  dflt_on :: bool
  off :: bool
  disp :: string
  vis :: string
  etext :: string

type_synonym dom = "elem list"

text \<open>
  What a script has changed and emitted: the document, the messages shown with \<open>alert\<close>, the
  URLs requested with Ajax (a request's answer is an event of its own) and the address bar.
\<close>

record page =
  doc :: dom
  alerts :: "string list"
  requests :: "string list"
  location :: string

definition new_el :: "string \<Rightarrow> (string \<times> string) list \<Rightarrow> string list \<Rightarrow> elem" where
  "new_el t as cs =
     \<lparr>ref = 0, path = [], tag = t, attrs = map_of as, cls = cs,
      val = (case map_of as ''value'' of None \<Rightarrow> [] | Some v \<Rightarrow> v),
      dflt = (case map_of as ''value'' of None \<Rightarrow> [] | Some v \<Rightarrow> v),
      on = False, dflt_on = False, off = False, disp = [], vis = [], etext = []\<rparr>"

lemma new_el_simps [simp]:
  "tag (new_el t as cs) = t" "cls (new_el t as cs) = cs" "attrs (new_el t as cs) = map_of as"
  "path (new_el t as cs) = []" "etext (new_el t as cs) = []"
  by (simp_all add: new_el_def)

definition has :: "string \<Rightarrow> elem \<Rightarrow> bool" where
  "has c e \<longleftrightarrow> c \<in> set (cls e)"

definition add_class :: "string \<Rightarrow> elem \<Rightarrow> elem" where
  "add_class c e = (if has c e then e else e\<lparr>cls := cls e @ [c]\<rparr>)"

definition rm_class :: "string \<Rightarrow> elem \<Rightarrow> elem" where
  "rm_class c e = e\<lparr>cls := filter (\<lambda>x. x \<noteq> c) (cls e)\<rparr>"

definition toggle_class :: "string \<Rightarrow> elem \<Rightarrow> elem" where
  "toggle_class c e = (if has c e then rm_class c e else add_class c e)"

definition set_attr :: "string \<Rightarrow> string \<Rightarrow> elem \<Rightarrow> elem" where
  "set_attr a v e = e\<lparr>attrs := (attrs e)(a \<mapsto> v)\<rparr>"

definition rm_attr :: "string \<Rightarrow> elem \<Rightarrow> elem" where
  "rm_attr a e = e\<lparr>attrs := (attrs e)(a := None)\<rparr>"

text \<open>\<open>className\<close>, the class attribute as one string.\<close>

definition class_name :: "elem \<Rightarrow> string" where
  "class_name e = join_with '' '' (cls e)"

lemma has_class_ops [simp, page_simps]:
  "has x (add_class c e) \<longleftrightarrow> x = c \<or> has x e"
  "has x (rm_class c e) \<longleftrightarrow> x \<noteq> c \<and> has x e"
  "has x (toggle_class c e) \<longleftrightarrow> (if x = c then \<not> has x e else has x e)"
  "has x (set_attr a v e) \<longleftrightarrow> has x e"
  "has x (rm_attr a e) \<longleftrightarrow> has x e"
  by (auto simp: has_def add_class_def rm_class_def toggle_class_def set_attr_def rm_attr_def)

lemma has_upd [simp, page_simps]:
  "has x (e\<lparr>val := v\<rparr>) = has x e" "has x (e\<lparr>on := b\<rparr>) = has x e"
  "has x (e\<lparr>off := b\<rparr>) = has x e" "has x (e\<lparr>disp := s\<rparr>) = has x e"
  "has x (e\<lparr>vis := s\<rparr>) = has x e" "has x (e\<lparr>etext := s\<rparr>) = has x e"
  "has x (e\<lparr>attrs := m\<rparr>) = has x e" "has x (e\<lparr>ref := r\<rparr>) = has x e"
  "has x (e\<lparr>path := p\<rparr>) = has x e" "has x (e\<lparr>cls := cs\<rparr>) \<longleftrightarrow> x \<in> set cs"
  by (simp_all add: has_def)

text \<open>Class operations change nothing but the class list.\<close>

lemma class_ops_fields [simp]:
  "ref (add_class c e) = ref e" "path (add_class c e) = path e" "tag (add_class c e) = tag e"
  "attrs (add_class c e) = attrs e" "val (add_class c e) = val e" "on (add_class c e) = on e"
  "dflt (add_class c e) = dflt e" "dflt_on (add_class c e) = dflt_on e"
  "off (add_class c e) = off e" "disp (add_class c e) = disp e" "vis (add_class c e) = vis e"
  "etext (add_class c e) = etext e"
  "ref (rm_class c e) = ref e" "path (rm_class c e) = path e" "tag (rm_class c e) = tag e"
  "attrs (rm_class c e) = attrs e" "val (rm_class c e) = val e" "on (rm_class c e) = on e"
  "dflt (rm_class c e) = dflt e" "dflt_on (rm_class c e) = dflt_on e"
  "off (rm_class c e) = off e" "disp (rm_class c e) = disp e" "vis (rm_class c e) = vis e"
  "etext (rm_class c e) = etext e"
  by (simp_all add: add_class_def rm_class_def)

lemma toggle_class_fields [simp]:
  "ref (toggle_class c e) = ref e" "path (toggle_class c e) = path e"
  "tag (toggle_class c e) = tag e" "attrs (toggle_class c e) = attrs e"
  "val (toggle_class c e) = val e" "on (toggle_class c e) = on e"
  "off (toggle_class c e) = off e" "disp (toggle_class c e) = disp e"
  "vis (toggle_class c e) = vis e"
  by (simp_all add: toggle_class_def)

lemma attr_ops_fields [simp]:
  "ref (set_attr a v e) = ref e" "path (set_attr a v e) = path e" "tag (set_attr a v e) = tag e"
  "cls (set_attr a v e) = cls e" "val (set_attr a v e) = val e" "on (set_attr a v e) = on e"
  "attrs (set_attr a v e) = (attrs e)(a \<mapsto> v)"
  "ref (rm_attr a e) = ref e" "path (rm_attr a e) = path e" "tag (rm_attr a e) = tag e"
  "cls (rm_attr a e) = cls e" "val (rm_attr a e) = val e" "on (rm_attr a e) = on e"
  "attrs (rm_attr a e) = (attrs e)(a := None)"
  by (simp_all add: set_attr_def rm_attr_def)

lemma add_class_idem [simp]: "has c e \<Longrightarrow> add_class c e = e"
  by (simp add: add_class_def)

lemma rm_class_idem [simp]: "\<not> has c e \<Longrightarrow> rm_class c e = e"
  by (auto simp: rm_class_def has_def intro!: elem.equality filter_True)

section \<open>Queries\<close>

definition getr :: "dom \<Rightarrow> nat \<Rightarrow> elem option" where
  "getr d r = find (\<lambda>e. ref e = r) d"

text \<open>\<open>document.getElementById(i)\<close>: the first element in document order.\<close>

definition by_id :: "dom \<Rightarrow> string \<Rightarrow> elem option" where
  "by_id d i = find (\<lambda>e. attrs e ''id'' = Some i) d"

definition inside :: "nat \<Rightarrow> elem \<Rightarrow> bool" where
  "inside r e \<longleftrightarrow> r \<in> set (path e)"

definition child_of :: "nat \<Rightarrow> elem \<Rightarrow> bool" where
  "child_of r e \<longleftrightarrow> (case path e of [] \<Rightarrow> False | p # _ \<Rightarrow> p = r)"

text \<open>\<open>$(e).closest(P)\<close>: the element itself or its nearest ancestor that satisfies \<open>P\<close>.\<close>

definition ancestors :: "dom \<Rightarrow> elem \<Rightarrow> elem list" where
  "ancestors d e = List.map_filter (getr d) (path e)"

definition closest :: "dom \<Rightarrow> (elem \<Rightarrow> bool) \<Rightarrow> elem \<Rightarrow> elem option" where
  "closest d P e = find P (e # ancestors d e)"

text \<open>\<open>$(r).find(P)\<close> and \<open>$(r).children(P)\<close>, in document order.\<close>

definition find_in :: "dom \<Rightarrow> nat \<Rightarrow> (elem \<Rightarrow> bool) \<Rightarrow> elem list" where
  "find_in d r P = filter (\<lambda>e. inside r e \<and> P e) d"

definition children :: "dom \<Rightarrow> nat \<Rightarrow> (elem \<Rightarrow> bool) \<Rightarrow> elem list" where
  "children d r P = filter (\<lambda>e. child_of r e \<and> P e) d"

definition is_input :: "elem \<Rightarrow> bool" where
  "is_input e \<longleftrightarrow> tag e \<in> {''input'', ''select'', ''textarea'', ''button''}"

definition of_type :: "string \<Rightarrow> elem \<Rightarrow> bool" where
  "of_type t e \<longleftrightarrow> attrs e ''type'' = Some t"

text \<open>\<open>e.options\<close> of a select, and the value of a select: that of its first selected option.\<close>

definition options :: "dom \<Rightarrow> elem \<Rightarrow> elem list" where
  "options d e = find_in d (ref e) (\<lambda>x. tag x = ''option'')"

definition value_of :: "dom \<Rightarrow> elem \<Rightarrow> string" where
  "value_of d e =
     (if tag e = ''select''
      then (case find on (options d e) of None \<Rightarrow> [] | Some x \<Rightarrow> val x) else val e)"

section \<open>Changes that keep the structure\<close>

definition upd :: "nat \<Rightarrow> (elem \<Rightarrow> elem) \<Rightarrow> dom \<Rightarrow> dom" where
  "upd r f d = map (\<lambda>e. if ref e = r then f e else e) d"

definition upd_where :: "(elem \<Rightarrow> bool) \<Rightarrow> (elem \<Rightarrow> elem) \<Rightarrow> dom \<Rightarrow> dom" where
  "upd_where P f d = map (\<lambda>e. if P e then f e else e) d"

definition upd_refs :: "elem list \<Rightarrow> (elem \<Rightarrow> elem) \<Rightarrow> dom \<Rightarrow> dom" where
  "upd_refs es f d = upd_where (\<lambda>e. ref e \<in> ref ` set es) f d"

text \<open>A change of an element that leaves its identity and place alone.\<close>

definition keeps :: "(elem \<Rightarrow> elem) \<Rightarrow> bool" where
  "keeps f \<longleftrightarrow> (\<forall>e. ref (f e) = ref e \<and> path (f e) = path e)"

lemma keepsI [intro]: "(\<And>e. ref (f e) = ref e) \<Longrightarrow> (\<And>e. path (f e) = path e) \<Longrightarrow> keeps f"
  by (simp add: keeps_def)

lemma keeps_ref: "keeps f \<Longrightarrow> ref (f e) = ref e"
  and keeps_path: "keeps f \<Longrightarrow> path (f e) = path e"
  by (simp_all add: keeps_def)

lemma keeps_ops [simp, intro]:
  "keeps (add_class c)" "keeps (rm_class c)" "keeps (toggle_class c)"
  "keeps (set_attr a v)" "keeps (rm_attr a)"
  "keeps (\<lambda>e. e\<lparr>val := v\<rparr>)" "keeps (\<lambda>e. e\<lparr>on := b\<rparr>)" "keeps (\<lambda>e. e\<lparr>off := b\<rparr>)"
  "keeps (\<lambda>e. e\<lparr>disp := s\<rparr>)" "keeps (\<lambda>e. e\<lparr>vis := s\<rparr>)" "keeps (\<lambda>e. e\<lparr>etext := s\<rparr>)"
  "keeps (\<lambda>e. e\<lparr>on := \<not> on e\<rparr>)"
  by (auto simp: keeps_def)

lemma keeps_comp [intro]: "keeps f \<Longrightarrow> keeps g \<Longrightarrow> keeps (\<lambda>e. f (g e))"
  by (simp add: keeps_def)

lemma set_upd: "set (upd r f d) = (\<lambda>e. if ref e = r then f e else e) ` set d"
  by (simp add: upd_def)

lemma set_upd_where: "set (upd_where P f d) = (\<lambda>e. if P e then f e else e) ` set d"
  by (simp add: upd_where_def)

lemma find_map: "find P (map f xs) = map_option f (find (\<lambda>x. P (f x)) xs)"
  by (induction xs) auto

lemma getr_Some: "getr d r = Some e \<Longrightarrow> e \<in> set d \<and> ref e = r"
  by (auto simp: getr_def find_Some_iff)

lemma getr_None: "getr d r = None \<longleftrightarrow> r \<notin> ref ` set d"
  by (auto simp: getr_def find_None_iff)

lemma getr_mem: "distinct (map ref d) \<Longrightarrow> e \<in> set d \<Longrightarrow> getr d (ref e) = Some e"
  by (induction d) (auto simp: getr_def)

lemma getr_upd [page_simps]:
  "keeps f \<Longrightarrow> getr (upd r f d) r' = map_option (if r' = r then f else id) (getr d r')"
  by (induction d) (auto simp: getr_def upd_def keeps_def)

lemma getr_upd_where [page_simps]:
  "keeps f \<Longrightarrow> getr (upd_where P f d) r = map_option (\<lambda>e. if P e then f e else e) (getr d r)"
  by (induction d) (auto simp: getr_def upd_where_def keeps_def)

lemma by_id_Some: "by_id d i = Some e \<Longrightarrow> e \<in> set d \<and> attrs e ''id'' = Some i"
  by (auto simp: by_id_def find_Some_iff)

lemma by_id_None: "by_id d i = None \<longleftrightarrow> (\<forall>e \<in> set d. attrs e ''id'' \<noteq> Some i)"
  by (auto simp: by_id_def find_None_iff)

lemma ancestors_mem: "a \<in> set (ancestors d e) \<Longrightarrow> a \<in> set d \<and> ref a \<in> set (path e)"
proof -
  assume "a \<in> set (ancestors d e)"
  then obtain r where "r \<in> set (path e)" "getr d r = Some a"
    unfolding ancestors_def List.map_filter_def by fastforce
  then show ?thesis by (auto dest: getr_Some)
qed

lemma closest_Some:
  assumes "closest d P e = Some a"
  shows "P a" "a = e \<or> a \<in> set d \<and> ref a \<in> set (path e)"
proof -
  from assms have "a \<in> set (e # ancestors d e)" "P a"
    unfolding closest_def find_Some_iff by (metis nth_mem)+
  then show "P a" "a = e \<or> a \<in> set d \<and> ref a \<in> set (path e)"
    by (auto dest: ancestors_mem)
qed

section \<open>Well-formed documents\<close>

text \<open>
  The list is the preorder of a forest: the ancestors of an element are the element before it, or
  some of that element's ancestors up to the root.  Identities are unique.
\<close>

fun preorder :: "nat list \<Rightarrow> dom \<Rightarrow> bool" where
  "preorder cur [] = True"
| "preorder cur (e # es) = (suffix (path e) cur \<and> preorder (ref e # path e) es)"

definition wf_dom :: "dom \<Rightarrow> bool" where
  "wf_dom d \<longleftrightarrow> distinct (map ref d) \<and> preorder [] d"

fun here :: "nat list \<Rightarrow> dom \<Rightarrow> nat list" where
  "here cur [] = cur"
| "here cur (e # es) = here (ref e # path e) es"

lemma preorder_append:
  "preorder cur (xs @ ys) \<longleftrightarrow> preorder cur xs \<and> preorder (here cur xs) ys"
  by (induction xs arbitrary: cur) auto

lemma here_append [simp]: "here cur (xs @ ys) = here (here cur xs) ys"
  by (induction xs arbitrary: cur) auto

lemma suffix_trans: "suffix a b \<Longrightarrow> suffix b c \<Longrightarrow> suffix a c"
  by (rule suffix_order.trans)

lemma preorder_mono: "suffix c c' \<Longrightarrow> preorder c es \<Longrightarrow> preorder c' es"
  by (cases es) (simp_all, metis suffix_trans)

lemma preorder_skeleton:
  "map ref d = map ref d' \<Longrightarrow> map path d = map path d' \<Longrightarrow> preorder cur d = preorder cur d'"
  by (induction d d' arbitrary: cur rule: list_induct2')  auto

lemma wf_dom_map: "keeps f \<Longrightarrow> wf_dom (map f d) = wf_dom d"
  using preorder_skeleton [of "map f d" d "[]"] by (simp add: wf_dom_def comp_def keeps_def)

lemma keeps_if: "keeps f \<Longrightarrow> keeps (\<lambda>e. if P e then f e else e)"
  by (simp add: keeps_def)

lemma wf_upd [simp]: "keeps f \<Longrightarrow> wf_dom (upd r f d) = wf_dom d"
  unfolding upd_def by (intro wf_dom_map keeps_if)

lemma wf_upd_where [simp]: "keeps f \<Longrightarrow> wf_dom (upd_where P f d) = wf_dom d"
  unfolding upd_where_def by (intro wf_dom_map keeps_if)

lemma wf_upd_refs [simp]: "keeps f \<Longrightarrow> wf_dom (upd_refs es f d) = wf_dom d"
  by (simp add: upd_refs_def)

lemma path_before:
  "preorder cur (xs @ e # ys) \<Longrightarrow> set (path e) \<subseteq> set cur \<union> ref ` set xs"
proof (induction xs arbitrary: cur)
  case Nil
  then show ?case by (auto dest: set_mono_suffix)
next
  case (Cons x xs)
  from Cons.prems have "set (path x) \<subseteq> set cur" by (auto dest: set_mono_suffix)
  with Cons show ?case by fastforce
qed

lemma ref_notin_path: "wf_dom d \<Longrightarrow> e \<in> set d \<Longrightarrow> ref e \<notin> set (path e)"
proof -
  assume wf: "wf_dom d" and e: "e \<in> set d"
  then obtain xs ys where d: "d = xs @ e # ys" by (meson split_list)
  with wf have "set (path e) \<subseteq> ref ` set xs" using path_before [of "[]" xs e ys]
    by (simp add: wf_dom_def)
  moreover have "ref e \<notin> ref ` set xs" using wf d by (auto simp: wf_dom_def)
  ultimately show ?thesis by blast
qed

section \<open>Removal\<close>

text \<open>\<open>e.remove()\<close>: the element and everything below it.\<close>

definition detach :: "nat \<Rightarrow> dom \<Rightarrow> dom" where
  "detach r d = filter (\<lambda>e. ref e \<noteq> r \<and> \<not> inside r e) d"

text \<open>\<open>$(e).empty()\<close>, or \<open>e.innerHTML = ''\<close>: everything below it, its text included.\<close>

definition empty_el :: "nat \<Rightarrow> dom \<Rightarrow> dom" where
  "empty_el r d = upd r (\<lambda>e. e\<lparr>etext := []\<rparr>) (filter (\<lambda>e. \<not> inside r e) d)"

definition detach_all :: "elem list \<Rightarrow> dom \<Rightarrow> dom" where
  "detach_all es d = fold (\<lambda>e d. detach (ref e) d) es d"

lemma set_detach: "set (detach r d) = {e \<in> set d. ref e \<noteq> r \<and> r \<notin> set (path e)}"
  by (auto simp: detach_def inside_def)

lemma set_detach_all:
  "set (detach_all es d) =
     {e \<in> set d. ref e \<notin> ref ` set es \<and> (\<forall>r \<in> ref ` set es. r \<notin> set (path e))}"
  unfolding detach_all_def by (induction es arbitrary: d) (auto simp: set_detach)

lemma preorder_prune:
  assumes "preorder cur es" "\<And>p. suffix p cur \<Longrightarrow> r \<notin> set p \<Longrightarrow> suffix p cur'"
  shows "preorder cur' (filter (\<lambda>e. ref e \<noteq> r \<and> r \<notin> set (path e)) es)"
  using assms
proof (induction es arbitrary: cur cur')
  case (Cons e es)
  have "suffix p cur'" if "ref e = r \<or> r \<in> set (path e)" "suffix p (ref e # path e)" "r \<notin> set p" for p
  proof -
    from that have "suffix p (path e)" by (auto simp: suffix_Cons)
    moreover from Cons.prems(1) have "suffix (path e) cur" by simp
    ultimately show "suffix p cur'" using Cons.prems(2) that(3) suffix_trans by blast
  qed
  with Cons.IH [of "ref e # path e" cur'] Cons.IH [of "ref e # path e" "ref e # path e"] Cons.prems
  show ?case by (cases "ref e = r \<or> r \<in> set (path e)") auto
qed simp

lemma preorder_prune_below:
  assumes "preorder cur es" "\<And>p. suffix p cur \<Longrightarrow> r \<notin> set p \<Longrightarrow> suffix p cur'"
    and "suffix (r # q) cur \<Longrightarrow> suffix (r # q) cur'" "\<And>e. e \<in> set es \<Longrightarrow> ref e = r \<Longrightarrow> path e = q"
    and "r \<notin> set q"
  shows "preorder cur' (filter (\<lambda>e. r \<notin> set (path e)) es)"
  using assms(1-4)
proof (induction es arbitrary: cur cur')
  case (Cons e es)
  have "suffix p cur'" if "r \<in> set (path e)" "suffix p (ref e # path e)" "r \<notin> set p" for p
  proof -
    from that have "suffix p (path e)" by (auto simp: suffix_Cons)
    moreover from Cons.prems(1) have "suffix (path e) cur" by simp
    ultimately show "suffix p cur'" using Cons.prems(2) that(3) suffix_trans by blast
  qed
  moreover have "suffix (r # q) cur'" if "r \<in> set (path e)" "suffix (r # q) (ref e # path e)"
  proof -
    from that Cons.prems(4) assms(5) have "suffix (r # q) (path e)"
      by (auto simp: suffix_Cons)
    moreover from Cons.prems(1) have "suffix (path e) cur" by simp
    ultimately show ?thesis using Cons.prems(3) suffix_trans by blast
  qed
  ultimately show ?case
    using Cons.IH [of "ref e # path e" cur'] Cons.IH [of "ref e # path e" "ref e # path e"] Cons.prems
    by (cases "r \<in> set (path e)") auto
qed simp

lemma wf_detach [simp]: "wf_dom d \<Longrightarrow> wf_dom (detach r d)"
  using preorder_prune [of "[]" d r "[]"]
  by (auto simp: wf_dom_def detach_def inside_def distinct_map_filter)

lemma wf_detach_all [simp]: "wf_dom d \<Longrightarrow> wf_dom (detach_all es d)"
  unfolding detach_all_def by (induction es arbitrary: d) auto

lemma wf_empty_el [simp]:
  assumes "wf_dom d"
  shows "wf_dom (empty_el r d)"
proof -
  have "preorder [] (filter (\<lambda>e. r \<notin> set (path e)) d)"
  proof (cases "\<exists>e \<in> set d. ref e = r")
    case True
    then obtain e where e: "e \<in> set d" "ref e = r" by blast
    show ?thesis
    proof (rule preorder_prune_below [of "[]" d r "[]" "path e"])
      show "preorder [] d" using assms by (simp add: wf_dom_def)
      show "r \<notin> set (path e)" using ref_notin_path [OF assms e(1)] e(2) by simp
      show "path x = path e" if "x \<in> set d" "ref x = r" for x
        using assms e that unfolding wf_dom_def distinct_map by (metis inj_onD)
    qed simp_all
  next
    case False
    then have *: "filter (\<lambda>e. ref e \<noteq> r \<and> r \<notin> set (path e)) d = filter (\<lambda>e. r \<notin> set (path e)) d"
      by (intro filter_cong) auto
    have "preorder [] (filter (\<lambda>e. ref e \<noteq> r \<and> r \<notin> set (path e)) d)"
      using assms preorder_prune [of "[]" d r "[]"] by (simp add: wf_dom_def)
    then show ?thesis by (simp only: *)
  qed
  then have "wf_dom (filter (\<lambda>e. \<not> inside r e) d)"
    using assms by (simp add: wf_dom_def inside_def distinct_map_filter)
  then show ?thesis unfolding empty_el_def by (subst wf_upd) auto
qed

section \<open>Insertion\<close>

text \<open>
  New content: a tree of elements without identities.  Placing it below the path \<open>p\<close> numbers
  its elements from \<open>n\<close> on, in document order.
\<close>

datatype html = Html elem "html list"

fun place :: "nat list \<Rightarrow> nat \<Rightarrow> html \<Rightarrow> dom"
  and place_list :: "nat list \<Rightarrow> nat \<Rightarrow> html list \<Rightarrow> dom" where
  "place p n (Html e ks) = e\<lparr>ref := n, path := p\<rparr> # place_list (n # p) (Suc n) ks"
| "place_list p n [] = []"
| "place_list p n (k # ks) = place p n k @ place_list p (n + length (place p n k)) ks"

definition fresh_ref :: "dom \<Rightarrow> nat" where
  "fresh_ref d = Suc (foldr max (map ref d) 0)"

text \<open>The new block before the element \<open>r\<close>, first below it, or after its subtree.\<close>

fun ins_before :: "nat \<Rightarrow> dom \<Rightarrow> dom \<Rightarrow> dom" where
  "ins_before r new [] = []"
| "ins_before r new (e # es) =
     (if ref e = r then new @ e # es else e # ins_before r new es)"

fun ins_first :: "nat \<Rightarrow> dom \<Rightarrow> dom \<Rightarrow> dom" where
  "ins_first r new [] = []"
| "ins_first r new (e # es) =
     (if ref e = r then e # new @ es else e # ins_first r new es)"

fun ins_last :: "nat \<Rightarrow> dom \<Rightarrow> dom \<Rightarrow> dom" where
  "ins_last r new [] = []"
| "ins_last r new (e # es) =
     (if ref e = r then e # takeWhile (inside r) es @ new @ dropWhile (inside r) es
      else e # ins_last r new es)"

text \<open>
  \<open>$(r).append(hs)\<close> (also \<open>appendChild\<close>), \<open>prepend\<close>, \<open>before\<close> (also
  \<open>insertBefore\<close>) and \<open>after\<close>.  Nothing happens where there is no such element.
\<close>

definition append_to :: "nat \<Rightarrow> html list \<Rightarrow> dom \<Rightarrow> dom" where
  "append_to r hs d =
     (case getr d r of None \<Rightarrow> d
      | Some e \<Rightarrow> ins_last r (place_list (r # path e) (fresh_ref d) hs) d)"

definition prepend_to :: "nat \<Rightarrow> html list \<Rightarrow> dom \<Rightarrow> dom" where
  "prepend_to r hs d =
     (case getr d r of None \<Rightarrow> d
      | Some e \<Rightarrow> ins_first r (place_list (r # path e) (fresh_ref d) hs) d)"

definition insert_before :: "nat \<Rightarrow> html list \<Rightarrow> dom \<Rightarrow> dom" where
  "insert_before r hs d =
     (case getr d r of None \<Rightarrow> d
      | Some e \<Rightarrow> ins_before r (place_list (path e) (fresh_ref d) hs) d)"

definition insert_after :: "nat \<Rightarrow> html list \<Rightarrow> dom \<Rightarrow> dom" where
  "insert_after r hs d =
     (case getr d r of None \<Rightarrow> d
      | Some e \<Rightarrow> ins_last r (place_list (path e) (fresh_ref d) hs) d)"

lemma less_fresh_ref: "e \<in> set d \<Longrightarrow> ref e < fresh_ref d"
  unfolding fresh_ref_def by (induction d) auto

lemma place_refs:
  "map ref (place p n h) = [n..<n + length (place p n h)]"
  "map ref (place_list p n hs) = [n..<n + length (place_list p n hs)]"
proof (induction p n h and p n hs rule: place_place_list.induct)
  case (1 p n e ks)
  then show ?case by (simp add: upt_conv_Cons del: upt_Suc)
next
  case (3 p n k ks)
  have "[n..<n + (l + m)] = [n..<n + l] @ [n + l..<n + l + m]" for l m
    using upt_add_eq_append [of n "n + l" m] by (simp add: add.assoc)
  then show ?case using 3 by simp
qed simp

lemma place_preorder:
  "preorder p (place p n h) \<and> (\<forall>x \<in> set (place p n h). suffix p (path x))"
  "preorder p (place_list p n hs) \<and> (\<forall>x \<in> set (place_list p n hs). suffix p (path x))"
proof (induction p n h and p n hs rule: place_place_list.induct)
  case (1 p n e ks)
  then show ?case by (auto dest: suffix_ConsD)
next
  case (3 p n k ks)
  have "suffix p (here p (place p n k))"
  proof (cases "place p n k" rule: rev_cases)
    case (snoc xs x)
    with 3 have "suffix p (path x)" by auto
    with snoc show ?thesis by (simp add: suffix_ConsI)
  qed simp
  with 3 show ?case by (auto simp: preorder_append intro: preorder_mono)
qed simp

lemma set_ins:
  "set (ins_before r new d) = set d \<union> (if r \<in> ref ` set d then set new else {})"
  "set (ins_first r new d) = set d \<union> (if r \<in> ref ` set d then set new else {})"
  "set (ins_last r new d) = set d \<union> (if r \<in> ref ` set d then set new else {})"
proof -
  have *: "set (takeWhile P es) \<union> (A \<union> set (dropWhile P es)) = set es \<union> A" for P A and es :: dom
    using takeWhile_dropWhile_id [of P es] by (metis Un_assoc Un_commute set_append)
  show "set (ins_last r new d) = set d \<union> (if r \<in> ref ` set d then set new else {})"
    by (induction r new d rule: ins_last.induct) (simp_all add: *)
  show "set (ins_before r new d) = set d \<union> (if r \<in> ref ` set d then set new else {})"
    by (induction r new d rule: ins_before.induct) auto
  show "set (ins_first r new d) = set d \<union> (if r \<in> ref ` set d then set new else {})"
    by (induction r new d rule: ins_first.induct) auto
qed

text \<open>What keeps a document well formed: a new block whose elements are all below \<open>b\<close>.\<close>

lemma here_suffix: "preorder b new \<Longrightarrow> \<forall>x \<in> set new. suffix b (path x) \<Longrightarrow> suffix b (here b new)"
  by (cases new rule: rev_cases) (auto intro: suffix_ConsI)

lemma preorder_splice:
  assumes "preorder cur xs" "preorder b new" "\<forall>x \<in> set new. suffix b (path x)"
    and "suffix b (here cur xs)" "preorder b ys"
  shows "preorder cur (xs @ new @ ys)"
proof -
  have "preorder (here (here cur xs) new) ys"
  proof (cases new rule: rev_cases)
    case Nil
    with assms(4,5) show ?thesis by (auto intro: preorder_mono)
  next
    case (snoc zs z)
    with assms(3) have "suffix b (ref z # path z)" by (auto intro: suffix_ConsI)
    with snoc assms(5) show ?thesis by (auto intro: preorder_mono)
  qed
  with assms preorder_mono [OF assms(4,2)] show ?thesis by (simp add: preorder_append)
qed

text \<open>The elements of a subtree follow its root without a gap.\<close>

lemma subtree_paths:
  assumes "preorder cur es" "suffix (r # p) cur" "r \<notin> set p"
  shows "(\<forall>s \<in> set (takeWhile (inside r) es). suffix (r # p) (path s))
     \<and> preorder p (dropWhile (inside r) es)"
  using assms
proof (induction es arbitrary: cur)
  case (Cons x es)
  have cmp: "suffix (r # p) (path x) \<or> suffix (path x) p"
    using Cons.prems(1,2) suffix_same_cases [of "path x" cur "r # p"]
    by (auto simp: suffix_Cons)
  show ?case
  proof (cases "inside r x")
    case True
    then have "\<not> suffix (path x) p"
      using Cons.prems(3) by (auto simp: inside_def dest: set_mono_suffix)
    with cmp have "suffix (r # p) (path x)" by simp
    then show ?thesis using True Cons.IH [of "ref x # path x"] Cons.prems
      by (simp add: suffix_ConsI)
  next
    case False
    then have "\<not> suffix (r # p) (path x)" by (auto simp: inside_def dest: set_mono_suffix)
    with cmp False Cons.prems(1) show ?thesis by simp
  qed
qed simp

lemma ins_split:
  "r \<in> ref ` set d \<Longrightarrow> \<exists>xs e ys. d = xs @ e # ys \<and> ref e = r \<and> r \<notin> ref ` set xs
     \<and> ins_before r new d = xs @ new @ e # ys \<and> ins_first r new d = xs @ e # new @ ys
     \<and> ins_last r new d = xs @ e # takeWhile (inside r) ys @ new @ dropWhile (inside r) ys"
proof (induction d)
  case (Cons x d)
  show ?case
  proof (cases "ref x = r")
    case True
    then show ?thesis by (intro exI [of _ "[]"] exI [of _ x] exI [of _ d]) simp
  next
    case False
    with Cons obtain xs e ys where *: "d = xs @ e # ys \<and> ref e = r \<and> r \<notin> ref ` set xs
     \<and> ins_before r new d = xs @ new @ e # ys \<and> ins_first r new d = xs @ e # new @ ys
     \<and> ins_last r new d = xs @ e # takeWhile (inside r) ys @ new @ dropWhile (inside r) ys"
      by auto
    show ?thesis
      by (intro exI [of _ "x # xs"] exI [of _ e] exI [of _ ys])
        (use * False in \<open>simp add: image_iff, metis\<close>)
  qed
qed simp

lemma preorder_ins:
  assumes "wf_dom d" "e \<in> set d" "ref e = r" "preorder b new"
    and "\<forall>x \<in> set new. suffix b (path x)"
  shows "b = path e \<Longrightarrow> preorder [] (ins_before r new d)"
    and "b = r # path e \<Longrightarrow> preorder [] (ins_first r new d)"
    and "b = path e \<or> b = r # path e \<Longrightarrow> preorder [] (ins_last r new d)"
proof -
  obtain xs e' ys where d: "d = xs @ e' # ys" "ref e' = r"
    and ins: "ins_before r new d = xs @ new @ e' # ys" "ins_first r new d = xs @ e' # new @ ys"
      "ins_last r new d = xs @ e' # takeWhile (inside r) ys @ new @ dropWhile (inside r) ys"
    using ins_split [of r d new] assms(2,3) by blast
  have e': "e' = e"
    using assms(1-3) d unfolding wf_dom_def distinct_map by (metis in_set_conv_decomp inj_onD)
  have r: "r \<notin> set (path e)" using ref_notin_path [OF assms(1,2)] assms(3) by simp
  have pre: "preorder [] xs" "suffix (path e) (here [] xs)" "preorder (r # path e) ys"
    using assms(1,3) d e' by (auto simp: wf_dom_def preorder_append)
  let ?sub = "takeWhile (inside r) ys" and ?post = "dropWhile (inside r) ys"
  have sub: "\<forall>s \<in> set ?sub. suffix (r # path e) (path s)" "preorder (path e) ?post"
    using subtree_paths [OF pre(3) _ r] by simp_all
  have sub': "preorder (r # path e) ?sub"
    using pre(3) takeWhile_dropWhile_id [of "inside r" ys] preorder_append by metis
  show "preorder [] (ins_before r new d)" if "b = path e"
    using preorder_splice [OF pre(1) assms(4,5), of "e # ys"] that pre assms(3) ins(1) e' by simp
  show "preorder [] (ins_first r new d)" if "b = r # path e"
    using preorder_splice [of "[]" "xs @ [e]" b new ys] that pre assms(3-5) ins(2) e'
    by (simp add: preorder_append)
  show "preorder [] (ins_last r new d)" if "b = path e \<or> b = r # path e"
  proof -
    have "suffix (r # path e) (here [] (xs @ e # ?sub))"
      using here_suffix [OF sub' sub(1)] assms(3) by simp
    then have "suffix b (here [] (xs @ e # ?sub))" using that
      by (metis suffix_ConsI suffix_order.refl suffix_trans)
    moreover have "preorder b ?post" using that sub(2)
      by (metis preorder_mono suffix_ConsI suffix_order.refl)
    ultimately show ?thesis
      using preorder_splice [of "[]" "xs @ e # ?sub" b new ?post] pre sub' assms(3-5) ins(3) e'
      by (simp add: preorder_append)
  qed
qed

lemma distinct_ins:
  assumes "distinct (map ref d)" "distinct (map ref new)" "ref ` set new \<inter> ref ` set d = {}"
  shows "distinct (map ref (ins_before r new d))" "distinct (map ref (ins_first r new d))"
    "distinct (map ref (ins_last r new d))"
proof -
  have *: "distinct (map ref (takeWhile P es @ new @ dropWhile P es))"
    if "distinct (map ref es)" "ref ` set new \<inter> ref ` set es = {}" for P es
  proof -
    have "distinct (map ref (takeWhile P es @ dropWhile P es))" using that by simp
    moreover have "set (takeWhile P es @ dropWhile P es) = set es" by simp
    ultimately show ?thesis using assms(2) that
      by (simp only: map_append distinct_append set_append set_map image_Un) blast
  qed
  have s: "set (takeWhile P es @ new @ dropWhile P es) = set es \<union> set new" for P and es :: dom
    using takeWhile_dropWhile_id [of P es] by (metis Un_assoc Un_commute set_append)
  show "distinct (map ref (ins_last r new d))"
    using assms(1,3)
  proof (induction d)
    case (Cons x d)
    show ?case
    proof (cases "ref x = r")
      case True
      then show ?thesis using Cons.prems *[of d "inside r"] s [of "inside r" d]
        by (auto simp del: set_append map_append) 
    next
      case False
      then show ?thesis using Cons by (auto simp: set_ins)
    qed
  qed simp
  show "distinct (map ref (ins_before r new d))"
    using assms(1,3) by (induction d) (use assms(2) in \<open>auto simp: set_ins\<close>)
  show "distinct (map ref (ins_first r new d))"
    using assms(1,3) by (induction d) (use assms(2) in \<open>auto simp: set_ins\<close>)
qed

lemma place_fresh:
  "distinct (map ref (place_list p (fresh_ref d) hs))"
  "ref ` set (place_list p (fresh_ref d) hs) \<inter> ref ` set d = {}"
proof -
  show "distinct (map ref (place_list p (fresh_ref d) hs))" by (simp add: place_refs)
  have "set (map ref (place_list p (fresh_ref d) hs)) \<subseteq> {fresh_ref d..}"
    by (simp only: place_refs set_upt) auto
  then show "ref ` set (place_list p (fresh_ref d) hs) \<inter> ref ` set d = {}"
    using less_fresh_ref [of _ d] by fastforce
qed

lemma wf_insert [simp]:
  assumes "wf_dom d"
  shows "wf_dom (append_to r hs d)" "wf_dom (prepend_to r hs d)"
    "wf_dom (insert_before r hs d)" "wf_dom (insert_after r hs d)"
proof -
  have "wf_dom (append_to r hs d) \<and> wf_dom (prepend_to r hs d)
     \<and> wf_dom (insert_before r hs d) \<and> wf_dom (insert_after r hs d)"
  proof (cases "getr d r")
    case (Some e)
    then have e: "e \<in> set d" "ref e = r" by (auto dest: getr_Some)
    note pl = place_preorder(2) [of _ "fresh_ref d" hs]
    have dist: "distinct (map ref d)" using assms by (simp add: wf_dom_def)
    note ins = preorder_ins [OF assms e conjunct1 [OF pl] conjunct2 [OF pl]]
    note dis = distinct_ins [OF dist place_fresh]
    show ?thesis using Some
      by (simp add: append_to_def prepend_to_def insert_before_def insert_after_def wf_dom_def
          ins dis)
  qed (simp add: append_to_def prepend_to_def insert_before_def insert_after_def assms)
  then show "wf_dom (append_to r hs d)" "wf_dom (prepend_to r hs d)"
    "wf_dom (insert_before r hs d)" "wf_dom (insert_after r hs d)" by auto
qed

text \<open>The elements of the document after an insertion: those it had, and the new ones.\<close>

lemma set_append_to:
  "getr d r = Some e \<Longrightarrow>
     set (append_to r hs d) = set d \<union> set (place_list (r # path e) (fresh_ref d) hs)"
  and set_prepend_to:
  "getr d r = Some e \<Longrightarrow>
     set (prepend_to r hs d) = set d \<union> set (place_list (r # path e) (fresh_ref d) hs)"
  and set_insert_before:
  "getr d r = Some e \<Longrightarrow>
     set (insert_before r hs d) = set d \<union> set (place_list (path e) (fresh_ref d) hs)"
  and set_insert_after:
  "getr d r = Some e \<Longrightarrow>
     set (insert_after r hs d) = set d \<union> set (place_list (path e) (fresh_ref d) hs)"
  by (auto simp: append_to_def prepend_to_def insert_before_def insert_after_def set_ins
      dest: getr_Some)


section \<open>Queries after a change that keeps the structure\<close>

lemma getr_map: "keeps f \<Longrightarrow> getr (map f d) r = map_option f (getr d r)"
  by (induction d) (auto simp: getr_def keeps_def)

lemma map_filter_map_option: "List.map_filter (\<lambda>r. map_option f (g r)) rs = map f (List.map_filter g rs)"
  by (induction rs) (auto simp: List.map_filter_simps split: option.splits)

lemma ancestors_map:
  assumes "keeps f"
  shows "ancestors (map f d) (f e) = map f (ancestors d e)"
proof -
  have "getr (map f d) = (\<lambda>r. map_option f (getr d r))" using getr_map [OF assms] by blast
  then show ?thesis by (simp add: ancestors_def keeps_path [OF assms] map_filter_map_option)
qed

lemma closest_map:
  "keeps f \<Longrightarrow> (\<And>x. P (f x) = P x) \<Longrightarrow> closest (map f d) P (f e) = map_option f (closest d P e)"
  by (simp only: closest_def ancestors_map list.map(2) [symmetric] find_map)

lemma inside_keeps: "keeps f \<Longrightarrow> inside r (f e) = inside r e"
  by (simp add: inside_def keeps_path)

lemma find_in_map:
  "keeps f \<Longrightarrow> (\<And>x. P (f x) = P x) \<Longrightarrow> find_in (map f d) r P = map f (find_in d r P)"
  by (simp add: find_in_def filter_map comp_def inside_keeps)


section \<open>Queries after an insertion\<close>

text \<open>New elements with identities of their own disturb no query about the old ones.\<close>

definition extends :: "dom \<Rightarrow> dom \<Rightarrow> bool" where
  "extends d d' \<longleftrightarrow> wf_dom d \<and> wf_dom d' \<and> set d \<subseteq> set d'"

lemma extends_refl: "wf_dom d \<Longrightarrow> extends d d"
  and extends_trans: "extends d d' \<Longrightarrow> extends d' d'' \<Longrightarrow> extends d d''"
  by (auto simp: extends_def)

lemma extends_getr:
  assumes "extends d d'" "getr d r = Some e"
  shows "getr d' r = Some e"
proof -
  have "e \<in> set d'" "ref e = r" using assms by (auto simp: extends_def dest: getr_Some)
  then show ?thesis using assms(1) getr_mem [of d' e] by (simp add: extends_def wf_dom_def)
qed

lemma path_refs:
  assumes "wf_dom d" "e \<in> set d" "r \<in> set (path e)"
  shows "r \<in> ref ` set d"
proof -
  obtain xs ys where d: "d = xs @ e # ys" using assms(2) by (meson split_list)
  then have "set (path e) \<subseteq> set [] \<union> ref ` set xs"
    using assms(1) path_before [of "[]" xs e ys] by (simp add: wf_dom_def)
  then show ?thesis using assms(3) d by auto
qed

lemma map_filter_eq: "\<forall>x \<in> set xs. f x = g x \<Longrightarrow> List.map_filter f xs = List.map_filter g xs"
  by (induction xs) (simp_all add: List.map_filter_simps split: option.split)

lemma extends_ancestors:
  assumes "extends d d'" "e \<in> set d"
  shows "ancestors d' e = ancestors d e"
proof -
  have "getr d' r = getr d r" if "r \<in> set (path e)" for r
  proof -
    have "r \<in> ref ` set d" using path_refs [OF _ assms(2) that] assms(1) by (simp add: extends_def)
    then obtain x where "getr d r = Some x" using getr_None [of d r] by auto
    then show ?thesis using extends_getr [OF assms(1)] by simp
  qed
  then show ?thesis unfolding ancestors_def by (intro map_filter_eq) simp
qed

lemma extends_closest: "extends d d' \<Longrightarrow> e \<in> set d \<Longrightarrow> closest d' P e = closest d P e"
  by (simp add: closest_def extends_ancestors)

lemma extends_insert [intro]:
  assumes "wf_dom d"
  shows "extends d (append_to r hs d)" "extends d (prepend_to r hs d)"
    "extends d (insert_before r hs d)" "extends d (insert_after r hs d)"
proof -
  have "set d \<subseteq> set (append_to r hs d) \<and> set d \<subseteq> set (prepend_to r hs d)
      \<and> set d \<subseteq> set (insert_before r hs d) \<and> set d \<subseteq> set (insert_after r hs d)"
  proof (cases "getr d r")
    case None
    then show ?thesis
      by (simp add: append_to_def prepend_to_def insert_before_def insert_after_def)
  next
    case (Some e)
    then show ?thesis
      by (simp add: set_append_to set_prepend_to set_insert_before set_insert_after)
  qed
  then show "extends d (append_to r hs d)" "extends d (prepend_to r hs d)"
    "extends d (insert_before r hs d)" "extends d (insert_after r hs d)"
    using assms by (simp_all add: extends_def)
qed

text \<open>The elements below the place of an insertion, in order.\<close>

lemma find_in_append:
  assumes "wf_dom d" "getr d r = Some e"
  shows "find_in (append_to r hs d) r P
     = find_in d r P @ filter P (place_list (r # path e) (fresh_ref d) hs)"
proof -
  let ?new = "place_list (r # path e) (fresh_ref d) hs"
  have e: "e \<in> set d" "ref e = r" using assms(2) by (auto dest: getr_Some)
  obtain xs e' ys where d: "d = xs @ e' # ys" "ref e' = r"
    and ins: "ins_last r ?new d = xs @ e' # takeWhile (inside r) ys @ ?new @ dropWhile (inside r) ys"
    using ins_split [of r d ?new] e by blast
  have e': "e' = e"
    using assms(1) e d unfolding wf_dom_def distinct_map by (metis in_set_conv_decomp inj_onD)
  have dist: "distinct (map ref d)" and pre: "preorder [] d" using assms(1) by (auto simp: wf_dom_def)
  have rp: "r \<notin> set (path e)" using ref_notin_path [OF assms(1) e(1)] e(2) by simp
  have xs: "\<not> inside r x" if "x \<in> set xs" for x
  proof -
    from that obtain us vs where "xs = us @ x # vs" by (meson split_list)
    then have "set (path x) \<subseteq> ref ` set us" using pre d path_before [of "[]" us x "vs @ e' # ys"] by auto
    moreover have "r \<notin> ref ` set us" using dist d \<open>xs = us @ x # vs\<close> by auto
    ultimately show ?thesis by (auto simp: inside_def)
  qed
  have "preorder (r # path e) ys" using pre d e' e(2) by (simp add: preorder_append)
  then have tail: "preorder (path e) (dropWhile (inside r) ys)"
    using subtree_paths [of "r # path e" ys r "path e"] rp by simp
  have drop: "\<not> inside r z" if "z \<in> set (dropWhile (inside r) ys)" for z
  proof -
    from that obtain us vs where z: "dropWhile (inside r) ys = us @ z # vs" by (meson split_list)
    then have "set (path z) \<subseteq> set (path e) \<union> ref ` set us"
      using tail path_before [of "path e" us z vs] by simp
    moreover have "set us \<subseteq> set ys" using z by (metis Un_upper1 order_trans set_append set_dropWhileD subsetI)
    then have "r \<notin> ref ` set us" using dist d by auto
    ultimately show ?thesis using rp by (auto simp: inside_def)
  qed
  have new: "inside r x" if "x \<in> set ?new" for x
    using place_preorder(2) [of "r # path e" "fresh_ref d" hs] that
    by (metis inside_def list.set_intros(1) set_mono_suffix subsetD)
  have xs0: "filter (\<lambda>x. inside r x \<and> P x) xs = []" using xs by (auto simp: filter_empty_conv)
  have d0: "filter (\<lambda>x. inside r x \<and> P x) (dropWhile (inside r) ys) = []"
    using drop by (auto simp: filter_empty_conv)
  have n0: "filter (\<lambda>x. inside r x \<and> P x) ?new = filter P ?new" using new by (auto intro: filter_cong)
  have "filter (\<lambda>x. inside r x \<and> P x) ys
      = filter (\<lambda>x. inside r x \<and> P x) (takeWhile (inside r) ys) @ filter (\<lambda>x. inside r x \<and> P x) (dropWhile (inside r) ys)"
    by (metis filter_append takeWhile_dropWhile_id)
  moreover have "\<not> inside r e'" using rp e' by (simp add: inside_def)
  ultimately show ?thesis
    using assms(2) d ins xs0 d0 n0 by (simp add: append_to_def find_in_def)
qed

section \<open>Building new elements\<close>

definition el :: "string \<Rightarrow> (string \<times> string) list \<Rightarrow> string list \<Rightarrow> html list \<Rightarrow> html" where
  "el t as cs ks = Html (new_el t as cs) ks"

definition el_text :: "string \<Rightarrow> (string \<times> string) list \<Rightarrow> string list \<Rightarrow> string \<Rightarrow> html" where
  "el_text t as cs s = Html ((new_el t as cs)\<lparr>etext := s\<rparr>) []"

text \<open>An option with its value and text, selected or not.\<close>

definition option_el :: "bool \<Rightarrow> string \<Rightarrow> string \<Rightarrow> elem" where
  "option_el sel v t = (new_el ''option'' [(''value'', v)] [])\<lparr>etext := t, on := sel, dflt_on := sel\<rparr>"

definition option_html :: "string \<times> string \<Rightarrow> html" where
  "option_html o' = Html (option_el False (fst o') (snd o')) []"

text \<open>\<open>$(e).nextAll(P)\<close>: the siblings after an element.\<close>

definition next_all :: "dom \<Rightarrow> elem \<Rightarrow> (elem \<Rightarrow> bool) \<Rightarrow> elem list" where
  "next_all d e P = filter (\<lambda>x. path x = path e \<and> P x) (tl (dropWhile (\<lambda>x. ref x \<noteq> ref e) d))"

text \<open>The elements a tree of new content brings, without their places.\<close>

fun html_elems :: "html \<Rightarrow> elem list" where
  "html_elems (Html e ks) = e # concat (map html_elems ks)"

definition unplaced :: "elem \<Rightarrow> elem" where
  "unplaced e = e\<lparr>ref := 0, path := []\<rparr>"

lemma place_unplaced:
  "map unplaced (place p n h) = map unplaced (html_elems h)"
  "map unplaced (place_list p n hs) = concat (map (\<lambda>h. map unplaced (html_elems h)) hs)"
  by (induction p n h and p n hs rule: place_place_list.induct)
    (auto simp: unplaced_def map_concat comp_def)

text \<open>A query about tag, attributes and classes sees new content as it was built.\<close>

lemma place_query:
  assumes "\<And>e. P (unplaced e) = P e"
  shows "(\<exists>x \<in> set (place_list p n hs). P x) \<longleftrightarrow> (\<exists>h \<in> set hs. \<exists>x \<in> set (html_elems h). P x)"
proof -
  have "(\<exists>x \<in> set (place_list p n hs). P x) \<longleftrightarrow> (\<exists>x \<in> set (map unplaced (place_list p n hs)). P x)"
    by (simp add: assms)
  also have "\<dots> \<longleftrightarrow> (\<exists>h \<in> set hs. \<exists>x \<in> set (html_elems h). P x)"
    by (simp add: place_unplaced assms)
  finally show ?thesis .
qed


lemma next_all_map:
  assumes "keeps f" "\<And>x. P (f x) = P x"
  shows "next_all (map f d) (f e) P = map f (next_all d e P)"
proof -
  have "dropWhile (\<lambda>x. ref x \<noteq> ref (f e)) (map f d) = map f (dropWhile (\<lambda>x. ref x \<noteq> ref e) d)"
    by (simp add: dropWhile_map comp_def keeps_ref [OF assms(1)])
  then show ?thesis
    by (simp add: next_all_def map_tl [symmetric] filter_map comp_def keeps_path [OF assms(1)] assms(2))
qed

section \<open>Looking elements up by identifier\<close>

definition id_ref :: "dom \<Rightarrow> string \<Rightarrow> nat option" where
  "id_ref d i = map_option ref (by_id d i)"

lemma id_ref_upd:
  "(\<And>e. ref (f e) = ref e) \<Longrightarrow> (\<And>e. attrs (f e) ''id'' = attrs e ''id'') \<Longrightarrow> id_ref (upd r f d) i = id_ref d i"
proof -
  assume f: "\<And>e. ref (f e) = ref e" "\<And>e. attrs (f e) ''id'' = attrs e ''id''"
  have id: "attrs (if ref e = r then f e else e) ''id'' = attrs e ''id''" for e using f(2) by simp
  have rf: "ref (if ref e = r then f e else e) = ref e" for e using f(1) by simp
  show ?thesis
    unfolding id_ref_def by_id_def upd_def find_map id option.map_comp comp_def rf ..
qed

lemma by_id_upd:
  "(\<And>e. ref (f e) = ref e) \<Longrightarrow> (\<And>e. attrs (f e) ''id'' = attrs e ''id'') \<Longrightarrow>
     by_id (upd r f d) i = map_option (\<lambda>e. if ref e = r then f e else e) (by_id d i)"
proof -
  assume f: "\<And>e. ref (f e) = ref e" "\<And>e. attrs (f e) ''id'' = attrs e ''id''"
  have id: "attrs (if ref e = r then f e else e) ''id'' = attrs e ''id''" for e using f(2) by simp
  show ?thesis unfolding by_id_def upd_def find_map id ..
qed

section \<open>Contents from the server\<close>

text \<open>\<open>e.innerHTML = ...\<close>, the elements the browser makes of the text being given.\<close>

definition set_contents :: "nat \<Rightarrow> html list \<Rightarrow> dom \<Rightarrow> dom" where
  "set_contents r hs d = append_to r hs (empty_el r d)"

lemma ex_upd: "(\<And>e. P (f e) = P e) \<Longrightarrow> (\<exists>e \<in> set (upd r f d). P e) \<longleftrightarrow> (\<exists>e \<in> set d. P e)"
  by (induction d) (auto simp: upd_def)

lemma known_iff: "by_id d i \<noteq> None \<longleftrightarrow> (\<exists>e \<in> set d. attrs e ''id'' = Some i)"
  by (simp add: by_id_None)

text \<open>What is found when nothing inserted satisfies the condition, or only what is inserted does.\<close>

lemma find_append: "find P (xs @ ys) = (case find P xs of None \<Rightarrow> find P ys | Some x \<Rightarrow> Some x)"
  by (induction xs) auto

lemma find_none: "find P xs = None \<longleftrightarrow> (\<forall>x \<in> set xs. \<not> P x)"
  by (auto simp: find_None_iff)

lemma find_ins_other:
  assumes "\<forall>x \<in> set new. \<not> P x"
  shows "find P (ins_last r new d) = find P d" "find P (ins_before r new d) = find P d"
proof -
  have n: "find P new = None" using assms by (simp add: find_none)
  have c: "find P (takeWhile Q d @ new @ dropWhile Q d) = find P d" for Q and d :: dom
  proof -
    have "find P (takeWhile Q d @ new @ dropWhile Q d) = find P (takeWhile Q d @ dropWhile Q d)"
      using n unfolding find_append by (simp split: option.split)
    then show ?thesis by (simp only: takeWhile_dropWhile_id)
  qed
  show "find P (ins_last r new d) = find P d" by (induction d) (simp_all add: c)
  show "find P (ins_before r new d) = find P d" using n by (induction d) (simp_all add: find_append)
qed

lemma find_ins_new:
  assumes "\<forall>x \<in> set d. \<not> P x" "r \<in> ref ` set d"
  shows "find P (ins_last r new d) = find P new" "find P (ins_before r new d) = find P new"
proof -
  have n: "find P (takeWhile Q d) = None" "find P (dropWhile Q d) = None" if "\<forall>x \<in> set d. \<not> P x" for Q d
    using that by (auto simp: find_none dest: set_takeWhileD set_dropWhileD)
  show "find P (ins_last r new d) = find P new"
    using assms by (induction d) (auto simp: find_append n split: option.split)
  show "find P (ins_before r new d) = find P new" using assms
  proof (induction d)
    case (Cons a d)
    have "find P d = None" using Cons.prems by (simp add: find_none)
    then show ?case using Cons by (cases "ref a = r") (auto simp: find_append split: option.split)
  qed simp
qed

end
