(* ===== verification/FormTracking.thy ===== *)
theory FormTracking
  imports Dom
begin

text \<open>
  \<open>form-tracking.js\<close>: the class \<open>changed\<close> on form fields of class \<open>tracked\<close>, the hidden
  fields that list the changed ones on submission, and the reset of a form.
\<close>

section \<open>Fields and their values\<close>

definition name_of :: "elem \<Rightarrow> string" where
  "name_of e = (case attrs e ''name'' of None \<Rightarrow> [] | Some n \<Rightarrow> n)"

definition is_radio :: "elem \<Rightarrow> bool" where
  "is_radio e \<longleftrightarrow> tag e = ''input'' \<and> of_type ''radio'' e"

definition is_checkbox :: "elem \<Rightarrow> bool" where
  "is_checkbox e \<longleftrightarrow> tag e = ''input'' \<and> of_type ''checkbox'' e"

text \<open>The jQuery selector \<open>input[type="radio"][name="..."]\<close> over the whole document.\<close>

definition in_group :: "elem \<Rightarrow> elem \<Rightarrow> bool" where
  "in_group e x \<longleftrightarrow> is_radio x \<and> attrs x ''name'' = Some (name_of e)"

definition mark :: "bool \<Rightarrow> elem \<Rightarrow> elem" where
  "mark same e = (if same then rm_class ''changed'' e else add_class ''changed'' e)"

text \<open>
  The loop over the options of a select.  With the attribute \<open>original\<close>, a comma separated list
  of values: every listed option is selected and no other.  Without it: every option has its
  default state.
\<close>

fun options_as_listed :: "string list \<Rightarrow> elem list \<Rightarrow> bool" where
  "options_as_listed vs [] = True"
| "options_as_listed vs (x # xs) =
     (if (val x \<in> set vs \<and> \<not> on x) \<or> (val x \<notin> set vs \<and> on x) then False
      else options_as_listed vs xs)"

fun options_default :: "elem list \<Rightarrow> bool" where
  "options_default [] = True"
| "options_default (x # xs) = (if dflt_on x \<noteq> on x then False else options_default xs)"

section \<open>updateChangeTrackingStatus\<close>

definition updateChangeTrackingStatus :: "nat \<Rightarrow> dom \<Rightarrow> dom" where
  "updateChangeTrackingStatus r d =
     (case getr d r of None \<Rightarrow> d
      | Some e \<Rightarrow>
        (case attrs e ''original'' of
           Some orig \<Rightarrow>
             if tag e = ''select''
             then upd r (mark (options_as_listed (split_on (CHR '','') orig) (options d e))) d
             else if is_radio e
             then upd_where (in_group e)
               (\<lambda>x. mark ((on x \<and> attrs x ''original'' = Some ''checked'')
                        \<or> (\<not> on x \<and> attrs x ''original'' = Some [])) x) d
             else if is_checkbox e
             then upd r (mark ((orig = ''checked'' \<and> on e) \<or> (orig = [] \<and> \<not> on e))) d
             else upd r (mark (orig = val e)) d
         | None \<Rightarrow>
             if tag e = ''select'' then upd r (mark (options_default (options d e))) d
             else if is_radio e
             then upd_where (in_group e) (\<lambda>x. mark (dflt_on x = on x) x) d
             else if is_checkbox e then upd r (mark (dflt_on e = on e)) d
             else upd r (mark (dflt e = val e)) d))"

section \<open>preSubmitTrackedElements\<close>

definition hidden_input :: "string \<Rightarrow> string \<Rightarrow> string list \<Rightarrow> html" where
  "hidden_input n v cs = Html (new_el ''input'' [(''type'', ''hidden''), (''name'', n), (''value'', v)] cs) []"

text \<open>
  The names of the changed fields, and whatever follows the last underscore in them; each once.
\<close>

definition changed_fields :: "dom \<Rightarrow> elem list" where
  "changed_fields d = filter (\<lambda>e. has ''tracked'' e \<and> has ''changed'' e) d"

definition changed_names :: "dom \<Rightarrow> string list" where
  "changed_names d = fold (\<lambda>e acc. push_new (name_of e) acc) (changed_fields d) []"

definition changed_ids :: "dom \<Rightarrow> string list" where
  "changed_ids d =
     fold (\<lambda>e acc. push_new (last (split_on (CHR ''_'') (name_of e))) acc) (changed_fields d) []"

text \<open>
  The old hidden fields go first.  \<open>submitButton.form\<close> is \<open>null\<close> for a button outside a form:
  the script stops there with a \<open>TypeError\<close>, the removal done.
\<close>

definition preSubmitTrackedElements :: "nat \<Rightarrow> dom \<Rightarrow> dom \<times> js_error option" where
  "preSubmitTrackedElements btn d =
     (let d1 = detach_all (filter (\<lambda>e. tag e = ''input'' \<and> has ''changedElements'' e) d) d in
      case Option.bind (getr d1 btn) (closest d1 (\<lambda>e. tag e = ''form'')) of
        None \<Rightarrow> (d1, Some TypeError)
      | Some f \<Rightarrow>
          let d2 = append_to (ref f) [hidden_input ''CHANGED_ELEMENTS''
                     (join_with '','' (changed_names d1)) [''changedElements'']] d1;
              d3 = append_to (ref f) [hidden_input ''CHANGED_ELEMENTS_IDS''
                     (join_with '','' (changed_ids d1)) [''changedElements'']] d2
          in (d3, None))"

section \<open>resetForm\<close>

text \<open>
  \<open>form.reset()\<close> of the browser: text fields get their default value, checkboxes, radio buttons
  and options their default state; then a drop-down with nothing selected selects its first enabled
  option, and one with several selected keeps the last.
\<close>

definition value_resets :: "elem \<Rightarrow> bool" where
  "value_resets e \<longleftrightarrow> tag e = ''textarea'' \<or>
     (tag e = ''input'' \<and>
      (case attrs e ''type'' of None \<Rightarrow> True
       | Some t \<Rightarrow> t \<notin> {''hidden'', ''submit'', ''button'', ''reset'', ''image'', ''checkbox'', ''radio''}))"

definition reset_control :: "elem \<Rightarrow> elem" where
  "reset_control e =
     (if value_resets e then e\<lparr>val := dflt e\<rparr>
      else if is_radio e \<or> is_checkbox e \<or> tag e = ''option'' then e\<lparr>on := dflt_on e\<rparr> else e)"

definition settle_select :: "dom \<Rightarrow> elem \<Rightarrow> dom" where
  "settle_select d s =
     (let os = options d s; sel = filter on os in
      if attrs s ''multiple'' \<noteq> None then d
      else if sel = []
      then (case find (\<lambda>x. \<not> off x) os of
              Some x \<Rightarrow> if attrs s ''size'' \<in> {None, Some ''1''}
                        then upd (ref x) (\<lambda>x. x\<lparr>on := True\<rparr>) d else d
            | None \<Rightarrow> d)
      else upd_refs (filter (\<lambda>x. ref x \<noteq> ref (last sel)) sel) (\<lambda>x. x\<lparr>on := False\<rparr>) d)"

definition form_reset :: "nat \<Rightarrow> dom \<Rightarrow> dom" where
  "form_reset f d =
     (let d1 = upd_where (inside f) reset_control d in
      foldl settle_select d1 (find_in d1 f (\<lambda>e. tag e = ''select'')))"

definition trows_of :: "string \<Rightarrow> nat \<Rightarrow> dom \<Rightarrow> elem list" where
  "trows_of c f d = find_in d f (\<lambda>e. tag e = ''tr'' \<and> has c e)"

definition reset_one :: "nat \<Rightarrow> dom \<Rightarrow> dom" where
  "reset_one f d =
     (let d1 = form_reset f d;
          d2 = detach_all (trows_of ''dnsadd'' f d1) d1;
          d3 = detach_all (trows_of ''dnsrefadd'' f d2) d2;
          d4 = upd_where (\<lambda>e. inside f e \<and> tag e = ''tr'') (rm_class ''rowrm'') d3;
          d5 = upd_where (\<lambda>e. inside f e \<and> tag e = ''td'') (rm_class ''pendingrm'') d4
      in fold updateChangeTrackingStatus (map ref (find_in d5 f (has ''tracked''))) d5)"

text \<open>The user confirms or not; no form given means every form of the page.\<close>

definition resetForm :: "bool \<Rightarrow> nat option \<Rightarrow> dom \<Rightarrow> dom" where
  "resetForm confirmed form d =
     (if \<not> confirmed then d
      else (let forms = (case form of Some f \<Rightarrow> [f]
                         | None \<Rightarrow> map ref (filter (\<lambda>e. tag e = ''form'') d))
            in fold reset_one forms d))"

text \<open>The handler at page load.\<close>

definition tracking_ready :: "dom \<Rightarrow> dom" where
  "tracking_ready d = fold updateChangeTrackingStatus (map ref (filter (has ''tracked'') d)) d"

section \<open>What the mark means\<close>

text \<open>
  A field differs: its state is not the one the page was built with.  With the attribute
  \<open>original\<close> that state is the attribute's value, without it the browser's default.
\<close>

definition differs :: "dom \<Rightarrow> elem \<Rightarrow> bool" where
  "differs d e =
     (case attrs e ''original'' of
        Some orig \<Rightarrow>
          if tag e = ''select''
          then \<exists>x \<in> set (options d e). on x \<noteq> (val x \<in> set (split_on (CHR '','') orig))
          else if is_radio e \<or> is_checkbox e
          then \<not> (if on e then orig = ''checked'' else orig = [])
          else orig \<noteq> val e
      | None \<Rightarrow>
          if tag e = ''select'' then \<exists>x \<in> set (options d e). dflt_on x \<noteq> on x
          else if is_radio e \<or> is_checkbox e then dflt_on e \<noteq> on e
          else dflt e \<noteq> val e)"

lemma options_as_listed_iff: "options_as_listed vs xs \<longleftrightarrow> (\<forall>x \<in> set xs. on x = (val x \<in> set vs))"
  by (induction xs) auto

lemma options_default_iff: "options_default xs \<longleftrightarrow> (\<forall>x \<in> set xs. dflt_on x = on x)"
  by (induction xs) auto

text \<open>
  A page whose forms make sense: a radio button has a name and the buttons of one name agree on
  whether they carry \<open>original\<close> and \<open>tracked\<close>; an option belongs to one select.
\<close>

definition radios_ok :: "dom \<Rightarrow> bool" where
  "radios_ok d \<longleftrightarrow>
     (\<forall>x \<in> set d. is_radio x \<longrightarrow> attrs x ''name'' \<noteq> None) \<and>
     (\<forall>x \<in> set d. \<forall>y \<in> set d. is_radio x \<and> is_radio y \<and> attrs y ''name'' = attrs x ''name'' \<longrightarrow>
        (attrs y ''original'' = None \<longleftrightarrow> attrs x ''original'' = None) \<and>
        (has ''tracked'' y \<longleftrightarrow> has ''tracked'' x))"

definition selects_ok :: "dom \<Rightarrow> bool" where
  "selects_ok d \<longleftrightarrow>
     (\<forall>x \<in> set d. \<forall>s \<in> set d. \<forall>t \<in> set d. tag s = ''select'' \<and> tag t = ''select'' \<and> inside (ref s) x
        \<and> inside (ref t) x \<longrightarrow> s = t)"

definition page_ok :: "dom \<Rightarrow> bool" where
  "page_ok d \<longleftrightarrow> wf_dom d \<and> radios_ok d \<and> selects_ok d"

definition tracking_ok :: "dom \<Rightarrow> bool" where
  "tracking_ok d \<longleftrightarrow> (\<forall>x \<in> set d. has ''tracked'' x \<longrightarrow> (has ''changed'' x \<longleftrightarrow> differs d x))"

text \<open>The part of an element that neither the user's edits nor the marks change.\<close>

definition same_shape :: "elem \<Rightarrow> elem \<Rightarrow> bool" where
  "same_shape e e' \<longleftrightarrow> ref e' = ref e \<and> path e' = path e \<and> tag e' = tag e \<and> attrs e' = attrs e
     \<and> dflt e' = dflt e \<and> dflt_on e' = dflt_on e \<and> (has ''tracked'' e' \<longleftrightarrow> has ''tracked'' e)"

definition shape_map :: "(elem \<Rightarrow> elem) \<Rightarrow> bool" where
  "shape_map f \<longleftrightarrow> (\<forall>e. same_shape e (f e))"

lemma shape_mapD:
  assumes "shape_map f"
  shows "ref (f e) = ref e" "path (f e) = path e" "tag (f e) = tag e" "attrs (f e) = attrs e"
    "dflt (f e) = dflt e" "dflt_on (f e) = dflt_on e" "has ''tracked'' (f e) \<longleftrightarrow> has ''tracked'' e"
    "is_radio (f e) \<longleftrightarrow> is_radio e" "is_checkbox (f e) \<longleftrightarrow> is_checkbox e"
    "inside r (f e) \<longleftrightarrow> inside r e" "name_of (f e) = name_of e"
  using assms
  by (auto simp: shape_map_def same_shape_def is_radio_def is_checkbox_def of_type_def inside_def
      name_of_def)

lemma shape_if: "shape_map f \<Longrightarrow> shape_map (\<lambda>e. if P e then f e else e)"
  by (auto simp: shape_map_def same_shape_def)

lemma shape_edits [simp]:
  "shape_map (\<lambda>e. e\<lparr>val := v\<rparr>)" "shape_map (\<lambda>e. e\<lparr>on := F e\<rparr>)" "shape_map (\<lambda>e. mark (b e) e)"
  by (auto simp: shape_map_def same_shape_def mark_def)

lemma shape_keeps: "shape_map f \<Longrightarrow> keeps f"
  by (auto simp: shape_mapD)

lemma page_ok_map:
  assumes "shape_map f"
  shows "page_ok (map f d) \<longleftrightarrow> page_ok d"
proof -
  note f = shape_mapD [OF assms]
  have inj: "f s = f t \<longleftrightarrow> s = t" if "wf_dom d" "s \<in> set d" "t \<in> set d" for s t
  proof
    assume "f s = f t"
    then have "ref s = ref t" by (metis f(1))
    with that show "s = t" unfolding wf_dom_def distinct_map by (metis inj_onD)
  qed simp
  show ?thesis
    unfolding page_ok_def using wf_dom_map [OF shape_keeps [OF assms], of d]
    by (auto simp: radios_ok_def selects_ok_def f inj)
qed

lemma mark_fields [simp]:
  "ref (mark b e) = ref e" "path (mark b e) = path e" "tag (mark b e) = tag e"
  "attrs (mark b e) = attrs e" "val (mark b e) = val e" "on (mark b e) = on e"
  "dflt (mark b e) = dflt e" "dflt_on (mark b e) = dflt_on e"
  "has c (mark b e) \<longleftrightarrow> (if c = ''changed'' then \<not> b else has c e)"
  by (auto simp: mark_def)

lemma options_map:
  assumes "\<And>e. ref (f e) = ref e" "\<And>e. path (f e) = path e" "\<And>e. tag (f e) = tag e"
  shows "options (map f d) (f e) = map f (options d e)"
  by (simp add: options_def find_in_def filter_map comp_def inside_def assms)

text \<open>Whether a field differs depends on its own value, and for a select on its options.\<close>

lemma differs_map:
  assumes "shape_map f"
    and "tag e \<noteq> ''select'' \<Longrightarrow> \<not> is_radio e \<Longrightarrow> \<not> is_checkbox e \<Longrightarrow> val (f e) = val e"
    and "is_radio e \<or> is_checkbox e \<Longrightarrow> on (f e) = on e"
    and "\<And>x. tag e = ''select'' \<Longrightarrow> x \<in> set (options d e) \<Longrightarrow> val (f x) = val x \<and> on (f x) = on x"
  shows "differs (map f d) (f e) = differs d e"
  using assms(2-4) options_map [of f d e]
  by (auto simp: differs_def shape_mapD [OF assms(1)] split: option.split)

definition touched :: "elem \<Rightarrow> elem \<Rightarrow> bool" where
  "touched e x \<longleftrightarrow> (if is_radio e then in_group e x else ref x = ref e)"

lemma is_radio_input: "is_radio e \<Longrightarrow> tag e = ''input''"
  and is_checkbox_input: "is_checkbox e \<Longrightarrow> tag e = ''input''"
  and radio_no_checkbox: "is_radio e \<Longrightarrow> \<not> is_checkbox e"
  and checkbox_no_radio: "is_checkbox e \<Longrightarrow> \<not> is_radio e"
  by (auto simp: is_radio_def is_checkbox_def of_type_def)

lemma radio_mates:
  assumes "page_ok d" "e \<in> set d" "is_radio e" "x \<in> set d" "in_group e x"
  shows "is_radio x \<and> (attrs x ''original'' = None \<longleftrightarrow> attrs e ''original'' = None)
     \<and> (has ''tracked'' x \<longleftrightarrow> has ''tracked'' e)"
proof -
  from assms have ro: "radios_ok d" by (simp add: page_ok_def)
  then obtain n where n: "attrs e ''name'' = Some n" using assms(2,3) unfolding radios_ok_def by blast
  with assms(5) have "is_radio x" "attrs x ''name'' = Some n"
    by (simp_all add: in_group_def name_of_def)
  with ro n assms(2-4) show ?thesis unfolding radios_ok_def by metis
qed

lemma in_own_group: "page_ok d \<Longrightarrow> e \<in> set d \<Longrightarrow> is_radio e \<Longrightarrow> in_group e e"
  unfolding page_ok_def radios_ok_def in_group_def name_of_def by auto

text \<open>
  The central fact: the function marks the field it is called for (for a radio button, every
  button of its name) exactly when it differs, and changes nothing else.
\<close>

lemma update_marks:
  assumes ok: "page_ok d" and e: "getr d r = Some e"
  shows "updateChangeTrackingStatus r d
       = map (\<lambda>x. if touched e x then mark (\<not> differs d x) x else x) d"
proof -
  from e have mem: "e \<in> set d" "ref e = r" by (auto dest: getr_Some)
  have uniq: "x = e" if "x \<in> set d" "ref x = ref e" for x
    using ok mem(1) that unfolding page_ok_def wf_dom_def distinct_map by (metis inj_onD)
  have upd: "upd r (mark b) d = map (\<lambda>x. if touched e x then mark (\<not> differs d x) x else x) d"
    if "\<not> is_radio e" "b = (\<not> differs d e)" for b
    using that mem(2) uniq unfolding upd_def touched_def by (intro map_cong) auto
  have grp: "upd_where (in_group e) (\<lambda>x. mark (G x) x) d
      = map (\<lambda>x. if touched e x then mark (\<not> differs d x) x else x) d"
    if "is_radio e" "\<And>x. x \<in> set d \<Longrightarrow> in_group e x \<Longrightarrow> G x = (\<not> differs d x)" for G
    using that unfolding upd_where_def touched_def by (intro map_cong) auto
  show ?thesis
  proof (cases "is_radio e")
    case True
    note mates = radio_mates [OF ok mem(1) True]
    show ?thesis
    proof (cases "attrs e ''original''")
      case None
      then have "updateChangeTrackingStatus r d
          = upd_where (in_group e) (\<lambda>x. mark (dflt_on x = on x) x) d"
        using True e is_radio_input [OF True] by (simp add: updateChangeTrackingStatus_def)
      also have "\<dots> = map (\<lambda>x. if touched e x then mark (\<not> differs d x) x else x) d"
      proof (rule grp [OF True])
        fix x assume x: "x \<in> set d" "in_group e x"
        show "(dflt_on x = on x) = (\<not> differs d x)"
          using mates [OF x] is_radio_input [of x] None by (auto simp: differs_def)
      qed
      finally show ?thesis .
    next
      case (Some orig)
      then have "updateChangeTrackingStatus r d = upd_where (in_group e)
               (\<lambda>x. mark ((on x \<and> attrs x ''original'' = Some ''checked'')
                        \<or> (\<not> on x \<and> attrs x ''original'' = Some [])) x) d"
        using True e is_radio_input [OF True] by (simp add: updateChangeTrackingStatus_def)
      also have "\<dots> = map (\<lambda>x. if touched e x then mark (\<not> differs d x) x else x) d"
      proof (rule grp [OF True])
        fix x assume x: "x \<in> set d" "in_group e x"
        then obtain orig' where "attrs x ''original'' = Some orig'" using mates Some by auto
        then show "(on x \<and> attrs x ''original'' = Some ''checked'' \<or>
            \<not> on x \<and> attrs x ''original'' = Some []) = (\<not> differs d x)"
          using mates [OF x] is_radio_input [of x] by (auto simp: differs_def)
      qed
      finally show ?thesis .
    qed
  next
    case False
    have "\<exists>b. updateChangeTrackingStatus r d = upd r (mark b) d \<and> b = (\<not> differs d e)"
      using False e
      by (cases "attrs e ''original''")
        (auto simp: updateChangeTrackingStatus_def differs_def options_as_listed_iff
          options_default_iff)
    then show ?thesis using upd [OF False] by auto
  qed
qed

lemma update_none: "getr d r = None \<Longrightarrow> updateChangeTrackingStatus r d = d"
  by (simp add: updateChangeTrackingStatus_def)

lemma update_shape: "page_ok d \<Longrightarrow> \<exists>f. shape_map f \<and> updateChangeTrackingStatus r d = map f d"
proof (cases "getr d r")
  case None
  then show ?thesis
    by (intro exI [of _ id]) (simp add: update_none shape_map_def same_shape_def)
next
  case (Some e)
  assume "page_ok d"
  then show ?thesis using update_marks [OF _ Some] shape_if [OF shape_edits(3)] by metis
qed

lemma page_ok_update [simp]: "page_ok d \<Longrightarrow> page_ok (updateChangeTrackingStatus r d)"
  using update_shape [of d r] page_ok_map by auto

text \<open>After a change of one field and its handler, every tracked field is marked correctly.\<close>

lemma differs_update:
  assumes "page_ok d" "getr d r = Some e" "x \<in> set d"
  shows "differs (updateChangeTrackingStatus r d) (if touched e x then mark (\<not> differs d x) x else x)
       = differs d x"
  unfolding update_marks [OF assms(1,2)]
  by (rule differs_map [of "\<lambda>x. if touched e x then mark (\<not> differs d x) x else x"])
    (auto intro: shape_if)

lemma tracking_ok_update:
  assumes "page_ok d" "getr d r = Some e"
    and "\<And>x. x \<in> set d \<Longrightarrow> has ''tracked'' x \<Longrightarrow> \<not> touched e x \<Longrightarrow> has ''changed'' x = differs d x"
  shows "tracking_ok (updateChangeTrackingStatus r d)"
  unfolding tracking_ok_def
proof (intro ballI impI)
  fix y assume "y \<in> set (updateChangeTrackingStatus r d)" "has ''tracked'' y"
  then obtain x where x: "x \<in> set d" "y = (if touched e x then mark (\<not> differs d x) x else x)"
    by (auto simp: update_marks [OF assms(1,2)])
  with \<open>has ''tracked'' y\<close> have "has ''tracked'' x" by (auto split: if_splits)
  then show "has ''changed'' y = differs (updateChangeTrackingStatus r d) y"
    using assms(3) [OF x(1)] differs_update [OF assms(1,2) x(1)] unfolding x(2)
    by (auto split: if_splits)
qed

section \<open>Marking every tracked field\<close>

text \<open>A map that changes nothing but the mark.\<close>

definition marks :: "(elem \<Rightarrow> elem) \<Rightarrow> bool" where
  "marks f \<longleftrightarrow> (\<forall>e. rm_class ''changed'' (f e) = rm_class ''changed'' e)"

lemma marks_mark [simp]: "marks (\<lambda>e. mark (b e) e)" "marks id" "marks (\<lambda>e. e)"
  by (auto simp: marks_def mark_def rm_class_def add_class_def has_def intro!: elem.equality)

lemma marks_if: "marks f \<Longrightarrow> marks (\<lambda>e. if P e then f e else e)"
  by (simp add: marks_def)

lemma marks_comp: "marks f \<Longrightarrow> marks g \<Longrightarrow> marks (\<lambda>e. f (g e))"
  by (simp add: marks_def)

lemma marksD:
  assumes "marks f"
  shows "val (f e) = val e" "on (f e) = on e" "off (f e) = off e" "tag (f e) = tag e"
    "ref (f e) = ref e" "path (f e) = path e" "attrs (f e) = attrs e" "dflt (f e) = dflt e"
    "dflt_on (f e) = dflt_on e" "c \<noteq> ''changed'' \<Longrightarrow> has c (f e) \<longleftrightarrow> has c e" "shape_map f"
proof -
  have eq: "rm_class ''changed'' (f e) = rm_class ''changed'' e" for e
    using assms by (simp add: marks_def)
  note c = arg_cong [OF eq, of val] arg_cong [OF eq, of on] arg_cong [OF eq, of off]
    arg_cong [OF eq, of tag] arg_cong [OF eq, of ref] arg_cong [OF eq, of path]
    arg_cong [OF eq, of attrs] arg_cong [OF eq, of dflt] arg_cong [OF eq, of dflt_on]
  have h: "c \<noteq> ''changed'' \<Longrightarrow> has c (f e) \<longleftrightarrow> has c e" for c e
    using arg_cong [OF eq, of "has c"] by simp
  show "val (f e) = val e" "on (f e) = on e" "off (f e) = off e" "tag (f e) = tag e"
    "ref (f e) = ref e" "path (f e) = path e" "attrs (f e) = attrs e" "dflt (f e) = dflt e"
    "dflt_on (f e) = dflt_on e" "c \<noteq> ''changed'' \<Longrightarrow> has c (f e) \<longleftrightarrow> has c e" "shape_map f"
    using c h by (simp_all add: shape_map_def same_shape_def)
qed

lemma update_is_marks:
  "page_ok d \<Longrightarrow> \<exists>f. marks f \<and> updateChangeTrackingStatus r d = map f d
     \<and> (\<forall>x \<in> set d. ref x = r \<or> (has ''changed'' x \<longleftrightarrow> differs d x) \<longrightarrow>
          (has ''changed'' (f x) \<longleftrightarrow> differs d x))"
proof (cases "getr d r")
  case None
  then show ?thesis by (intro exI [of _ id]) (auto simp: update_none getr_None)
next
  case (Some e)
  assume ok: "page_ok d"
  let ?f = "\<lambda>x. if touched e x then mark (\<not> differs d x) x else x"
  from Some have mem: "e \<in> set d" "ref e = r" by (auto dest: getr_Some)
  have "x = e" if "x \<in> set d" "ref x = r" for x
    using ok mem that unfolding page_ok_def wf_dom_def distinct_map by (metis inj_onD)
  then have "touched e x" if "x \<in> set d" "ref x = r" for x
    using that in_own_group [OF ok mem(1)] mem(2) by (auto simp: touched_def)
  then show ?thesis using update_marks [OF ok Some]
    by (intro exI [of _ ?f]) (auto intro: marks_if)
qed

lemma differs_marks: "marks f \<Longrightarrow> differs (map f d) (f e) = differs d e"
  by (intro differs_map) (auto simp: marksD)

lemma update_all:
  "page_ok d \<Longrightarrow> \<exists>f. marks f \<and> fold updateChangeTrackingStatus rs d = map f d
     \<and> (\<forall>x \<in> set d. ref x \<in> set rs \<or> (has ''changed'' x \<longleftrightarrow> differs d x) \<longrightarrow>
          (has ''changed'' (f x) \<longleftrightarrow> differs d x))"
proof (induction rs arbitrary: d)
  case Nil
  then show ?case by (intro exI [of _ id]) auto
next
  case (Cons r rs)
  obtain g where g: "marks g" "updateChangeTrackingStatus r d = map g d"
    and gc: "\<forall>x \<in> set d. ref x = r \<or> (has ''changed'' x \<longleftrightarrow> differs d x) \<longrightarrow>
          (has ''changed'' (g x) \<longleftrightarrow> differs d x)"
    using update_is_marks [OF Cons.prems] by blast
  have "page_ok (map g d)" using Cons.prems by (metis g(2) page_ok_update)
  then obtain f where f: "marks f" "fold updateChangeTrackingStatus rs (map g d) = map f (map g d)"
    and fc: "\<forall>x \<in> set (map g d). ref x \<in> set rs \<or> (has ''changed'' x \<longleftrightarrow> differs (map g d) x) \<longrightarrow>
          (has ''changed'' (f x) \<longleftrightarrow> differs (map g d) x)"
    using Cons.IH [of "map g d"] by blast
  have "has ''changed'' (f (g x)) \<longleftrightarrow> differs d x"
    if "x \<in> set d" "ref x \<in> set (r # rs) \<or> (has ''changed'' x \<longleftrightarrow> differs d x)" for x
    using gc fc that by (auto simp: differs_marks [OF g(1)] marksD(5) [OF g(1)])
  then show ?case using f g
    by (intro exI [of _ "\<lambda>e. f (g e)"]) (auto intro: marks_comp)
qed

lemma tracking_ok_all:
  assumes "page_ok d"
    and "\<forall>x \<in> set d. has ''tracked'' x \<longrightarrow> ref x \<in> set rs \<or> (has ''changed'' x \<longleftrightarrow> differs d x)"
  shows "tracking_ok (fold updateChangeTrackingStatus rs d)"
proof -
  obtain f where f: "marks f" "fold updateChangeTrackingStatus rs d = map f d"
    and fc: "\<forall>x \<in> set d. ref x \<in> set rs \<or> (has ''changed'' x \<longleftrightarrow> differs d x) \<longrightarrow>
          (has ''changed'' (f x) \<longleftrightarrow> differs d x)"
    using update_all [OF assms(1)] by blast
  show ?thesis unfolding tracking_ok_def f(2)
    using assms(2) fc by (auto simp: marksD(10) [OF f(1)] differs_marks [OF f(1)])
qed

lemma tracking_ok_ready: "page_ok d \<Longrightarrow> tracking_ok (tracking_ready d)"
  unfolding tracking_ready_def by (rule tracking_ok_all) auto

lemma page_ok_ready: "page_ok d \<Longrightarrow> page_ok (tracking_ready d)"
  unfolding tracking_ready_def
  by (metis update_all page_ok_map marksD(11))

section \<open>The user's edits\<close>

text \<open>
  One edit of the field \<open>r\<close>: typing, ticking a box, choosing options, pressing a radio button
  (which releases the other buttons of its name in the same form, here any set \<open>G\<close> of them).
\<close>

inductive edit :: "nat \<Rightarrow> dom \<Rightarrow> dom \<Rightarrow> bool" where
  type_text: "getr d r = Some e \<Longrightarrow> tag e \<in> {''input'', ''textarea''} \<Longrightarrow> \<not> is_radio e \<Longrightarrow> \<not> is_checkbox e
     \<Longrightarrow> edit r d (upd r (\<lambda>x. x\<lparr>val := v\<rparr>) d)"
| tick: "getr d r = Some e \<Longrightarrow> is_checkbox e \<Longrightarrow> edit r d (upd r (\<lambda>x. x\<lparr>on := \<not> on x\<rparr>) d)"
| pick: "getr d r = Some e \<Longrightarrow> tag e = ''select'' \<Longrightarrow>
     edit r d (upd_where (\<lambda>x. inside r x \<and> tag x = ''option'') (\<lambda>x. x\<lparr>on := ref x \<in> S\<rparr>) d)"
| press: "getr d r = Some e \<Longrightarrow> is_radio e \<Longrightarrow>
     edit r d (upd_where (\<lambda>x. in_group e x \<and> ref x \<in> insert r G) (\<lambda>x. x\<lparr>on := ref x = r\<rparr>) d)"

text \<open>
  The handler of \<open>change\<close>, \<open>keyup\<close> and \<open>input\<close> is bound to \<open>.tracked\<close>.
\<close>

definition tracked_event :: "nat \<Rightarrow> dom \<Rightarrow> dom" where
  "tracked_event r d =
     (case getr d r of
        Some e \<Rightarrow> if has ''tracked'' e then updateChangeTrackingStatus r d else d
      | None \<Rightarrow> d)"

inductive session :: "dom \<Rightarrow> dom \<Rightarrow> bool" for d0 where
  load: "session d0 (tracking_ready d0)"
| use: "session d0 d \<Longrightarrow> edit r d d' \<Longrightarrow> session d0 (tracked_event r d')"

inductive_cases editE: "edit r d d'"

text \<open>
  What an edit of \<open>r\<close> leaves alone: the shape of the page, and whether any other tracked field
  differs (for a radio button, any field outside its group).
\<close>

definition edits_only :: "dom \<Rightarrow> elem \<Rightarrow> (elem \<Rightarrow> elem) \<Rightarrow> bool" where
  "edits_only d e f \<longleftrightarrow> shape_map f \<and> (\<forall>x. has ''changed'' (f x) = has ''changed'' x)
     \<and> (\<forall>x \<in> set d. \<not> touched e x \<longrightarrow> differs (map f d) (f x) = differs d x)"

lemma edits_onlyI:
  assumes "shape_map f" "\<And>x. has ''changed'' (f x) = has ''changed'' x"
    and "\<And>x. x \<in> set d \<Longrightarrow> \<not> touched e x \<Longrightarrow> tag x \<noteq> ''select'' \<Longrightarrow> \<not> is_radio x \<Longrightarrow> \<not> is_checkbox x
           \<Longrightarrow> val (f x) = val x"
    and "\<And>x. x \<in> set d \<Longrightarrow> \<not> touched e x \<Longrightarrow> is_radio x \<or> is_checkbox x \<Longrightarrow> on (f x) = on x"
    and "\<And>x y. x \<in> set d \<Longrightarrow> \<not> touched e x \<Longrightarrow> tag x = ''select'' \<Longrightarrow> y \<in> set d \<Longrightarrow> inside (ref x) y
           \<Longrightarrow> tag y = ''option'' \<Longrightarrow> val (f y) = val y \<and> on (f y) = on y"
  shows "edits_only d e f"
proof -
  have "differs (map f d) (f x) = differs d x" if x: "x \<in> set d" "\<not> touched e x" for x
  proof (rule differs_map [OF assms(1)], goal_cases)
    case (3 y)
    then show ?case using assms(5) [OF x, of y] by (simp add: options_def find_in_def)
  qed (use assms(3,4) x in auto)
  then show ?thesis using assms(1,2) by (simp add: edits_only_def)
qed

lemma edit_frame:
  assumes "edit r d d'" "page_ok d"
  shows "\<exists>e f. getr d r = Some e \<and> d' = map f d \<and> edits_only d e f"
  using assms(1)
proof cases
  case (type_text e v)
  then have e: "ref e = r" "e \<in> set d" by (auto dest: getr_Some)
  have u: "tag y \<noteq> ''option''" if "y \<in> set d" "ref y = r" for y
  proof -
    have "y = e"
      using that e assms(2) unfolding page_ok_def wf_dom_def distinct_map by (metis inj_onD)
    then show ?thesis using type_text(3) by auto
  qed
  have "edits_only d e (\<lambda>x. if ref x = r then x\<lparr>val := v\<rparr> else x)"
    using e type_text(3,4,5) u
    by (intro edits_onlyI shape_if shape_edits) (auto simp: touched_def)
  then show ?thesis using type_text(1,2) unfolding upd_def by blast
next
  case (tick e)
  then have e: "ref e = r" "e \<in> set d" by (auto dest: getr_Some)
  have u: "tag y \<noteq> ''option''" if "y \<in> set d" "ref y = r" for y
  proof -
    have "y = e"
      using that e assms(2) unfolding page_ok_def wf_dom_def distinct_map by (metis inj_onD)
    then show ?thesis using is_checkbox_input [OF tick(3)] by auto
  qed
  have "edits_only d e (\<lambda>x. if ref x = r then x\<lparr>on := \<not> on x\<rparr> else x)"
    using e tick(3) checkbox_no_radio [OF tick(3)] u
    by (intro edits_onlyI shape_if shape_edits) (auto simp: touched_def)
  then show ?thesis using tick(1,2) unfolding upd_def by blast
next
  case (pick e S)
  then have e: "ref e = r" "e \<in> set d" by (auto dest: getr_Some)
  have nr: "\<not> is_radio e" using pick(3) by (auto simp: is_radio_def)
  have sel: "\<not> inside r y"
    if "x \<in> set d" "tag x = ''select''" "ref x \<noteq> r" "y \<in> set d" "inside (ref x) y" for x y
    using that e pick(3) assms(2) unfolding page_ok_def selects_ok_def by blast
  have "edits_only d e (\<lambda>x. if inside r x \<and> tag x = ''option'' then x\<lparr>on := ref x \<in> S\<rparr> else x)"
    using e nr sel
    by (intro edits_onlyI shape_if shape_edits) (auto simp: touched_def dest: is_radio_input
      is_checkbox_input)
  then show ?thesis using pick(1,2) unfolding upd_where_def by blast
next
  case (press e G)
  then have e: "ref e = r" "e \<in> set d" by (auto dest: getr_Some)
  have "edits_only d e
      (\<lambda>x. if in_group e x \<and> ref x \<in> insert r G then x\<lparr>on := ref x = r\<rparr> else x)"
    using e press(3)
    by (intro edits_onlyI shape_if shape_edits) (auto simp: touched_def in_group_def is_radio_def)
  then show ?thesis using press(1,2) unfolding upd_where_def by blast
qed

lemma touched_same_tracked:
  "page_ok d \<Longrightarrow> e \<in> set d \<Longrightarrow> x \<in> set d \<Longrightarrow> touched e x \<Longrightarrow> has ''tracked'' x = has ''tracked'' e"
  using radio_mates [of d e x] unfolding touched_def page_ok_def wf_dom_def distinct_map
  by (metis inj_onD)

lemma touched_shape: "shape_map f \<Longrightarrow> touched (f e) (f x) \<longleftrightarrow> touched e x"
  by (simp add: touched_def in_group_def shape_mapD)

lemma tracked_event_ok:
  assumes "page_ok d" "tracking_ok d" "edit r d d'"
  shows "page_ok (tracked_event r d') \<and> tracking_ok (tracked_event r d')"
proof -
  obtain e f where e: "getr d r = Some e" and d': "d' = map f d" and eo: "edits_only d e f"
    using edit_frame [OF assms(3,1)] by blast
  then have f: "shape_map f" and ch: "\<forall>x. has ''changed'' (f x) = has ''changed'' x"
    and df: "\<forall>x \<in> set d. \<not> touched e x \<longrightarrow> differs d' (f x) = differs d x"
    by (auto simp: edits_only_def)
  have mem: "e \<in> set d" using e by (auto dest: getr_Some)
  have e': "getr d' r = Some (f e)" using e by (simp add: d' getr_map [OF shape_keeps [OF f]])
  have ok: "page_ok d'" using assms(1) by (simp add: d' page_ok_map [OF f])
  have rest: "has ''changed'' x = differs d' x"
    if "x \<in> set d'" "has ''tracked'' x" "\<not> touched (f e) x" for x
    using that assms(2) ch df by (auto simp: d' touched_shape [OF f] shape_mapD [OF f] tracking_ok_def)
  show ?thesis
  proof (cases "has ''tracked'' e")
    case True
    then have "tracked_event r d' = updateChangeTrackingStatus r d'"
      by (simp add: tracked_event_def e' shape_mapD [OF f])
    then show ?thesis using ok tracking_ok_update [OF ok e' rest] by simp
  next
    case False
    then have "tracked_event r d' = d'" by (simp add: tracked_event_def e' shape_mapD [OF f])
    moreover have "tracking_ok d'"
      unfolding tracking_ok_def
    proof (intro ballI impI)
      fix x assume x: "x \<in> set d'" "has ''tracked'' x"
      then obtain y where y: "x = f y" "y \<in> set d" by (auto simp: d')
      have "\<not> touched e y"
        using touched_same_tracked [OF assms(1) mem y(2)] False x y by (auto simp: shape_mapD [OF f])
      then show "has ''changed'' x = differs d' x"
        using rest [OF x] y by (simp add: touched_shape [OF f])
    qed
    ultimately show ?thesis using ok by simp
  qed
qed

lemma session_ok:
  assumes "page_ok d0" "session d0 d"
  shows "page_ok d \<and> tracking_ok d"
  using assms(2)
  by (induction rule: session.induct)
    (auto simp: assms(1) page_ok_ready tracking_ok_ready dest: tracked_event_ok)

text \<open>
  C2: At every moment of a session, whatever the user types, ticks, chooses or presses after the
  page has loaded, a tracked field carries the class \<open>changed\<close> exactly when its state differs
  from the one the page was built with.
\<close>

theorem tracked_session_correct:
  assumes "page_ok d0" "session d0 d"
  shows "tracking_ok d"
  using session_ok [OF assms] by simp

section \<open>What a submission sends\<close>

lemma set_changed_names: "set (changed_names d) = name_of ` set (changed_fields d)"
  by (simp add: changed_names_def set_fold_push_new)

lemma distinct_changed_names: "distinct (changed_names d)"
  by (simp add: changed_names_def distinct_fold_push_new)

lemma set_changed_ids:
  "set (changed_ids d) = (\<lambda>e. last (split_on (CHR ''_'') (name_of e))) ` set (changed_fields d)"
  by (simp add: changed_ids_def set_fold_push_new)

lemma distinct_changed_ids: "distinct (changed_ids d)"
  by (simp add: changed_ids_def distinct_fold_push_new)

lemma changed_names_cong: "changed_fields d = changed_fields d' \<Longrightarrow> changed_names d = changed_names d'"
  and changed_ids_cong: "changed_fields d = changed_fields d' \<Longrightarrow> changed_ids d = changed_ids d'"
  by (simp_all add: changed_names_def changed_ids_def)

text \<open>An input element has no children, and the hidden fields are not tracked themselves.\<close>

definition inputs_ok :: "dom \<Rightarrow> bool" where
  "inputs_ok d \<longleftrightarrow> (\<forall>e \<in> set d. tag e = ''input'' \<longrightarrow>
     (\<forall>x \<in> set d. \<not> inside (ref e) x) \<and> \<not> (has ''changedElements'' e \<and> has ''tracked'' e))"

definition is_change_list :: "elem \<Rightarrow> bool" where
  "is_change_list e \<longleftrightarrow> tag e = ''input'' \<and> has ''changedElements'' e"

lemma detach_all_filter:
  "detach_all es d = filter (\<lambda>e. ref e \<notin> ref ` set es \<and> (\<forall>x \<in> set es. \<not> inside (ref x) e)) d"
  unfolding detach_all_def
  by (induction es arbitrary: d) (auto simp: detach_def inside_def intro!: filter_cong)

lemma change_lists_removed:
  assumes "inputs_ok d" "distinct (map ref d)"
  shows "changed_fields (detach_all (filter is_change_list d) d) = changed_fields d"
    "\<forall>e \<in> set (detach_all (filter is_change_list d) d). \<not> is_change_list e"
proof -
  have same: "x = e" if "e \<in> set d" "x \<in> set d" "ref x = ref e" for e x
    using assms(2) that unfolding distinct_map by (metis inj_onD)
  have keep: "ref e \<notin> ref ` set (filter is_change_list d)
      \<and> (\<forall>x \<in> set (filter is_change_list d). \<not> inside (ref x) e)"
    if "e \<in> set d" "has ''tracked'' e" for e
  proof (intro conjI notI ballI)
    assume "ref e \<in> ref ` set (filter is_change_list d)"
    then obtain x where x: "x \<in> set d" "is_change_list x" "ref x = ref e" by auto
    have "x = e" by (rule same [OF that(1) x(1,3)])
    with x(2) that assms(1) show False by (simp add: inputs_ok_def is_change_list_def)
  next
    fix x assume "x \<in> set (filter is_change_list d)" "inside (ref x) e"
    with that assms(1) show False by (simp add: inputs_ok_def is_change_list_def)
  qed
  show "changed_fields (detach_all (filter is_change_list d) d) = changed_fields d"
    unfolding changed_fields_def detach_all_filter filter_filter
    by (rule filter_cong) (use keep in auto)
  show "\<forall>e \<in> set (detach_all (filter is_change_list d) d). \<not> is_change_list e"
    by (auto simp: set_detach_all)
qed

definition hidden_at :: "nat \<Rightarrow> nat list \<Rightarrow> string \<Rightarrow> string \<Rightarrow> elem" where
  "hidden_at n p nm v = (new_el ''input'' [(''type'', ''hidden''), (''name'', nm), (''value'', v)]
     [''changedElements''])\<lparr>ref := n, path := p\<rparr>"

lemma hidden_at_simps [simp]:
  "is_change_list (hidden_at n p nm v)" "name_of (hidden_at n p nm v) = nm"
  "val (hidden_at n p nm v) = v" "path (hidden_at n p nm v) = p"
  "\<not> has ''tracked'' (hidden_at n p nm v)" "ref (hidden_at n p nm v) = n"
  by (simp_all add: hidden_at_def is_change_list_def name_of_def new_el_def has_def)

lemma append_hidden:
  "getr d r = Some f \<Longrightarrow> set (append_to r [hidden_input nm v [''changedElements'']] d)
     = insert (hidden_at (fresh_ref d) (r # path f) nm v) (set d)"
  by (auto simp: set_append_to hidden_input_def hidden_at_def)

lemma getr_append_same:
  assumes "wf_dom d" "getr d r = Some f"
  shows "getr (append_to r hs d) r = Some f"
proof -
  have "f \<in> set (append_to r hs d)" "ref f = r"
    using assms(2) by (auto simp: set_append_to dest: getr_Some)
  then show ?thesis using wf_insert(1) [OF assms(1), of r hs] getr_mem [of "append_to r hs d" f]
    by (simp add: wf_dom_def)
qed

lemma preSubmit_sends:
  assumes wf: "wf_dom d" and inp: "inputs_ok d" and run: "preSubmitTrackedElements btn d = (d', None)"
  shows "\<exists>x y. {e \<in> set d'. is_change_list e} = {x, y} \<and> name_of x = ''CHANGED_ELEMENTS''
     \<and> name_of y = ''CHANGED_ELEMENTS_IDS'' \<and> val x = join_with '','' (changed_names d)
     \<and> val y = join_with '','' (changed_ids d)
     \<and> (\<exists>f \<in> set d'. tag f = ''form'' \<and> inside (ref f) x \<and> inside (ref f) y)"
proof -
  let ?d1 = "detach_all (filter is_change_list d) d"
  have dist: "distinct (map ref d)" using wf by (simp add: wf_dom_def)
  note rem = change_lists_removed [OF inp dist]
  have wf1: "wf_dom ?d1" using wf by simp
  from run obtain f where f: "Option.bind (getr ?d1 btn) (closest ?d1 (\<lambda>e. tag e = ''form'')) = Some f"
    and d': "d' = append_to (ref f) [hidden_input ''CHANGED_ELEMENTS_IDS''
         (join_with '','' (changed_ids ?d1)) [''changedElements'']]
       (append_to (ref f) [hidden_input ''CHANGED_ELEMENTS''
         (join_with '','' (changed_names ?d1)) [''changedElements'']] ?d1)"
    by (auto simp: preSubmitTrackedElements_def Let_def is_change_list_def [abs_def]
        split: option.splits)
  then obtain b where b: "closest ?d1 (\<lambda>e. tag e = ''form'') b = Some f" "b \<in> set ?d1"
    by (auto simp: bind_eq_Some_conv dest: getr_Some)
  have ff: "f \<in> set ?d1" "tag f = ''form''"
    using closest_Some(1) [OF b(1)] closest_Some(2) [OF b(1)] b(2) by auto
  then have g1: "getr ?d1 (ref f) = Some f" using wf1 by (intro getr_mem) (simp_all add: wf_dom_def)
  let ?d2 = "append_to (ref f) [hidden_input ''CHANGED_ELEMENTS''
         (join_with '','' (changed_names ?d1)) [''changedElements'']] ?d1"
  have g2: "getr ?d2 (ref f) = Some f" by (rule getr_append_same [OF wf1 g1])
  let ?x = "hidden_at (fresh_ref ?d1) (ref f # path f) ''CHANGED_ELEMENTS''
      (join_with '','' (changed_names ?d1))"
  let ?y = "hidden_at (fresh_ref ?d2) (ref f # path f) ''CHANGED_ELEMENTS_IDS''
      (join_with '','' (changed_ids ?d1))"
  have set': "set d' = insert ?y (insert ?x (set ?d1))"
    by (simp only: d' append_hidden [OF g2] append_hidden [OF g1])
  have cl: "is_change_list ?x" "is_change_list ?y" by (rule hidden_at_simps(1))+
  have "{e \<in> set d'. is_change_list e} = {?x, ?y}"
    unfolding set' using rem(2) cl by blast
  moreover have "f \<in> set d'" using ff(1) unfolding set' by blast
  moreover have "inside (ref f) ?x" "inside (ref f) ?y" by (simp_all add: inside_def)
  moreover have "val ?x = join_with '','' (changed_names d)"
    "val ?y = join_with '','' (changed_ids d)"
    by (simp_all only: hidden_at_simps changed_names_cong [OF rem(1)] changed_ids_cong [OF rem(1)])
  ultimately show ?thesis
    using ff(2) hidden_at_simps(2) by blast
qed

lemma split_on_chars: "x \<in> set (split_on c s) \<Longrightarrow> set x \<subseteq> set s"
  by (induction s arbitrary: x) (fastforce split: if_splits list.splits)+

lemma changed_names_nil: "changed_fields d = [] \<Longrightarrow> changed_names d = [] \<and> changed_ids d = []"
  by (simp add: changed_names_def changed_ids_def)

text \<open>
  C13: Submitting a form leaves exactly two lists of changes in the page, inside the form, whatever
  lists earlier attempts left.  Splitting them at the commas gives, without repetition, the names of
  the fields marked as changed, and the identifiers that end these names.
\<close>

theorem submission_lists_changes:
  assumes "wf_dom d" "inputs_ok d" "preSubmitTrackedElements btn d = (d', None)"
    and "\<forall>e \<in> set d. CHR '','' \<notin> set (name_of e)" "changed_fields d \<noteq> []"
  shows "\<exists>x y. {e \<in> set d'. is_change_list e} = {x, y}
     \<and> name_of x = ''CHANGED_ELEMENTS'' \<and> name_of y = ''CHANGED_ELEMENTS_IDS''
     \<and> (\<exists>f \<in> set d'. tag f = ''form'' \<and> inside (ref f) x \<and> inside (ref f) y)
     \<and> distinct (split_on (CHR '','') (val x)) \<and> distinct (split_on (CHR '','') (val y))
     \<and> set (split_on (CHR '','') (val x)) = name_of ` set (changed_fields d)
     \<and> set (split_on (CHR '','') (val y))
         = (\<lambda>e. last (split_on (CHR ''_'') (name_of e))) ` set (changed_fields d)"
proof -
  obtain x y where xy: "{e \<in> set d'. is_change_list e} = {x, y}" "name_of x = ''CHANGED_ELEMENTS''"
     "name_of y = ''CHANGED_ELEMENTS_IDS''" "val x = join_with '','' (changed_names d)"
     "val y = join_with '','' (changed_ids d)"
     "\<exists>f \<in> set d'. tag f = ''form'' \<and> inside (ref f) x \<and> inside (ref f) y"
    using preSubmit_sends [OF assms(1-3)] by blast
  have ne: "changed_names d \<noteq> []" "changed_ids d \<noteq> []"
    using assms(5) set_changed_names [of d] set_changed_ids [of d] by fastforce+
  have nm: "\<forall>n \<in> set (changed_names d). CHR '','' \<notin> set n"
    using assms(4) by (auto simp: set_changed_names changed_fields_def)
  have ids: "\<forall>n \<in> set (changed_ids d). CHR '','' \<notin> set n"
  proof
    fix n assume "n \<in> set (changed_ids d)"
    then obtain e where "e \<in> set d" "n = last (split_on (CHR ''_'') (name_of e))"
      by (auto simp: set_changed_ids changed_fields_def)
    then show "CHR '','' \<notin> set n"
      using assms(4) split_on_chars [of n "CHR ''_''" "name_of e"]
      by (metis last_in_set split_on_nonempty subsetD)
  qed
  show ?thesis
    using xy(1-3,6)
    by (intro exI [of _ x] exI [of _ y])
      (simp add: xy(4,5) split_join [OF ne(1) nm] split_join [OF ne(2) ids] distinct_changed_names
        distinct_changed_ids set_changed_names set_changed_ids)
qed


section \<open>A page the theorems apply to\<close>

definition demo_form :: dom where
  "demo_form = [(new_el ''form'' [] [])\<lparr>ref := 1\<rparr>,
     (new_el ''input'' [(''name'', ''DEV_NAME_7''), (''type'', ''text''), (''value'', ''a'')] [''tracked''])
       \<lparr>ref := 2, path := [1]\<rparr>,
     (new_el ''button'' [] [])\<lparr>ref := 3, path := [1]\<rparr>]"

lemmas demo_simps = demo_form_def new_el_def is_radio_def is_checkbox_def of_type_def inside_def
  has_def in_group_def name_of_def getr_def suffix_Cons

lemma demo_page_ok: "page_ok demo_form"
proof -
  have "radios_ok demo_form" by (simp add: radios_ok_def demo_simps)
  moreover have "selects_ok demo_form" by (simp add: selects_ok_def demo_simps)
  moreover have "wf_dom demo_form" by (simp add: wf_dom_def demo_simps)
  ultimately show ?thesis by (simp add: page_ok_def)
qed

definition demo_typed :: dom where
  "demo_typed = tracked_event 2 (upd 2 (\<lambda>x. x\<lparr>val := ''b''\<rparr>) (tracking_ready demo_form))"

lemma demo_ready: "tracking_ready demo_form = demo_form"
  by (simp add: tracking_ready_def updateChangeTrackingStatus_def mark_def rm_class_def upd_def
      demo_simps)

lemma demo_session: "session demo_form demo_typed"
  unfolding demo_typed_def
proof (rule session.use [OF session.load])
  have "getr (tracking_ready demo_form) 2 = Some (demo_form ! 1)"
    unfolding demo_ready by (simp add: getr_def demo_form_def new_el_def)
  then show "edit 2 (tracking_ready demo_form) (upd 2 (\<lambda>x. x\<lparr>val := ''b''\<rparr>) (tracking_ready demo_form))"
    by (rule edit.type_text) (simp_all add: demo_simps)
qed

lemma demo_typed_is: "demo_typed = [demo_form ! 0, (demo_form ! 1)\<lparr>val := ''b'', cls := [''tracked'', ''changed'']\<rparr>,
     demo_form ! 2]"
  unfolding demo_typed_def demo_ready
  by (simp add: tracked_event_def updateChangeTrackingStatus_def mark_def add_class_def upd_def
      demo_simps)

theorem tracked_session_correct_witness:
  "page_ok demo_form \<and> session demo_form demo_typed \<and> tracking_ok demo_typed
     \<and> has ''changed'' (demo_typed ! 1)"
proof -
  have "has ''changed'' (demo_typed ! 1)" by (simp add: demo_typed_is has_def)
  then show ?thesis
    using demo_page_ok demo_session tracked_session_correct [OF demo_page_ok demo_session] by simp
qed

lemma demo_changed: "changed_fields demo_typed = [demo_typed ! 1]"
  by (simp add: changed_fields_def demo_typed_is) (simp add: demo_simps)

theorem submission_lists_changes_witness:
  "\<exists>d' x y. preSubmitTrackedElements 3 demo_typed = (d', None)
     \<and> {e \<in> set d'. is_change_list e} = {x, y}
     \<and> set (split_on (CHR '','') (val x)) = {''DEV_NAME_7''}"
proof -
  have wf: "wf_dom demo_typed"
    by (simp add: wf_dom_def demo_typed_is) (simp add: demo_simps)
  have i: "inputs_ok demo_typed"
    by (simp add: inputs_ok_def demo_typed_is) (simp add: demo_simps)
  have c: "\<forall>e \<in> set demo_typed. CHR '','' \<notin> set (name_of e)"
    by (simp add: demo_typed_is) (simp add: demo_simps)
  have "snd (preSubmitTrackedElements 3 demo_typed) = None" by code_simp
  then obtain d' where r: "preSubmitTrackedElements 3 demo_typed = (d', None)"
    by (metis prod.collapse)
  have "map name_of (changed_fields demo_typed) = [''DEV_NAME_7'']" by code_simp
  then have n: "name_of ` set (changed_fields demo_typed) = {''DEV_NAME_7''}"
    by (metis list.set(1) list.simps(15) set_map)
  show ?thesis
    using submission_lists_changes [OF wf i r c] r n demo_changed by auto
qed

end
