(* ===== verification/FormReset.thy ===== *)
theory FormReset
  imports FormTracking
begin

text \<open>
  \<open>resetForm\<close> of \<open>form-tracking.js\<close>: what a form looks like after the user has confirmed its
  reset.
\<close>

section \<open>The steps of a reset keep the page in order\<close>

lemma page_ok_filter:
  assumes "page_ok d" "wf_dom (filter P d)"
  shows "page_ok (filter P d)"
proof -
  have r: "radios_ok d" and s: "selects_ok d" using assms(1) by (simp_all add: page_ok_def)
  have "radios_ok (filter P d)"
    unfolding radios_ok_def
  proof (intro conjI ballI impI)
    fix x assume m: "x \<in> set (filter P d)" and c: "is_radio x"
    from m have "x \<in> set d" by simp
    from r [unfolded radios_ok_def, THEN conjunct1, rule_format, OF this c]
    show "attrs x ''name'' \<noteq> None" .
  next
    fix x y assume m: "x \<in> set (filter P d)" "y \<in> set (filter P d)"
      and c: "is_radio x \<and> is_radio y \<and> attrs y ''name'' = attrs x ''name''"
    from m have "x \<in> set d" "y \<in> set d" by simp_all
    note * = r [unfolded radios_ok_def, THEN conjunct2, THEN bspec, OF this(1), THEN bspec, OF this(2),
        THEN mp, OF c]
    show "(attrs y ''original'' = None) = (attrs x ''original'' = None)" by (rule * [THEN conjunct1])
    show "has ''tracked'' y = has ''tracked'' x" by (rule * [THEN conjunct2])
  qed
  moreover have "selects_ok (filter P d)"
    unfolding selects_ok_def
  proof (intro ballI impI)
    fix x s t
    assume m: "x \<in> set (filter P d)" "s \<in> set (filter P d)" "t \<in> set (filter P d)"
      and c: "tag s = ''select'' \<and> tag t = ''select'' \<and> inside (ref s) x \<and> inside (ref t) x"
    from m have "x \<in> set d" "s \<in> set d" "t \<in> set d" by simp_all
    from s [unfolded selects_ok_def, rule_format, OF this c] show "s = t" .
  qed
  ultimately show ?thesis using assms(2) by (simp add: page_ok_def)
qed

lemma page_ok_detach_all: "page_ok d \<Longrightarrow> page_ok (detach_all es d)"
proof -
  assume ok: "page_ok d"
  then have "wf_dom (detach_all es d)" by (intro wf_detach_all) (simp add: page_ok_def)
  then show ?thesis unfolding detach_all_filter by (rule page_ok_filter [OF ok])
qed

lemma page_ok_upd_where: "shape_map f \<Longrightarrow> page_ok (upd_where P f d) \<longleftrightarrow> page_ok d"
  unfolding upd_where_def by (intro page_ok_map shape_if)

lemma shape_reset [simp]: "shape_map reset_control" "shape_map (rm_class ''rowrm'')"
  "shape_map (rm_class ''pendingrm'')"
  by (auto simp: shape_map_def same_shape_def reset_control_def)

text \<open>
  The controls inside the form \<open>f\<close> are at their defaults.  Options are left out: the browser
  selects one of them itself where none is.
\<close>

definition at_default :: "elem \<Rightarrow> bool" where
  "at_default x \<longleftrightarrow> (value_resets x \<longrightarrow> val x = dflt x) \<and> (is_radio x \<or> is_checkbox x \<longrightarrow> on x = dflt_on x)"

definition form_default :: "nat \<Rightarrow> dom \<Rightarrow> bool" where
  "form_default f d \<longleftrightarrow> page_ok d \<and> (\<forall>x \<in> set d. inside f x \<longrightarrow> at_default x)"

text \<open>A change of the page that may touch classes and the state of options only.\<close>

definition spares_controls :: "(elem \<Rightarrow> elem) \<Rightarrow> dom \<Rightarrow> bool" where
  "spares_controls g d \<longleftrightarrow> shape_map g \<and>
     (\<forall>x \<in> set d. val (g x) = val x \<and> (tag x = ''input'' \<longrightarrow> on (g x) = on x))"

lemma at_default_spare:
  assumes "shape_map g" "val (g x) = val x" "tag x = ''input'' \<longrightarrow> on (g x) = on x"
  shows "at_default (g x) = at_default x"
proof -
  have "value_resets (g x) = value_resets x"
    by (simp add: value_resets_def shape_mapD [OF assms(1)])
  then show ?thesis using assms(2,3) is_radio_input [of x] is_checkbox_input [of x]
    by (auto simp: at_default_def shape_mapD [OF assms(1)])
qed

lemma form_default_map:
  assumes "form_default f d" "spares_controls g d"
  shows "form_default f (map g d)"
proof -
  have g: "shape_map g" using assms(2) by (simp add: spares_controls_def)
  have "at_default (g x)" if "x \<in> set d" "inside f (g x)" for x
    using assms that at_default_spare [OF g, of x] shape_mapD(10) [OF g]
    unfolding form_default_def spares_controls_def by metis
  moreover have "page_ok (map g d)" using assms(1) page_ok_map [OF g] by (simp add: form_default_def)
  ultimately show ?thesis by (auto simp: form_default_def)
qed

lemma form_default_detach: "form_default f d \<Longrightarrow> form_default f (detach_all es d)"
  by (simp add: form_default_def page_ok_detach_all detach_all_filter [symmetric] set_detach_all)

lemma form_default_class:
  "form_default f d \<Longrightarrow> c \<noteq> ''tracked'' \<Longrightarrow> form_default f (upd_where P (rm_class c) d)"
  unfolding upd_where_def
  by (erule form_default_map) (auto simp: spares_controls_def shape_map_def same_shape_def)

text \<open>Changing the state of options only.\<close>

lemma form_default_options:
  assumes "form_default f d" "\<forall>x \<in> set d. P x \<longrightarrow> tag x = ''option''"
  shows "form_default f (upd_where P (\<lambda>x. x\<lparr>on := b\<rparr>) d)"
  unfolding upd_where_def using assms
  by (intro form_default_map) (auto simp: spares_controls_def intro!: shape_if shape_edits)

lemma form_default_settle:
  assumes "form_default f d"
  shows "form_default f (settle_select d s)"
proof -
  have one: "tag y = ''option''" if "x \<in> set (options d s)" "y \<in> set d" "ref y = ref x" for x y
  proof -
    have "x \<in> set d" "tag x = ''option''" using that(1) by (auto simp: options_def find_in_def)
    moreover have "y = x" using assms that \<open>x \<in> set d\<close>
      unfolding form_default_def page_ok_def wf_dom_def distinct_map by (metis inj_onD)
    ultimately show ?thesis by simp
  qed
  have u: "upd r g d = upd_where (\<lambda>e. ref e = r) g d" for r g
    by (simp add: upd_def upd_where_def)
  have fo: "find (\<lambda>x. \<not> off x) (options d s) = Some x \<Longrightarrow> x \<in> set (options d s)" for x
    by (auto simp: find_Some_iff)
  show ?thesis
    unfolding settle_select_def Let_def upd_refs_def u
    using assms one fo by (auto split: option.split intro!: form_default_options)
qed

lemma form_default_reset:
  assumes "page_ok d"
  shows "form_default f (form_reset f d)"
proof -
  let ?d = "upd_where (inside f) reset_control d"
  have "at_default (reset_control x)" for x
    by (auto simp: at_default_def reset_control_def value_resets_def is_radio_def is_checkbox_def
        of_type_def)
  moreover have "inside f (reset_control x) = inside f x" for x by (simp add: shape_mapD)
  ultimately have "form_default f ?d"
    using assms page_ok_upd_where [of reset_control "inside f" d]
    by (auto simp: form_default_def set_upd_where)
  moreover have "form_default f (foldl settle_select d' ss)" if "form_default f d'" for d' ss
    using that by (induction ss arbitrary: d') (auto intro: form_default_settle)
  ultimately show ?thesis by (simp add: form_reset_def Let_def)
qed

section \<open>A reset form\<close>

text \<open>
  No row that was added or marked for removal is left in the form \<open>f\<close>.
\<close>

definition no_pending_rows :: "nat \<Rightarrow> dom \<Rightarrow> bool" where
  "no_pending_rows f d \<longleftrightarrow> (\<forall>x \<in> set d. inside f x \<longrightarrow>
     (tag x = ''tr'' \<longrightarrow> \<not> has ''dnsadd'' x \<and> \<not> has ''dnsrefadd'' x \<and> \<not> has ''rowrm'' x)
     \<and> (tag x = ''td'' \<longrightarrow> \<not> has ''pendingrm'' x))"

lemma reset_one_steps:
  assumes "page_ok d"
  shows "\<exists>d5 m. marks m \<and> reset_one f d = map m d5 \<and> form_default f d5 \<and> no_pending_rows f d5
     \<and> (\<forall>x \<in> set d5. has ''tracked'' x \<and> inside f x \<longrightarrow> has ''changed'' (m x) = differs d5 x)"
proof -
  define d1 where "d1 = form_reset f d"
  define d2 where "d2 = detach_all (trows_of ''dnsadd'' f d1) d1"
  define d3 where "d3 = detach_all (trows_of ''dnsrefadd'' f d2) d2"
  define d4 where "d4 = upd_where (\<lambda>e. inside f e \<and> tag e = ''tr'') (rm_class ''rowrm'') d3"
  define d5 where "d5 = upd_where (\<lambda>e. inside f e \<and> tag e = ''td'') (rm_class ''pendingrm'') d4"
  have "form_default f d5"
    unfolding d5_def d4_def d3_def d2_def d1_def
    by (intro form_default_class form_default_detach form_default_reset assms) simp_all
  moreover have np: "no_pending_rows f d5"
  proof -
    have "\<not> has ''dnsadd'' x" if "x \<in> set d3" "inside f x" "tag x = ''tr''" for x
      using that by (auto simp: d3_def d2_def set_detach_all trows_of_def find_in_def)
    moreover have "\<not> has ''dnsrefadd'' x" if "x \<in> set d3" "inside f x" "tag x = ''tr''" for x
      using that by (auto simp: d3_def set_detach_all trows_of_def find_in_def)
    ultimately show ?thesis
      by (auto simp: no_pending_rows_def d5_def d4_def set_upd_where inside_def split: if_splits)
  qed
  moreover have "reset_one f d
      = fold updateChangeTrackingStatus (map ref (find_in d5 f (has ''tracked''))) d5"
    by (simp add: reset_one_def Let_def d1_def d2_def d3_def d4_def d5_def)
  moreover obtain m where "marks m"
    "fold updateChangeTrackingStatus (map ref (find_in d5 f (has ''tracked''))) d5 = map m d5"
    "\<forall>x \<in> set d5. ref x \<in> set (map ref (find_in d5 f (has ''tracked'')))
        \<or> (has ''changed'' x \<longleftrightarrow> differs d5 x) \<longrightarrow> (has ''changed'' (m x) \<longleftrightarrow> differs d5 x)"
    using update_all [of d5] \<open>form_default f d5\<close> unfolding form_default_def by blast
  ultimately show ?thesis
    by (intro exI [of _ d5] exI [of _ m]) (auto simp: find_in_def)
qed

lemma at_default_marks: "marks m \<Longrightarrow> at_default (m x) = at_default x"
  by (rule at_default_spare) (simp_all add: marksD)

lemma no_pending_marks:
  assumes "marks m" "no_pending_rows f d"
  shows "no_pending_rows f (map m d)"
  using assms(2) marksD(10) [OF assms(1)] marksD(4) [OF assms(1)] marksD(6) [OF assms(1)]
  by (simp add: no_pending_rows_def inside_def)


text \<open>
  A field whose attribute \<open>original\<close> is missing and that is a text field, checkbox or radio button
  is never left marked as changed by a confirmed reset of its form.
\<close>

theorem reset_clears_marks:
  assumes "page_ok d" "x \<in> set (resetForm True (Some f) d)" "inside f x" "has ''tracked'' x"
    and "attrs x ''original'' = None" "value_resets x \<or> is_radio x \<or> is_checkbox x"
  shows "\<not> has ''changed'' x"
proof -
  obtain d5 m where m: "marks m" "reset_one f d = map m d5" "form_default f d5"
    "\<forall>x \<in> set d5. has ''tracked'' x \<and> inside f x \<longrightarrow> has ''changed'' (m x) = differs d5 x"
    using reset_one_steps [OF assms(1)] by blast
  from assms(2) obtain y where y: "y \<in> set d5" "x = m y" by (auto simp: resetForm_def m(2))
  have f: "inside f y" using assms(3) by (simp add: y(2) inside_def marksD(6) [OF m(1)])
  have dx: "at_default x" using m(3) y f by (simp add: form_default_def at_default_marks [OF m(1)])
  have "has ''changed'' x \<longleftrightarrow> differs (map m d5) x"
    using m(4) y f assms(4) by (simp add: differs_marks [OF m(1)] marksD(10) [OF m(1)])
  moreover have "tag x \<noteq> ''select''"
    using assms(6) by (auto simp: value_resets_def is_radio_def is_checkbox_def)
  moreover have "value_resets x" if "\<not> is_radio x" "\<not> is_checkbox x" using assms(6) that by simp
  ultimately show ?thesis using dx assms(5) by (auto simp: differs_def at_default_def)
qed


section \<open>The demonstration form, reset\<close>

lemma demo_typed_ok: "page_ok demo_typed"
  by (simp add: demo_typed_def demo_ready tracked_event_def page_ok_upd_where upd_def
      demo_page_ok page_ok_map shape_if split: option.split)

lemma demo_reset: "\<exists>x \<in> set (resetForm True (Some 1) demo_typed). inside 1 x \<and> has ''tracked'' x
     \<and> attrs x ''original'' = None \<and> value_resets x"
  by code_simp


theorem reset_clears_marks_witness:
  "\<exists>x \<in> set (resetForm True (Some 1) demo_typed). inside 1 x \<and> has ''tracked'' x \<and> \<not> has ''changed'' x"
  using demo_reset reset_clears_marks [OF demo_typed_ok, of _ 1] by blast

end
