(* ===== verification/Paging.thy ===== *)
theory Paging
  imports FormReset
begin

text \<open>
  \<open>paging.js\<close>: the paging header of a DNS zone (which page is shown, what its buttons lead to),
  the check for unsaved changes, and the address of another page.
\<close>

section \<open>The paging header\<close>

text \<open>
  The data attributes \<open>count\<close>, \<open>limit\<close> and \<open>page\<close> of a container, and the globals
  \<open>pagingOffset_ID\<close> and \<open>hasCrossUniverse_ID\<close>; the server writes integers, the limit is positive.
\<close>

record pager =
  pcount :: int
  plimit :: int
  ppage :: int
  poffset :: "int option"
  pcross :: bool

record paging_page = page +
  pagers :: "string \<Rightarrow> pager"

text \<open>\<open>Math.ceil(a / b)\<close> on integers that a double holds exactly.\<close>

definition ceil_div :: "int \<Rightarrow> int \<Rightarrow> int" where
  "ceil_div a b = - ((- a) div b)"

definition shown_page :: "pager \<Rightarrow> int" where
  "shown_page g = (case poffset g of Some r \<Rightarrow> ceil_div r (plimit g) | None \<Rightarrow> ppage g)"

definition page_offset :: "pager \<Rightarrow> int" where
  "page_offset g = (case poffset g of Some r \<Rightarrow> r | None \<Rightarrow> (ppage g - 1) * plimit g)"

definition last_page :: "pager \<Rightarrow> int" where
  "last_page g = ceil_div (pcount g) (plimit g)"

definition first_record :: "pager \<Rightarrow> int" where
  "first_record g = page_offset g"

definition last_record :: "pager \<Rightarrow> int" where
  "last_record g =
     (let l = page_offset g + plimit g - 1 in if l > pcount g then pcount g else l)"

datatype button = First | Previous | Next | Last

fun button_name :: "button \<Rightarrow> string" where
  "button_name First = ''First''"
| "button_name Previous = ''Previous''"
| "button_name Next = ''Next''"
| "button_name Last = ''Last''"

text \<open>Which page a button leads to, and whether it is drawn with the class \<open>off\<close>.\<close>

fun button_page :: "pager \<Rightarrow> button \<Rightarrow> int" where
  "button_page g First = 1"
| "button_page g Previous = (if shown_page g - 1 < 1 then 1 else shown_page g - 1)"
| "button_page g Next = (if shown_page g + 1 > last_page g then last_page g else shown_page g + 1)"
| "button_page g Last = last_page g"

fun button_off :: "pager \<Rightarrow> button \<Rightarrow> bool" where
  "button_off g First = (shown_page g = 1)"
| "button_off g Previous = (shown_page g = 1)"
| "button_off g Next = (shown_page g = last_page g)"
| "button_off g Last = (shown_page g = last_page g)"

definition button_html :: "pager \<Rightarrow> button \<Rightarrow> html" where
  "button_html g b =
     Html ((new_el ''button'' [(''type'', ''button''), (''name'', button_name b),
         (''title'', button_name b @ '' page'')]
       (''paging'' # (if button_off g b then [''off''] else [])))\<lparr>etext := button_name b\<rparr>) []"

definition universe_toggle_html :: html where
  "universe_toggle_html =
     Html ((new_el ''button'' [(''type'', ''button''), (''name'', ''ToggleCrossUniverse''),
         (''title'', ''Hide records from other universes'')]
       [''paging'', ''universe-toggle''])\<lparr>etext := ''Hide Others''\<rparr>) []"

definition paging_html :: "string \<Rightarrow> pager \<Rightarrow> html list" where
  "paging_html pid g =
     [Html ((new_el ''div'' [] [''paging-controls''])
         \<lparr>etext := '' - Page  of '' @ int_str (last_page g) @ '' - '' @ (if pcross g then '' | '' else [])\<rparr>)
       ([button_html g First, button_html g Previous,
         Html (new_el ''input'' [(''type'', ''text''), (''id'', pid @ ''-page''), (''name'', pid @ ''-page''),
           (''value'', int_str (shown_page g)), (''size'', ''3'')] []) [],
         button_html g Next, button_html g Last] @ (if pcross g then [universe_toggle_html] else [])),
      Html ((new_el ''div'' [] [''paging-info''])
         \<lparr>etext := ''Records '' @ int_str (first_record g) @ '' to '' @ int_str (last_record g)
            @ '' of '' @ int_str (pcount g)\<rparr>) []]"

definition buildPagingContainer :: "string \<Rightarrow> paging_page \<Rightarrow> paging_page" where
  "buildPagingContainer pid st =
     (case by_id (doc st) pid of
        None \<Rightarrow> st
      | Some e \<Rightarrow>
          let g = pagers st pid in
          st\<lparr>doc := append_to (ref e) (paging_html pid g) (doc st),
             pagers := (pagers st)(pid := g\<lparr>ppage := shown_page g\<rparr>)\<rparr>)"

definition paging_ready :: "paging_page \<Rightarrow> paging_page" where
  "paging_ready st =
     fold buildPagingContainer
       (List.map_filter (\<lambda>e. if tag e = ''div'' \<and> has ''paging-container'' e then attrs e ''id'' else None)
         (doc st)) st"

section \<open>Rows of other universes\<close>

text \<open>
  jQuery's \<open>:visible\<close>, \<open>hide\<close> and \<open>show\<close>: an element is not rendered when it or an
  ancestor has no display.  \<open>css\<close> is what the style sheet hides by itself.
\<close>

definition visible :: "(elem \<Rightarrow> bool) \<Rightarrow> dom \<Rightarrow> elem \<Rightarrow> bool" where
  "visible css d e \<longleftrightarrow>
     (\<forall>x \<in> set (e # ancestors d e). disp x \<noteq> ''none'' \<and> \<not> (disp x = [] \<and> css x))"

definition jq_hide :: "elem \<Rightarrow> elem" where
  "jq_hide e = e\<lparr>disp := ''none''\<rparr>"

definition jq_show :: "elem \<Rightarrow> elem" where
  "jq_show e = (if disp e = ''none'' then e\<lparr>disp := []\<rparr> else e)"

definition mismatch_rows :: "dom \<Rightarrow> elem \<Rightarrow> elem list" where
  "mismatch_rows d container =
     (case closest d (\<lambda>e. tag e = ''form'') container of
        None \<Rightarrow> []
      | Some f \<Rightarrow> filter (\<lambda>e. tag e = ''tr'' \<and> has ''universe-mismatch'' e
          \<and> (\<exists>t \<in> set (find_in d (ref f) (\<lambda>x. tag x = ''table'' \<and> has ''dnstable'' x)). inside (ref t) e)) d)"

definition toggleCrossUniverse :: "(elem \<Rightarrow> bool) \<Rightarrow> nat \<Rightarrow> elem \<Rightarrow> dom \<Rightarrow> dom" where
  "toggleCrossUniverse css btn container d =
     (let rows = mismatch_rows d container in
      if rows \<noteq> [] \<and> visible css d (hd rows)
      then upd btn (\<lambda>e. set_attr ''title'' ''Show records from other universes'' (e\<lparr>etext := ''Show All''\<rparr>))
             (upd_refs rows jq_hide d)
      else if rows \<noteq> []
      then upd btn (\<lambda>e. set_attr ''title'' ''Hide records from other universes'' (e\<lparr>etext := ''Hide Others''\<rparr>))
             (upd_refs rows jq_show d)
      else d)"

section \<open>Going to another page\<close>

definition hasPendingChanges :: "dom \<Rightarrow> bool" where
  "hasPendingChanges d \<longleftrightarrow>
     filter (\<lambda>e. has ''tracked'' e \<and> has ''changed'' e
       \<and> (\<exists>f \<in> set d. tag f = ''form'' \<and> inside (ref f) e)) d \<noteq> []
     \<or> filter (\<lambda>e. tag e = ''tr'' \<and> has ''rowrm'' e) d \<noteq> []
     \<or> filter (\<lambda>e. tag e = ''tr'' \<and> has ''dnsadd'' e) d \<noteq> []
     \<or> filter (\<lambda>e. tag e = ''tr'' \<and> has ''dnsrefadd'' e) d \<noteq> []"

text \<open>
  The page argument is a number (the buttons) or a string (the input).  The loose comparison of a
  string with a number converts the string: white space around it is ignored, the empty string is
  zero.  The numerals modelled are decimal integers with a sign; other texts compare unequal.
\<close>

datatype target = Number int | Text string

definition is_space :: "char \<Rightarrow> bool" where
  "is_space c \<longleftrightarrow> (of_char c :: nat) \<in> {9, 10, 11, 12, 13, 32, 160}"

definition strip_spaces :: "string \<Rightarrow> string" where
  "strip_spaces s = rev (dropWhile is_space (rev (dropWhile is_space s)))"

definition js_integer :: "string \<Rightarrow> int option" where
  "js_integer s =
     (case strip_spaces s of
        [] \<Rightarrow> Some 0
      | c # cs \<Rightarrow>
          if c = CHR ''-'' \<and> cs \<noteq> [] \<and> list_all is_digit cs then Some (- int (digits_val cs))
          else if c = CHR ''+'' \<and> cs \<noteq> [] \<and> list_all is_digit cs then Some (int (digits_val cs))
          else if list_all is_digit (c # cs) then Some (int (digits_val (c # cs))) else None)"

fun same_page :: "target \<Rightarrow> int \<Rightarrow> bool" where
  "same_page (Number n) cur = (n = cur)"
| "same_page (Text s) cur = (js_integer s = Some cur)"

fun target_str :: "target \<Rightarrow> string" where
  "target_str (Number n) = int_str n"
| "target_str (Text s) = s"

text \<open>\<open>pagingDivId.match(/paging-dns-(\d+)$/)\<close>.\<close>

fun universe_of :: "string \<Rightarrow> string option" where
  "universe_of [] = None"
| "universe_of (c # cs) =
     (let s = c # cs; ds = drop (length ''paging-dns-'') s in
      if prefix ''paging-dns-'' s \<and> ds \<noteq> [] \<and> list_all is_digit ds then Some ds else universe_of cs)"

definition param :: "string \<Rightarrow> string" where
  "param k = '';'' @ k @ ''=''"

definition page_link :: "string \<Rightarrow> target \<Rightarrow> int \<Rightarrow> string \<Rightarrow> string" where
  "page_link pid pg limit link0 =
     (let link1 = strip_param (param (pid @ ''-page'')) link0;
          link2 = strip_param (param (pid @ ''-limit'')) link1;
          link3 = strip_param (param ''dnssearch'') link2;
          link4 = (case universe_of pid of
                     None \<Rightarrow> link3
                   | Some u \<Rightarrow> strip_param (param ''ip_universe_id'') link3 @ '';ip_universe_id='' @ u)
      in link4 @ '';'' @ pid @ ''-page='' @ target_str pg @ '';'' @ pid @ ''-limit='' @ int_str limit)"

definition pending_message :: string where
  "pending_message = ''There are pending changes, which have not been saved. They must be submitted or cancelled before moving to a different page.''"

definition changePage :: "string \<Rightarrow> target \<Rightarrow> paging_page \<Rightarrow> paging_page" where
  "changePage pid pg st =
     (if hasPendingChanges (doc st) then st\<lparr>alerts := alerts st @ [pending_message]\<rparr>
      else if same_page pg (ppage (pagers st pid)) then st
      else st\<lparr>location := page_link pid pg (plimit (pagers st pid)) (location st)\<rparr>)"

section \<open>The header's numbers\<close>

lemma ceil_div_iff:
  assumes b: "0 < b"
  shows "ceil_div a b = q \<longleftrightarrow> (q - 1) * b < a \<and> a \<le> q * b"
proof
  assume "ceil_div a b = q"
  then have d: "(- a) div b = - q" by (simp add: ceil_div_def)
  have "- a = b * ((- a) div b) + (- a) mod b" by simp
  moreover have "0 \<le> (- a) mod b" "(- a) mod b < b" using b by simp_all
  ultimately show "(q - 1) * b < a \<and> a \<le> q * b" by (simp add: d algebra_simps)
next
  assume r: "(q - 1) * b < a \<and> a \<le> q * b"
  have "(- a) div b = - q"
    by (rule int_div_pos_eq [of _ _ _ "q * b - a"]) (use r in \<open>simp_all add: algebra_simps\<close>)
  then show "ceil_div a b = q" by (simp add: ceil_div_def)
qed

lemma ceil_div_mono: "0 < b \<Longrightarrow> a \<le> a' \<Longrightarrow> ceil_div a b \<le> ceil_div a' b"
  by (simp add: ceil_div_def zdiv_mono1)

text \<open>
  C33: With the offset of page \<open>p\<close> from the server, the header shows page \<open>p\<close>, one of the pages
  it counts, and the records from the first to the last it names are exactly the records of the zone
  that belong to page \<open>p\<close>.
\<close>

theorem header_shows_page:
  assumes "0 < plimit g" "1 \<le> p" "poffset g = Some ((p - 1) * plimit g + 1)"
    and "(p - 1) * plimit g < pcount g"
  shows "shown_page g = p \<and> p \<le> last_page g
     \<and> {first_record g..last_record g}
         = {n. 1 \<le> n \<and> n \<le> pcount g \<and> ceil_div n (plimit g) = p}"
proof -
  have sp: "shown_page g = p"
    using assms by (simp add: shown_page_def ceil_div_iff algebra_simps)
  have "ceil_div ((p - 1) * plimit g + 1) (plimit g) = p"
    using assms(1) by (simp add: ceil_div_iff algebra_simps)
  then have "p = ceil_div ((p - 1) * plimit g + 1) (plimit g)" by simp
  also have "\<dots> \<le> last_page g"
    unfolding last_page_def using assms by (intro ceil_div_mono) simp_all
  finally have lp: "p \<le> last_page g" .
  have low: "1 \<le> n" if "(p - 1) * plimit g < n" for n
  proof -
    have "0 \<le> (p - 1) * plimit g" using assms(1,2) by simp
    with that show ?thesis by linarith
  qed
  have high: "(p - 1) * plimit g + 1 + plimit g - 1 = p * plimit g" by (simp add: algebra_simps)
  have "{first_record g..last_record g}
      = {n. 1 \<le> n \<and> n \<le> pcount g \<and> (p - 1) * plimit g < n \<and> n \<le> p * plimit g}"
    unfolding first_record_def last_record_def page_offset_def assms(3) Let_def option.case high
    using low by (auto split: if_splits)
  then show ?thesis using sp lp assms(1) by (simp add: ceil_div_iff)
qed

theorem header_shows_page_witness:
  "let g = \<lparr>pcount = 25, plimit = 10, ppage = 1, poffset = Some 21, pcross = False\<rparr> in
     shown_page g = 3 \<and> 3 \<le> last_page g
     \<and> {first_record g..last_record g} = {n. 1 \<le> n \<and> n \<le> 25 \<and> ceil_div n 10 = 3}"
  using header_shows_page
    [of "\<lparr>pcount = 25, plimit = 10, ppage = 1, poffset = Some 21, pcross = False\<rparr>" 3] by simp

text \<open>
  C34: From a page of the zone every button leads to a page of the zone, and a button is drawn as off
  exactly when it leads to the page shown.
\<close>

theorem buttons_in_range:
  assumes "1 \<le> shown_page g" "shown_page g \<le> last_page g"
  shows "1 \<le> button_page g b \<and> button_page g b \<le> last_page g
     \<and> (button_off g b \<longleftrightarrow> button_page g b = shown_page g)"
  using assms by (cases b) auto

theorem buttons_in_range_witness:
  "let g = \<lparr>pcount = 25, plimit = 10, ppage = 1, poffset = Some 21, pcross = False\<rparr> in
     button_page g Next \<le> last_page g \<and> button_off g Next"
  using buttons_in_range
    [of "\<lparr>pcount = 25, plimit = 10, ppage = 1, poffset = Some 21, pcross = False\<rparr>" Next]
  by (simp add: shown_page_def last_page_def ceil_div_def)

section \<open>Addresses\<close>

text \<open>
  An address is a base followed by parameters \<open>;key=value\<close>.  Searching a key in it is searching
  the base and then one parameter after the other.
\<close>

lemma prefix_key:
  assumes "CHR ''='' \<notin> set k" "CHR ''='' \<notin> set t" "prefix (k @ ''='') (t @ ''='' @ v)"
  shows "k = t"
  using assms
proof (induction k arbitrary: t)
  case Nil
  then show ?case by (cases t) auto
next
  case (Cons x k)
  then show ?case by (cases t) auto
qed

lemma has_param_tok:
  assumes "CHR '';'' \<notin> set tok" "rest = [] \<or> hd rest = CHR '';''"
  shows "has_param (CHR '';'' # ks) (tok @ rest) = has_param (CHR '';'' # ks) rest"
  using assms(1)
  by (induction tok) (auto simp: param_here_def)

text \<open>A list of parameters as the address ends with it.\<close>

fun params_str :: "(string \<times> string) list \<Rightarrow> string" where
  "params_str [] = []"
| "params_str ((k, v) # ps) = param k @ v @ params_str ps"

definition key_ok :: "string \<Rightarrow> bool" where
  "key_ok k \<longleftrightarrow> CHR ''='' \<notin> set k \<and> CHR '';'' \<notin> set k"

lemma params_str_hd: "params_str ps = [] \<or> hd (params_str ps) = CHR '';''"
  by (cases ps) (auto simp: param_def)

lemma has_param_params:
  assumes "key_ok k" "\<forall>(k', v) \<in> set ps. key_ok k' \<and> CHR '';'' \<notin> set v \<and> k' \<noteq> k"
  shows "\<not> has_param (param k) (params_str ps)"
  using assms(2)
proof (induction ps)
  case (Cons p ps)
  obtain k' v where p: "p = (k', v)" by (cases p)
  have tok: "CHR '';'' \<notin> set (k' @ ''='' @ v)" using Cons.prems p by (auto simp: key_ok_def)
  have "\<not> param_here (param k) (params_str (p # ps))"
    using prefix_key [of k k' "v @ params_str ps"] Cons.prems assms(1)
    by (auto simp: p param_def param_here_def key_ok_def)
  moreover have "params_str (p # ps) = CHR '';'' # (k' @ ''='' @ v) @ params_str ps"
    by (simp add: p param_def)
  ultimately show ?case
    using Cons has_param_tok [OF tok params_str_hd, of "k @ ''=''" ps] by (simp add: param_def)
qed (simp add: param_def)

lemma has_param_address:
  assumes "key_ok k" "\<not> has_param (param k) base"
    and "\<forall>(k', v) \<in> set ps. key_ok k' \<and> CHR '';'' \<notin> set v \<and> k' \<noteq> k"
  shows "\<not> has_param (param k) (base @ params_str ps)"
proof (cases "params_str ps")
  case Nil
  then show ?thesis using assms(2) by simp
next
  case (Cons c t)
  then have c: "c = CHR '';''" using params_str_hd [of ps] by simp
  have "CHR '';'' \<notin> set (k @ ''='')" "\<not> is_digit (CHR '';'')"
    using assms(1) by (auto simp: key_ok_def is_digit_def)
  from has_param_sep [OF this, of base t] show ?thesis
    using assms(2) has_param_params [OF assms(1,3)] Cons c by (simp add: param_def)
qed

lemma params_str_append [simp]: "params_str (ps @ qs) = params_str ps @ params_str qs"
  by (induction ps) auto

lemma strip_address:
  assumes "key_ok k" "\<not> has_param (param k) base"
    and "\<forall>(k', v) \<in> set ps. key_ok k' \<and> CHR '';'' \<notin> set v \<and> k' \<noteq> k"
    and "ds \<noteq> []" "\<forall>c \<in> set ds. is_digit c"
  shows "strip_param (param k) (base @ params_str (ps @ (k, ds) # qs)) = base @ params_str (ps @ qs)"
proof -
  have sep: "CHR '';'' \<notin> set (k @ ''='')" "\<not> is_digit (CHR '';'')"
    using assms(1) by (auto simp: key_ok_def is_digit_def)
  have "\<not> has_param (param k) (base @ params_str ps)" by (rule has_param_address [OF assms(1-3)])
  then have "strip_param (param k) ((base @ params_str ps) @ param k @ ds @ params_str qs)
      = (base @ params_str ps) @ strip_param (param k) (param k @ ds @ params_str qs)"
    using strip_param_sep [OF sep, of "base @ params_str ps" "k @ ''='' @ ds @ params_str qs"]
    by (simp add: param_def del: strip_param.simps)
  also have "strip_param (param k) (param k @ ds @ params_str qs) = params_str qs"
    using params_str_hd [of qs] assms(4,5) by (intro strip_param_digits) (auto simp: param_def is_digit_def)
  finally show ?thesis by simp
qed

lemma strip_absent:
  assumes "key_ok k" "\<not> has_param (param k) base"
    and "\<forall>(k', v) \<in> set ps. key_ok k' \<and> CHR '';'' \<notin> set v \<and> k' \<noteq> k"
  shows "strip_param (param k) (base @ params_str ps) = base @ params_str ps"
  by (rule strip_param_none) (rule has_param_address [OF assms])

lemma universe_of_digits: "universe_of pid = Some u \<Longrightarrow> u \<noteq> [] \<and> (\<forall>c \<in> set u. is_digit c)"
  by (induction pid rule: universe_of.induct) (auto simp: Let_def list_all_iff split: if_splits)

text \<open>
  The address of page \<open>n\<close> for a paging header \<open>pid\<close> whose page has the address \<open>base\<close>.
\<close>

definition universe_param :: "string \<Rightarrow> (string \<times> string) list" where
  "universe_param pid = (case universe_of pid of None \<Rightarrow> [] | Some u \<Rightarrow> [(''ip_universe_id'', u)])"

definition page_address :: "string \<Rightarrow> string \<Rightarrow> int \<Rightarrow> int \<Rightarrow> string" where
  "page_address pid base limit n =
     base @ params_str (universe_param pid @ [(pid @ ''-page'', nat_str (nat n)),
       (pid @ ''-limit'', nat_str (nat limit))])"

definition bare_address :: "string \<Rightarrow> string \<Rightarrow> bool" where
  "bare_address pid base \<longleftrightarrow> (\<forall>k \<in> {pid @ ''-page'', pid @ ''-limit'', ''dnssearch'', ''ip_universe_id''}.
     \<not> has_param (param k) base)"

lemma keys_ok:
  assumes "key_ok pid"
  shows "key_ok (pid @ ''-page'')" "key_ok (pid @ ''-limit'')" "key_ok ''dnssearch''"
    "key_ok ''ip_universe_id''"
    "pid @ ''-page'' \<noteq> pid @ ''-limit''" "pid @ ''-page'' \<noteq> ''dnssearch''"
    "pid @ ''-limit'' \<noteq> ''dnssearch''" "pid @ ''-page'' \<noteq> ''ip_universe_id''"
    "pid @ ''-limit'' \<noteq> ''ip_universe_id''"
proof -
  have "CHR ''-'' \<in> set (pid @ ''-page'')" "CHR ''-'' \<in> set (pid @ ''-limit'')" by simp_all
  moreover have "CHR ''-'' \<notin> set ''dnssearch''" "CHR ''-'' \<notin> set ''ip_universe_id''" by simp_all
  ultimately show "pid @ ''-page'' \<noteq> ''dnssearch''" "pid @ ''-limit'' \<noteq> ''dnssearch''"
    "pid @ ''-page'' \<noteq> ''ip_universe_id''" "pid @ ''-limit'' \<noteq> ''ip_universe_id''" by metis+
qed (use assms in \<open>auto simp: key_ok_def\<close>)

lemma semicolon_no_digit: "\<not> is_digit (CHR '';'')"
  by (simp add: is_digit_def)

lemma nat_str_tok: "CHR '';'' \<notin> set (nat_str n)" "\<forall>c \<in> set (nat_str n). is_digit c"
  using nat_str_digits [of _ n] semicolon_no_digit by blast+

lemma universe_param_tok:
  "\<forall>(k, v) \<in> set (universe_param pid). k = ''ip_universe_id'' \<and> v \<noteq> [] \<and> CHR '';'' \<notin> set v
     \<and> (\<forall>c \<in> set v. is_digit c)"
proof (cases "universe_of pid")
  case (Some u)
  then show ?thesis using universe_of_digits [OF Some] semicolon_no_digit
    by (auto simp: universe_param_def)
qed (simp add: universe_param_def)

lemma page_link_bare:
  assumes "key_ok pid" "bare_address pid base" "0 \<le> n" "0 \<le> limit"
  shows "page_link pid (Number n) limit base = page_address pid base limit n"
proof -
  have s: "strip_param (param (pid @ ''-page'')) base = base"
    "strip_param (param (pid @ ''-limit'')) base = base"
    "strip_param (param ''dnssearch'') base = base" "strip_param (param ''ip_universe_id'') base = base"
    using assms(2) unfolding bare_address_def by (simp_all add: strip_param_none)
  show ?thesis
    unfolding page_link_def Let_def s
    using assms(3,4)
    by (simp add: page_address_def int_str_def universe_param_def param_def split: option.split)
qed

lemma page_link_again:
  assumes "key_ok pid" "bare_address pid base" "0 \<le> n" "0 \<le> m" "0 \<le> limit" "0 \<le> limit'"
  shows "page_link pid (Number m) limit (page_address pid base limit' n) = page_address pid base limit m"
proof -
  let ?u = "universe_param pid"
  let ?k1 = "pid @ ''-page''" and ?k2 = "pid @ ''-limit''"
  let ?n = "nat_str (nat n)" and ?l = "nat_str (nat limit')"
  note k = keys_ok [OF assms(1)]
  have b: "\<not> has_param (param ?k1) base" "\<not> has_param (param ?k2) base"
    "\<not> has_param (param ''dnssearch'') base" "\<not> has_param (param ''ip_universe_id'') base"
    using assms(2) by (simp_all add: bare_address_def)
  have u: "\<forall>(k', v) \<in> set ?u. key_ok k' \<and> CHR '';'' \<notin> set v \<and> k' \<noteq> x"
    if "x \<noteq> ''ip_universe_id''" for x
    using universe_param_tok [of pid] k(4) that by fastforce
  have 1: "strip_param (param ?k1) (page_address pid base limit' n) = base @ params_str (?u @ [(?k2, ?l)])"
    unfolding page_address_def
    by (rule strip_address [OF k(1) b(1) u]) (use k(8) in \<open>auto dest: nat_str_digits\<close>)
  have 2: "strip_param (param ?k2) (base @ params_str (?u @ [(?k2, ?l)])) = base @ params_str ?u"
    using strip_address [OF k(2) b(2) u, of ?l "[]"] k(9) nat_str_tok by simp
  have 3: "strip_param (param ''dnssearch'') (base @ params_str ?u) = base @ params_str ?u"
    by (rule strip_absent [OF k(3) b(3) u]) simp
  have 4: "strip_param (param ''ip_universe_id'') (base @ params_str ?u) = base"
    if "universe_of pid = Some v" for v
    using strip_address [OF k(4) b(4), of "[]" v "[]"] universe_of_digits [OF that] that
    by (simp add: universe_param_def)
  show ?thesis
    unfolding page_link_def Let_def 1 2 3
    using 4 assms(4,5)
    by (auto simp: page_address_def int_str_def universe_param_def param_def split: option.split)
qed



section \<open>Showing and hiding rows\<close>

lemma mismatch_rows_map:
  assumes "keeps f" "\<And>e. tag (f e) = tag e" "\<And>c e. has c (f e) = has c e"
  shows "mismatch_rows (map f d) (f c) = map f (mismatch_rows d c)"
  using closest_map [OF assms(1), of "\<lambda>e. tag e = ''form''" d c] assms
  by (auto simp: mismatch_rows_def find_in_map filter_map comp_def inside_keeps keeps_ref
      intro!: filter_cong split: option.split)


lemma keeps_hide_show [simp]: "keeps jq_hide" "keeps jq_show"
  by (auto simp: jq_hide_def jq_show_def)

lemma hide_show_fields [simp]:
  "tag (jq_hide e) = tag e" "has c (jq_hide e) = has c e" "disp (jq_hide e) = ''none''"
  "ref (jq_hide e) = ref e" "path (jq_hide e) = path e"
  "tag (jq_show e) = tag e" "has c (jq_show e) = has c e" "disp (jq_show e) \<noteq> ''none''"
  "ref (jq_show e) = ref e" "path (jq_show e) = path e"
  by (auto simp: jq_hide_def jq_show_def)

text \<open>
  One click of the toggle as one map over the page.
\<close>

definition toggle_map :: "bool \<Rightarrow> nat \<Rightarrow> nat set \<Rightarrow> elem \<Rightarrow> elem" where
  "toggle_map hiding btn rows e =
     (let e1 = (if ref e \<in> rows then (if hiding then jq_hide e else jq_show e) else e) in
      if ref e = btn
      then (if hiding then set_attr ''title'' ''Show records from other universes'' (e1\<lparr>etext := ''Show All''\<rparr>)
            else set_attr ''title'' ''Hide records from other universes'' (e1\<lparr>etext := ''Hide Others''\<rparr>))
      else e1)"

lemma toggle_map_fields [simp]:
  "ref (toggle_map h btn rows e) = ref e" "path (toggle_map h btn rows e) = path e"
  "tag (toggle_map h btn rows e) = tag e" "has c (toggle_map h btn rows e) = has c e"
  by (simp_all add: toggle_map_def Let_def)

lemma keeps_toggle_map [simp]: "keeps (toggle_map h btn rows)"
  by (rule keepsI) simp_all

lemma toggle_is_map:
  assumes "mismatch_rows d c \<noteq> []"
  shows "toggleCrossUniverse css btn c d
     = map (toggle_map (visible css d (hd (mismatch_rows d c))) btn (ref ` set (mismatch_rows d c))) d"
  using assms
  by (auto simp: toggleCrossUniverse_def Let_def toggle_map_def upd_def upd_refs_def upd_where_def)

lemma toggle_disp:
  assumes "btn \<notin> rows"
  shows "disp (toggle_map h btn rows e) = (if ref e \<in> rows then (if h then ''none'' else disp (jq_show e)) else disp e)"
  using assms by (simp add: toggle_map_def Let_def set_attr_def)

text \<open>
  The toggle of the rows of other universes: a click while they are visible hides every such row
  of the form, and the next click gives every one the display it had.  After the two clicks no element
  of the page has another display than before.
\<close>

theorem toggle_twice:
  assumes "rows = ref ` set (mismatch_rows d c)" "mismatch_rows d c \<noteq> []" "btn \<notin> rows"
    and "\<forall>e \<in> set d. ref e \<in> rows \<longrightarrow> disp e = []"
    and "visible css d (hd (mismatch_rows d c))"
    and "d1 = toggleCrossUniverse css btn c d"
    and "d2 = toggleCrossUniverse css btn (toggle_map True btn rows c) d1"
  shows "(\<forall>e \<in> set d1. ref e \<in> rows \<longrightarrow> disp e = ''none'') \<and> map disp d2 = map disp d
     \<and> map ref d2 = map ref d"
proof -
  let ?h = "toggle_map True btn rows" and ?s = "toggle_map False btn rows"
  have d1: "d1 = map ?h d" using toggle_is_map [OF assms(2), of css btn] assms(1,5,6) by simp
  have m1: "mismatch_rows d1 (?h c) = map ?h (mismatch_rows d c)"
    unfolding d1 by (rule mismatch_rows_map) simp_all
  have hd1: "hd (mismatch_rows d1 (?h c)) = ?h (hd (mismatch_rows d c))"
    using assms(2) by (simp add: m1 hd_map)
  have hin: "ref (hd (mismatch_rows d c)) \<in> rows" using assms(1,2) by simp
  have "\<not> visible css d1 (?h (hd (mismatch_rows d c)))"
    using hin by (simp add: visible_def toggle_disp [OF assms(3)])
  moreover have "ref ` set (mismatch_rows d1 (?h c)) = rows"
    unfolding m1 set_map image_image toggle_map_fields by (rule assms(1) [symmetric])
  moreover have "mismatch_rows d1 (?h c) \<noteq> []" using assms(2) by (simp add: m1)
  ultimately have d2: "d2 = map ?s d1"
    using toggle_is_map [of d1 "?h c" css btn] assms(7) hd1 by simp
  have "disp (?s (?h e)) = disp e" if "e \<in> set d" for e
    using assms(4) that by (simp add: toggle_disp [OF assms(3)] jq_show_def)
  then show ?thesis
    by (auto simp: d2 d1 toggle_disp [OF assms(3)])
qed

definition demo_zone :: dom where
  "demo_zone = [(new_el ''form'' [] [])\<lparr>ref := 1\<rparr>,
     (new_el ''table'' [] [''dnstable''])\<lparr>ref := 2, path := [1]\<rparr>,
     (new_el ''div'' [] [''paging-container''])\<lparr>ref := 3, path := [2, 1]\<rparr>,
     (new_el ''button'' [] [])\<lparr>ref := 4, path := [3, 2, 1]\<rparr>,
     (new_el ''tr'' [] [''universe-mismatch''])\<lparr>ref := 5, path := [2, 1]\<rparr>,
     (new_el ''tr'' [] [])\<lparr>ref := 6, path := [2, 1]\<rparr>]"

theorem toggle_twice_witness:
  "\<exists>d1 d2. d1 = toggleCrossUniverse (\<lambda>_. False) 4 (demo_zone ! 2) demo_zone
     \<and> d2 = toggleCrossUniverse (\<lambda>_. False) 4 (toggle_map True 4 {5} (demo_zone ! 2)) d1
     \<and> map disp d2 = map disp demo_zone \<and> map disp d1 \<noteq> map disp demo_zone"
proof -
  have r: "map ref (mismatch_rows demo_zone (demo_zone ! 2)) = [5]" by code_simp
  then have r': "{5} = ref ` set (mismatch_rows demo_zone (demo_zone ! 2))"
    by (metis list.set(1) list.simps(15) set_map)
  have ne: "mismatch_rows demo_zone (demo_zone ! 2) \<noteq> []" using r by auto
  have v: "visible (\<lambda>_. False) demo_zone (hd (mismatch_rows demo_zone (demo_zone ! 2)))" by code_simp
  have dd: "\<forall>e \<in> set demo_zone. ref e \<in> {5} \<longrightarrow> disp e = []"
    by (simp add: demo_zone_def new_el_def)
  have "map disp (toggleCrossUniverse (\<lambda>_. False) 4 (demo_zone ! 2) demo_zone) \<noteq> map disp demo_zone"
    by code_simp
  then show ?thesis
    using toggle_twice [OF r' ne _ dd v refl refl, of 4] by auto
qed

end
