(* ===== verification/Attest.thy ===== *)
theory Attest
  imports Dom
begin

text \<open>
  \<open>attest.js\<close>: the approval page.  Its tables have one row per item: a cell with the two buttons
  and the hidden field of the decision, and a cell with the box for the correction.  The page is the
  list of these tables; a query such as \<open>closest('tr').find('.disapprove')\<close> is a field of the row.
\<close>

section \<open>Rows\<close>

text \<open>
  \<open>correction\<close> is the \<open>div\<close> of class \<open>correction\<close> with its field \<open>fix_ID\<close>: the class
  \<open>hint\<close> and the property \<open>preservedHint\<close> of the field, its value and whether it is disabled,
  and whether the \<open>div\<close> has the class \<open>hidecorrection\<close>.
\<close>

record correction =
  is_select :: bool
  cvalue :: string
  hint :: bool
  preservedHint :: "string option"
  cdisabled :: bool
  hidecorrection :: bool

text \<open>
  A decided or read-only item has no switch; an item tracked elsewhere has no correction.
  \<open>error\<close> is the class \<open>error\<close> on the two cells.
\<close>

record switch =
  approve_value :: string
  approve_on :: bool
  disapprove_on :: bool

record item =
  switch_of :: "switch option"
  correction_of :: "correction option"
  switch_error :: bool
  correction_error :: bool

record attest_page =
  tables :: "item list list"
  messages :: "string list"

section \<open>Handlers\<close>

text \<open>At load: every decision is cleared (a browser may keep it across a reload).\<close>

definition attest_ready :: "attest_page \<Rightarrow> attest_page" where
  "attest_ready p = p\<lparr>tables := map (map (\<lambda>r. r\<lparr>switch_of :=
      map_option (\<lambda>s. s\<lparr>approve_value := []\<rparr>) (switch_of r)\<rparr>)) (tables p)\<rparr>"

definition set_disabled :: "bool \<Rightarrow> correction \<Rightarrow> correction" where
  "set_disabled b c = c\<lparr>cdisabled := b, hidecorrection := b\<rparr>"

text \<open>Focus on a field that shows its hint, and leaving a field of class \<open>correction\<close>.\<close>

definition focus_hint :: "item \<Rightarrow> item" where
  "focus_hint r =
     (case correction_of r of
        Some c \<Rightarrow>
          if hint c
          then r\<lparr>correction_of := Some (c\<lparr>hint := False, preservedHint := Some (cvalue c), cvalue := []\<rparr>),
                 correction_error := False\<rparr>
          else r
      | None \<Rightarrow> r)"

definition blur_correction :: "item \<Rightarrow> item" where
  "blur_correction r =
     (case correction_of r of
        Some c \<Rightarrow>
          (case preservedHint c of
             Some h \<Rightarrow> if cvalue c = [] \<and> h \<noteq> []
                       then r\<lparr>correction_of := Some (c\<lparr>hint := True, cvalue := h\<rparr>)\<rparr> else r
           | None \<Rightarrow> r)
      | None \<Rightarrow> r)"

text \<open>
  A click on one of the two buttons of a row.  Requesting a change opens the correction, approving
  closes it again.
\<close>

definition attesttoggle :: "bool \<Rightarrow> item \<Rightarrow> item" where
  "attesttoggle approve r =
     (case switch_of r of
        None \<Rightarrow> r
      | Some s \<Rightarrow>
          let s' = (if approve then s\<lparr>approve_value := ''approve'', disapprove_on := False, approve_on := True\<rparr>
                    else s\<lparr>approve_value := ''reject'', approve_on := False, disapprove_on := True\<rparr>);
              r1 = r\<lparr>switch_of := Some s', switch_error := False\<rparr>
          in (case correction_of r of
                None \<Rightarrow> r1
              | Some c \<Rightarrow>
                  if \<not> approve then r1\<lparr>correction_of := Some (set_disabled False c)\<rparr>
                  else r1\<lparr>correction_of := Some (set_disabled True c), correction_error := False\<rparr>))"

text \<open>
  The button that approves all items of a table.  The loop is over the approve buttons; every round
  closes all corrections of the table.
\<close>

definition close_corrections :: "item list \<Rightarrow> item list" where
  "close_corrections rs = map (\<lambda>r. r\<lparr>correction_of := map_option (set_disabled True) (correction_of r),
     correction_error := False\<rparr>) rs"

definition approve_row :: "nat \<Rightarrow> item list \<Rightarrow> item list" where
  "approve_row i rs =
     (case switch_of (rs ! i) of
        None \<Rightarrow> rs
      | Some s \<Rightarrow>
          let rs1 = rs[i := (rs ! i)\<lparr>switch_of := Some (s\<lparr>approve_on := True, disapprove_on := False,
                       approve_value := ''approve''\<rparr>)\<rparr>];
              rs2 = close_corrections rs1
          in rs2[i := (rs2 ! i)\<lparr>switch_error := False\<rparr>])"

definition approveall :: "item list \<Rightarrow> item list" where
  "approveall rs = fold approve_row [0..<length rs] rs"

text \<open>The check before submission: corrections first, then the decisions.\<close>

definition incomplete :: "correction \<Rightarrow> bool" where
  "incomplete c \<longleftrightarrow> \<not> hidecorrection c \<and> (hint c \<or> length (cvalue c) = 0)"

definition bad_correction :: "bool \<Rightarrow> item \<Rightarrow> bool" where
  "bad_correction selects r \<longleftrightarrow>
     (case correction_of r of None \<Rightarrow> False | Some c \<Rightarrow> is_select c = selects \<and> incomplete c)"

definition mark_correction :: "bool \<Rightarrow> item \<Rightarrow> item" where
  "mark_correction selects r =
     (case correction_of r of
        None \<Rightarrow> r
      | Some c \<Rightarrow> if is_select c = selects then r\<lparr>correction_error := incomplete c\<rparr> else r)"

definition check_corrections :: "bool \<Rightarrow> item list list \<times> bool \<Rightarrow> item list list \<times> bool" where
  "check_corrections selects st =
     (map (map (mark_correction selects)) (fst st),
      snd st \<and> \<not> list_ex (list_ex (bad_correction selects)) (fst st))"

definition undecided :: "item \<Rightarrow> bool" where
  "undecided r \<longleftrightarrow> (case switch_of r of None \<Rightarrow> False | Some s \<Rightarrow> approve_value s = [])"

definition mark_decision :: "item \<Rightarrow> item" where
  "mark_decision r = (if switch_of r = None then r else r\<lparr>switch_error := undecided r\<rparr>)"

definition check_decisions :: "item list list \<times> bool \<Rightarrow> item list list \<times> bool" where
  "check_decisions st =
     (map (map mark_decision) (fst st), snd st \<and> \<not> list_ex (list_ex undecided) (fst st))"

definition submit_message :: string where
  "submit_message = ''You must specify approve or request changes for each item.''"

definition attest_submit :: "attest_page \<Rightarrow> attest_page \<times> bool" where
  "attest_submit p =
     (let (ts, dosubmit) =
        check_decisions (check_corrections True (check_corrections False (tables p, True)))
      in (p\<lparr>tables := ts, messages := messages p @ (if dosubmit then [] else [submit_message])\<rparr>, dosubmit))"

definition build_approve_correct :: "string \<Rightarrow> html" where
  "build_approve_correct newid =
     Html (new_el ''input'' [(''name'', newid), (''id'', newid), (''value'', ''enter correction'')]
       [''correction'', ''hint'']) []"

section \<open>The user's events\<close>

text \<open>
  What a user can do: click a button, focus or leave a correction, and type into one that is
  enabled and no longer shows its hint (choosing an option of a select included).
\<close>

datatype event =
    Toggle nat nat bool
  | ApproveAll nat
  | FocusField nat nat
  | LeaveField nat nat
  | Type nat nat string
  | Submit

definition at_row :: "nat \<Rightarrow> nat \<Rightarrow> (item \<Rightarrow> item) \<Rightarrow> item list list \<Rightarrow> item list list" where
  "at_row t i f ts = (if t < length ts \<and> i < length (ts ! t) then ts[t := (ts ! t)[i := f (ts ! t ! i)]] else ts)"

definition type_text :: "string \<Rightarrow> item \<Rightarrow> item" where
  "type_text s r =
     (case correction_of r of
        Some c \<Rightarrow> if cdisabled c \<or> hint c then r else r\<lparr>correction_of := Some (c\<lparr>cvalue := s\<rparr>)\<rparr>
      | None \<Rightarrow> r)"

fun attest_step :: "event \<Rightarrow> attest_page \<Rightarrow> attest_page" where
  "attest_step (Toggle t i b) p = p\<lparr>tables := at_row t i (attesttoggle b) (tables p)\<rparr>"
| "attest_step (ApproveAll t) p =
     (if t < length (tables p) then p\<lparr>tables := (tables p)[t := approveall (tables p ! t)]\<rparr> else p)"
| "attest_step (FocusField t i) p = p\<lparr>tables := at_row t i focus_hint (tables p)\<rparr>"
| "attest_step (LeaveField t i) p = p\<lparr>tables := at_row t i blur_correction (tables p)\<rparr>"
| "attest_step (Type t i s) p = p\<lparr>tables := at_row t i (type_text s) (tables p)\<rparr>"
| "attest_step Submit p = fst (attest_submit p)"

section \<open>Decisions\<close>

text \<open>
  The decision a row shows: none, approved, or a change requested.  A row as the server sends it has no
  decision and a hidden correction that shows a hint.
\<close>

datatype decision = Undecided | Approved | ChangeRequested

definition open_correction :: "item \<Rightarrow> bool" where
  "open_correction r \<longleftrightarrow> (\<exists>c. correction_of r = Some c \<and> \<not> hidecorrection c)"

definition in_state :: "decision \<Rightarrow> item \<Rightarrow> bool" where
  "in_state d r \<longleftrightarrow>
     (case switch_of r of
        None \<Rightarrow> False
      | Some s \<Rightarrow>
          (case d of
             Undecided \<Rightarrow> approve_value s = [] \<and> \<not> approve_on s \<and> \<not> disapprove_on s \<and> \<not> open_correction r
           | Approved \<Rightarrow> approve_value s = ''approve'' \<and> approve_on s \<and> \<not> disapprove_on s
               \<and> \<not> open_correction r \<and> (\<forall>c. correction_of r = Some c \<longrightarrow> cdisabled c)
           | ChangeRequested \<Rightarrow> approve_value s = ''reject'' \<and> \<not> approve_on s \<and> disapprove_on s
               \<and> (\<forall>c. correction_of r = Some c \<longrightarrow> \<not> hidecorrection c \<and> \<not> cdisabled c)))"

definition hint_ok :: "item \<Rightarrow> bool" where
  "hint_ok r \<longleftrightarrow> (\<forall>c. correction_of r = Some c \<longrightarrow>
     (hint c \<longrightarrow> cvalue c = ''enter correction'')
     \<and> preservedHint c \<in> {None, Some ''enter correction''})"

definition item_ok :: "item \<Rightarrow> bool" where
  "item_ok r \<longleftrightarrow> hint_ok r \<and>
     (case switch_of r of None \<Rightarrow> \<not> open_correction r
      | Some _ \<Rightarrow> in_state Undecided r \<or> in_state Approved r \<or> in_state ChangeRequested r)"

definition as_sent :: "item \<Rightarrow> bool" where
  "as_sent r \<longleftrightarrow> \<not> open_correction r \<and> hint_ok r
     \<and> (case switch_of r of None \<Rightarrow> True | Some s \<Rightarrow> \<not> approve_on s \<and> \<not> disapprove_on s)"

lemmas item_simps = item_ok_def hint_ok_def in_state_def open_correction_def set_disabled_def

lemma item_ok_ready:
  "as_sent r \<Longrightarrow> item_ok (r\<lparr>switch_of := map_option (\<lambda>s. s\<lparr>approve_value := []\<rparr>) (switch_of r)\<rparr>)"
  by (auto simp: as_sent_def item_simps split: option.splits)

lemma item_ok_toggle: "item_ok r \<Longrightarrow> item_ok (attesttoggle b r)"
  by (cases "switch_of r"; cases "correction_of r")
    (auto simp: attesttoggle_def item_simps Let_def)

lemma item_ok_focus: "item_ok r \<Longrightarrow> item_ok (focus_hint r)"
  by (cases "switch_of r"; cases "correction_of r")
    (auto simp: focus_hint_def item_simps)

lemma item_ok_blur: "item_ok r \<Longrightarrow> item_ok (blur_correction r)"
  by (cases "switch_of r"; cases "correction_of r")
    (auto simp: blur_correction_def item_simps split: option.split)

lemma item_ok_type: "item_ok r \<Longrightarrow> item_ok (type_text s r)"
  by (cases "switch_of r"; cases "correction_of r")
    (auto simp: type_text_def item_simps)


section \<open>Approving a whole table\<close>

definition closed_row :: "item \<Rightarrow> item" where
  "closed_row r = r\<lparr>correction_of := map_option (set_disabled True) (correction_of r), correction_error := False\<rparr>"

definition approved_row :: "item \<Rightarrow> item" where
  "approved_row r =
     (case switch_of r of None \<Rightarrow> r
      | Some s \<Rightarrow> r\<lparr>switch_of := Some (s\<lparr>approve_on := True, disapprove_on := False,
          approve_value := ''approve''\<rparr>), switch_error := False\<rparr>)"

lemma closed_row_idem [simp]: "closed_row (closed_row r) = closed_row r"
  by (cases "correction_of r") (simp_all add: closed_row_def set_disabled_def)

lemma closed_row_switch [simp]: "switch_of (closed_row r) = switch_of r"
  by (simp add: closed_row_def)

lemma approved_closed [simp]: "approved_row (closed_row r) = closed_row (approved_row r)"
  by (cases "switch_of r") (simp_all add: approved_row_def closed_row_def)

lemma switch_approved [simp]: "switch_of (approved_row r) = None \<longleftrightarrow> switch_of r = None"
  by (cases "switch_of r") (simp_all add: approved_row_def)

lemma switch_approved_ex [simp]:
  "(\<exists>y. switch_of (approved_row r) = Some y) \<longleftrightarrow> (\<exists>y. switch_of r = Some y)"
  by (cases "switch_of r") (simp_all add: approved_row_def)

lemma approve_row_alt:
  assumes "i < length rs"
  shows "approve_row i rs =
     (if switch_of (rs ! i) = None then rs else map closed_row (rs[i := approved_row (rs ! i)]))"
proof (cases "switch_of (rs ! i)")
  case (Some s)
  then show ?thesis
    using assms
    by (auto simp: approve_row_def Let_def close_corrections_def approved_row_def closed_row_def
        nth_list_update intro!: nth_equalityI)
qed (simp add: approve_row_def)

lemma approveall_prefix:
  "k \<le> length rs \<Longrightarrow> fold approve_row [0..<k] rs =
     (if \<exists>j < k. switch_of (rs ! j) \<noteq> None
      then map (\<lambda>i. closed_row (if i < k then approved_row (rs ! i) else rs ! i)) [0..<length rs]
      else rs)"
proof (induction k)
  case (Suc k)
  let ?m = "\<lambda>k. map (\<lambda>i. closed_row (if i < k then approved_row (rs ! i) else rs ! i)) [0..<length rs]"
  from Suc.prems have k: "k < length rs" by simp
  have app: "approved_row r = r" if "switch_of r = None" for r
    using that by (simp add: approved_row_def)
  have one: "approve_row k (?m k) = ?m (Suc k)"
  proof (cases "switch_of (rs ! k) = None")
    case True
    then show ?thesis
      using k approve_row_alt [of k "?m k"] app by (auto simp: less_Suc_eq intro!: map_cong)
  next
    case False
    then show ?thesis
      using k approve_row_alt [of k "?m k"]
      by (auto simp: nth_list_update less_Suc_eq intro!: nth_equalityI)
  qed
  have none: "approve_row k rs = ?m (Suc k)"
    if "\<forall>j < k. switch_of (rs ! j) = None" "switch_of (rs ! k) \<noteq> None"
    using that k approve_row_alt [of k rs] app
    by (auto simp: nth_list_update less_Suc_eq intro!: nth_equalityI)
  have IH: "fold approve_row [0..<k] rs = (if \<exists>j < k. switch_of (rs ! j) \<noteq> None then ?m k else rs)"
    using Suc.IH [OF less_imp_le_nat [OF k]] .
  have step: "fold approve_row [0..<Suc k] rs = approve_row k (fold approve_row [0..<k] rs)" by simp
  show ?case
  proof (cases "\<exists>j < k. switch_of (rs ! j) \<noteq> None")
    case True
    then have "\<exists>j < Suc k. switch_of (rs ! j) \<noteq> None" by (meson less_SucI)
    then show ?thesis unfolding step IH if_P [OF True] one by (simp only: if_True)
  next
    case False
    show ?thesis
    proof (cases "switch_of (rs ! k) = None")
      case True
      then have "\<not> (\<exists>j < Suc k. switch_of (rs ! j) \<noteq> None)" using False by (metis less_SucE)
      then show ?thesis
        unfolding step IH if_not_P [OF False] using if_P [OF True] approve_row_alt [OF k] True by auto
    next
      case fst: False
      then have "\<exists>j < Suc k. switch_of (rs ! j) \<noteq> None" by blast
      then show ?thesis
        unfolding step IH if_not_P [OF False] using none False fst by (simp only: if_True) blast
    qed
  qed
qed simp

lemma approveall_is:
  "approveall rs =
     (if \<exists>r \<in> set rs. switch_of r \<noteq> None then map (\<lambda>r. closed_row (approved_row r)) rs else rs)"
proof -
  have "map (\<lambda>i. closed_row (if i < length rs then approved_row (rs ! i) else rs ! i)) [0..<length rs]
      = map (\<lambda>r. closed_row (approved_row r)) rs"
    by (rule nth_equalityI) simp_all
  moreover have "(\<exists>j < length rs. switch_of (rs ! j) \<noteq> None) \<longleftrightarrow> (\<exists>r \<in> set rs. switch_of r \<noteq> None)"
    unfolding in_set_conv_nth Bex_def by blast
  ultimately show ?thesis
    unfolding approveall_def approveall_prefix [OF le_refl] by presburger
qed

lemma item_ok_approved: "item_ok r \<Longrightarrow> item_ok (closed_row (approved_row r))"
  by (cases "switch_of r"; cases "correction_of r")
    (auto simp: closed_row_def approved_row_def item_simps)

section \<open>Sessions\<close>

definition page_items_ok :: "attest_page \<Rightarrow> bool" where
  "page_items_ok p \<longleftrightarrow> (\<forall>ts \<in> set (tables p). \<forall>r \<in> set ts. item_ok r)"

inductive attest_run :: "attest_page \<Rightarrow> attest_page \<Rightarrow> bool" for p0 where
  load: "attest_run p0 (attest_ready p0)"
| event: "attest_run p0 p \<Longrightarrow> attest_run p0 (attest_step e p)"

lemma at_row_ok:
  assumes "\<forall>ts \<in> set tss. \<forall>r \<in> set ts. item_ok r" "\<And>r. item_ok r \<Longrightarrow> item_ok (f r)"
  shows "\<forall>ts \<in> set (at_row t i f tss). \<forall>r \<in> set ts. item_ok r"
proof (cases "t < length tss \<and> i < length (tss ! t)")
  case True
  then have t: "\<forall>r \<in> set (tss ! t). item_ok r" using assms(1) nth_mem by blast
  then have "item_ok (f (tss ! t ! i))" using True by (intro assms(2)) simp
  then have "\<forall>r \<in> set ((tss ! t)[i := f (tss ! t ! i)]). item_ok r" by (rule all_update [OF t])
  then show ?thesis using True all_update [OF assms(1)] by (simp add: at_row_def)
qed (use assms(1) in \<open>auto simp: at_row_def\<close>)

lemma item_ok_errors [simp]:
  "item_ok (r\<lparr>correction_error := b\<rparr>) = item_ok r" "item_ok (r\<lparr>switch_error := b\<rparr>) = item_ok r"
  by (simp_all add: item_simps cong: option.case_cong)

definition incomplete_item :: "item \<Rightarrow> bool" where
  "incomplete_item r \<longleftrightarrow> (\<exists>c. correction_of r = Some c \<and> incomplete c)"

definition marked :: "item \<Rightarrow> item" where
  "marked r = mark_decision (mark_correction True (mark_correction False r))"

lemma mark_correction_fields [simp]:
  "switch_of (mark_correction b r) = switch_of r"
  "correction_of (mark_correction b r) = correction_of r"
  "undecided (mark_correction b r) = undecided r"
  "bad_correction c (mark_correction b r) = bad_correction c r"
  by (auto simp: mark_correction_def undecided_def bad_correction_def split: option.split)

lemma marked_fields [simp]:
  "switch_of (marked r) = switch_of r" "correction_of (marked r) = correction_of r"
  "switch_of r \<noteq> None \<Longrightarrow> switch_error (marked r) = undecided r"
  "correction_of r \<noteq> None \<Longrightarrow> correction_error (marked r) = incomplete_item r"
  by (cases "correction_of r"; cases "switch_of r";
      simp add: marked_def mark_decision_def mark_correction_def undecided_def incomplete_item_def)+

lemma list_ex_map: "list_ex P (map f xs) = list_ex (\<lambda>x. P (f x)) xs"
  by (induction xs) auto

definition all_fine :: "attest_page \<Rightarrow> bool" where
  "all_fine p \<longleftrightarrow> (\<forall>ts \<in> set (tables p). \<forall>r \<in> set ts. \<not> undecided r \<and> \<not> incomplete_item r)"

lemma attest_submit_is:
  "attest_submit p =
     (p\<lparr>tables := map (map marked) (tables p),
        messages := messages p @ (if all_fine p then [] else [submit_message])\<rparr>, all_fine p)"
proof -
  have i: "incomplete_item r \<longleftrightarrow> bad_correction False r \<or> bad_correction True r" for r
    by (cases "correction_of r") (auto simp: incomplete_item_def bad_correction_def)
  have a: "all_fine p \<longleftrightarrow> \<not> list_ex (list_ex (bad_correction False)) (tables p)
      \<and> \<not> list_ex (list_ex (bad_correction True)) (tables p)
      \<and> \<not> list_ex (list_ex undecided) (tables p)"
    unfolding all_fine_def i list_ex_iff by blast
  have m: "map (map mark_decision) (map (map (mark_correction True)) (map (map (mark_correction False)) ts))
      = map (map marked) ts" for ts
    by (simp add: marked_def comp_def)
  show ?thesis
    unfolding attest_submit_def check_decisions_def check_corrections_def fst_conv snd_conv m a
    by (simp add: list_ex_map)
qed

lemma item_ok_marked [simp]: "item_ok (marked r) = item_ok r"
  by (simp add: item_simps cong: option.case_cong)

lemma attest_step_ok:
  assumes "page_items_ok p"
  shows "page_items_ok (attest_step e p)"
proof -
  have all: "\<forall>ts \<in> set (tables p). \<forall>r \<in> set ts. item_ok r"
    using assms by (simp only: page_items_ok_def)
  have row: "page_items_ok (p\<lparr>tables := at_row t i f (tables p)\<rparr>)"
    if "\<And>r. item_ok r \<Longrightarrow> item_ok (f r)" for t i f
    unfolding page_items_ok_def using at_row_ok [OF all that] by simp
  show ?thesis
  proof (cases e)
    case (ApproveAll t)
    have "\<forall>r \<in> set (approveall ts). item_ok r" if "ts \<in> set (tables p)" for ts
      using all that item_ok_approved unfolding approveall_is by auto
    then have "t < length (tables p) \<Longrightarrow> \<forall>r \<in> set (approveall (tables p ! t)). item_ok r"
      using nth_mem by blast
    then have "t < length (tables p) \<Longrightarrow>
        \<forall>ts \<in> set ((tables p)[t := approveall (tables p ! t)]). \<forall>r \<in> set ts. item_ok r"
      using all_update [OF all] by blast
    then show ?thesis using all ApproveAll by (auto simp: page_items_ok_def)
  next
    case Submit
    then show ?thesis using all by (auto simp: page_items_ok_def attest_submit_is)
  qed (simp_all only: attest_step.simps row item_ok_toggle item_ok_focus item_ok_blur item_ok_type)
qed

text \<open>
  C16: At every moment of a session on the approval page, whatever buttons are clicked, fields are edited
  and submissions tried, an item with buttons is in one of three states, on which the hidden field, the
  two buttons and the correction agree: undecided, approved with the correction closed, or a change
  requested with the correction open and editable.
\<close>

theorem attest_states:
  assumes "\<forall>ts \<in> set (tables p0). \<forall>r \<in> set ts. as_sent r" "attest_run p0 p"
    and "ts \<in> set (tables p)" "r \<in> set ts" "switch_of r \<noteq> None"
  shows "in_state Undecided r \<or> in_state Approved r \<or> in_state ChangeRequested r"
proof -
  from assms(2) have "page_items_ok p"
  proof induction
    case load
    then show ?case using assms(1) item_ok_ready by (auto simp: page_items_ok_def attest_ready_def)
  qed (rule attest_step_ok)
  then have "item_ok r" using assms(3,4) by (simp add: page_items_ok_def)
  then show ?thesis using assms(5) by (auto simp: item_ok_def)
qed


text \<open>
  A click on one of an item's buttons gives the item the decision of that button, whatever it was,
  and leaves every other item of the page alone.
\<close>

theorem toggle_decides:
  assumes "item_ok (tables p ! t ! i)" "t < length (tables p)" "i < length (tables p ! t)"
    and "switch_of (tables p ! t ! i) \<noteq> None" "p' = attest_step (Toggle t i b) p"
  shows "in_state (if b then Approved else ChangeRequested) (tables p' ! t ! i)
     \<and> (\<forall>u j. (u, j) \<noteq> (t, i) \<and> u < length (tables p) \<and> j < length (tables p ! u) \<longrightarrow>
          tables p' ! u ! j = tables p ! u ! j)"
proof -
  have "in_state (if b then Approved else ChangeRequested) (attesttoggle b r)"
    if "item_ok r" "switch_of r \<noteq> None" for r
    using that
    by (cases "switch_of r"; cases "correction_of r") (auto simp: attesttoggle_def item_simps Let_def)
  then show ?thesis using assms by (auto simp: at_row_def nth_list_update)
qed

text \<open>
  The button for a whole table approves every item of the table that has buttons and closes every
  correction, in one click, and touches no other table.
\<close>

theorem approve_all_decides:
  assumes "t < length (tables p)" "r \<in> set (tables p ! t)" "switch_of r \<noteq> None"
    and "p' = attest_step (ApproveAll t) p"
  shows "(\<forall>x \<in> set (tables p' ! t). \<not> open_correction x \<and> (switch_of x \<noteq> None \<longrightarrow> in_state Approved x))
     \<and> length (tables p' ! t) = length (tables p ! t)
     \<and> (\<forall>u. u \<noteq> t \<longrightarrow> tables p' ! u = tables p ! u)"
proof -
  have ex: "\<exists>r \<in> set (tables p ! t). switch_of r \<noteq> None" using assms(2,3) by blast
  have one: "\<not> open_correction (closed_row (approved_row x))
      \<and> (switch_of (closed_row (approved_row x)) \<noteq> None \<longrightarrow> in_state Approved (closed_row (approved_row x)))" for x
    by (cases "switch_of x"; cases "correction_of x")
      (auto simp: closed_row_def approved_row_def item_simps)
  have "tables p' ! t = map (\<lambda>r. closed_row (approved_row r)) (tables p ! t)"
    using assms(1,4) by (simp only: attest_step.simps if_True approveall_is if_P [OF ex]) simp
  then show ?thesis using assms(1,4) one by simp
qed

section \<open>Submission\<close>

definition complete :: "item \<Rightarrow> bool" where
  "complete r \<longleftrightarrow> (switch_of r \<noteq> None \<longrightarrow> in_state Approved r
     \<or> in_state ChangeRequested r \<and> (\<forall>c. correction_of r = Some c \<longrightarrow> cvalue c \<noteq> [] \<and> \<not> hint c))"

lemma complete_iff:
  assumes "item_ok r"
  shows "complete r \<longleftrightarrow> \<not> undecided r \<and> \<not> incomplete_item r"
  using assms
  by (cases "switch_of r"; cases "correction_of r")
    (auto simp: complete_def undecided_def incomplete_item_def incomplete_def item_simps)

text \<open>
  C6: The form is submitted exactly when every item with buttons is approved, or has a change requested
  with a correction that is neither empty nor the hint.  Otherwise the user is told, and the items at
  fault are the ones marked: the cell of the decision where it is missing, the cell of the correction
  where it is.
\<close>

theorem submission_complete:
  assumes "page_items_ok p" "attest_submit p = (p', sent)"
  shows "(sent \<longleftrightarrow> (\<forall>ts \<in> set (tables p). \<forall>r \<in> set ts. complete r))
     \<and> (sent \<longleftrightarrow> messages p' = messages p)
     \<and> (\<forall>t < length (tables p). \<forall>i < length (tables p ! t).
          let r = tables p ! t ! i; r' = tables p' ! t ! i in
          switch_of r' = switch_of r \<and> correction_of r' = correction_of r
          \<and> (switch_of r \<noteq> None \<longrightarrow> switch_error r' = in_state Undecided r)
          \<and> (correction_of r \<noteq> None \<longrightarrow> correction_error r' = incomplete_item r))"
proof -
  have ok: "item_ok (tables p ! t ! i)" if "t < length (tables p)" "i < length (tables p ! t)" for t i
  proof -
    have "tables p ! t \<in> set (tables p)" "tables p ! t ! i \<in> set (tables p ! t)" using that by simp_all
    then show ?thesis using assms(1) unfolding page_items_ok_def by blast
  qed
  have und: "undecided r = in_state Undecided r" if "item_ok r" "switch_of r \<noteq> None" for r
  proof -
    from \<open>switch_of r \<noteq> None\<close> obtain s where s: "switch_of r = Some s" by blast
    have "in_state Undecided r \<or> in_state Approved r \<or> in_state ChangeRequested r"
      using \<open>item_ok r\<close> s by (simp add: item_ok_def)
    then show ?thesis by (auto simp: undecided_def in_state_def s)
  qed
  have p': "p' = p\<lparr>tables := map (map marked) (tables p),
        messages := messages p @ (if all_fine p then [] else [submit_message])\<rparr>" "sent = all_fine p"
    using assms(2) by (auto simp: attest_submit_is)
  have "all_fine p \<longleftrightarrow> (\<forall>ts \<in> set (tables p). \<forall>r \<in> set ts. complete r)"
    using assms(1) complete_iff unfolding all_fine_def page_items_ok_def by blast
  moreover have "all_fine p \<longleftrightarrow> messages p' = messages p" by (simp add: p')
  moreover have "let r = tables p ! t ! i; r' = tables p' ! t ! i in
          switch_of r' = switch_of r \<and> correction_of r' = correction_of r
          \<and> (switch_of r \<noteq> None \<longrightarrow> switch_error r' = in_state Undecided r)
          \<and> (correction_of r \<noteq> None \<longrightarrow> correction_error r' = incomplete_item r)"
    if "t < length (tables p)" "i < length (tables p ! t)" for t i
  proof -
    have "tables p' ! t ! i = marked (tables p ! t ! i)" using that by (simp add: p')
    then show ?thesis
      using und [OF ok [OF that]] unfolding Let_def
      by (simp only: marked_fields(1,2)) (metis marked_fields(3,4))
  qed
  ultimately show ?thesis using p'(2) by blast
qed


section \<open>A page the theorems apply to\<close>

definition demo_item :: item where
  "demo_item = \<lparr>switch_of = Some \<lparr>approve_value = [], approve_on = False, disapprove_on = False\<rparr>,
     correction_of = Some \<lparr>is_select = False, cvalue = ''enter correction'', hint = True,
       preservedHint = None, cdisabled = False, hidecorrection = True\<rparr>,
     switch_error = False, correction_error = False\<rparr>"

definition demo_attest :: attest_page where
  "demo_attest = \<lparr>tables = [[demo_item, demo_item], [demo_item]], messages = []\<rparr>"

definition demo_clicks :: attest_page where
  "demo_clicks = attest_step (Toggle 0 1 False) (attest_ready demo_attest)"

lemma demo_as_sent: "\<forall>ts \<in> set (tables demo_attest). \<forall>r \<in> set ts. as_sent r"
  by (simp add: demo_attest_def demo_item_def as_sent_def item_simps)

lemma demo_run: "attest_run demo_attest demo_clicks"
  unfolding demo_clicks_def by (intro attest_run.intros)

lemma demo_ready_ok: "page_items_ok (attest_ready demo_attest)"
  by (simp add: demo_attest_def demo_item_def attest_ready_def page_items_ok_def item_simps)

theorem attest_states_witness:
  "let r = tables demo_clicks ! 0 ! 1 in
     in_state Undecided r \<or> in_state Approved r \<or> in_state ChangeRequested r"
proof -
  have "tables demo_clicks ! 0 \<in> set (tables demo_clicks)"
    "tables demo_clicks ! 0 ! 1 \<in> set (tables demo_clicks ! 0)"
    "switch_of (tables demo_clicks ! 0 ! 1) \<noteq> None"
    by (simp_all add: demo_clicks_def demo_attest_def demo_item_def attest_ready_def at_row_def
        attesttoggle_def Let_def)
  from attest_states [OF demo_as_sent demo_run this] show ?thesis by (simp add: Let_def)
qed

theorem toggle_decides_witness:
  "in_state ChangeRequested (tables demo_clicks ! 0 ! 1) \<and> \<not> in_state ChangeRequested (tables demo_attest ! 0 ! 1)"
proof -
  have "in_state ChangeRequested (tables demo_clicks ! 0 ! 1)"
    using toggle_decides [of "attest_ready demo_attest" 0 1 demo_clicks False] demo_ready_ok
    by (simp add: demo_clicks_def page_items_ok_def attest_ready_def demo_attest_def demo_item_def)
  then show ?thesis by (simp add: demo_attest_def demo_item_def item_simps)
qed

theorem approve_all_decides_witness:
  "\<exists>x. tables (attest_step (ApproveAll 0) demo_clicks) ! 0 ! 1 = x \<and> \<not> open_correction x"
proof -
  have h: "0 < length (tables demo_clicks)" "tables demo_clicks ! 0 ! 0 \<in> set (tables demo_clicks ! 0)"
    "switch_of (tables demo_clicks ! 0 ! 0) \<noteq> None" "length (tables demo_clicks ! 0) = 2"
    by (simp_all add: demo_clicks_def demo_attest_def demo_item_def attest_ready_def at_row_def)
  let ?p = "attest_step (ApproveAll 0) demo_clicks"
  note * = approve_all_decides [OF h(1-3) refl]
  then have "tables ?p ! 0 ! 1 \<in> set (tables ?p ! 0)" using h(4) by (intro nth_mem) simp
  then show ?thesis using * by blast
qed

theorem submission_complete_witness:
  "\<exists>p'. attest_submit (attest_ready demo_attest) = (p', False) \<and> messages p' \<noteq> []
     \<and> switch_error (tables p' ! 0 ! 0)"
proof -
  have s: "snd (attest_submit (attest_ready demo_attest)) = False" by code_simp
  then obtain p' where p: "attest_submit (attest_ready demo_attest) = (p', False)"
    by (metis prod.collapse)
  have "switch_error (tables p' ! 0 ! 0) = in_state Undecided (tables (attest_ready demo_attest) ! 0 ! 0)"
    using submission_complete [OF demo_ready_ok p]
    by (auto simp: Let_def attest_ready_def demo_attest_def demo_item_def)
  then have "switch_error (tables p' ! 0 ! 0)"
    by (simp add: attest_ready_def demo_attest_def demo_item_def item_simps)
  moreover have "messages p' \<noteq> []"
    using submission_complete [OF demo_ready_ok p] by (simp add: attest_ready_def demo_attest_def)
  ultimately show ?thesis using p by blast
qed

end
