(* ===== verification/Toggles.thy ===== *)
theory Toggles
  imports Dom
begin

text \<open>
  \<open>updateNetworkInterfaceUI\<close> of \<open>device-utils.js\<close>: the toggle buttons of the IP Network tab.
  A toggle belongs to a network interface, to one of its netblocks or to one of the netblock's DNS
  records; its state says what a submission will do with the thing it stands for.  A click moves a
  toggle to its next state that is compatible with the state of its parent, and passes the state on
  to the toggles below it.
\<close>

section \<open>States\<close>

text \<open>\<open>states[level][state]\<close>; \<open>None\<close> is \<open>undefined\<close>.\<close>

definition states :: "string \<Rightarrow> (string \<times> string) list option" where
  "states lvl =
     map_of [(''level_network_interface'', [(''update'', ''delete''), (''delete'', ''update'')]),
             (''level_netblock'', [(''update'', ''unlink''), (''unlink'', ''delete''), (''delete'', ''update'')]),
             (''level_dns_record'', [(''update'', ''lock''), (''lock'', ''delete''), (''delete'', ''update'')])]
       lvl"

definition next_state :: "(string \<times> string) list \<Rightarrow> string option \<Rightarrow> string option" where
  "next_state tbl s = Option.bind s (map_of tbl)"

text \<open>
  Whether a state cannot stay under the parent's: \<open>changed\<close> says whether a field of the parent is
  marked as changed.
\<close>

definition refused :: "string option \<Rightarrow> bool \<Rightarrow> string option \<Rightarrow> bool" where
  "refused parent changed s \<longleftrightarrow>
     parent = Some ''delete'' \<and> s = Some ''update''
     \<or> parent = Some ''delete'' \<and> s = Some ''lock''
     \<or> parent = Some ''unlink'' \<and> s = Some ''lock''
     \<or> s = Some ''lock'' \<and> \<not> changed"

text \<open>
  The loop that looks for a state that can stay.  A toggle without a parent has no list of parent
  fields: reading it for the state \<open>lock\<close> raises a \<open>TypeError\<close>.
\<close>

partial_function (option) allowed_state ::
  "(string \<times> string) list \<Rightarrow> string option \<Rightarrow> bool option \<Rightarrow> string option \<Rightarrow> string option js option" where
  "allowed_state tbl parent changed s =
     (if s = Some ''lock'' \<and> changed = None then Some (Inl TypeError)
      else if refused parent (changed = Some True) s
      then allowed_state tbl parent changed (next_state tbl s)
      else Some (Inr s))"

section \<open>Toggles and their relatives\<close>

definition first_class :: "string \<Rightarrow> elem \<Rightarrow> string option" where
  "first_class p e = find (prefix p) (cls e)"

text \<open>\<open>document.getElementsByClassName(cs.join(' '))\<close>.\<close>

definition by_classes :: "dom \<Rightarrow> string list \<Rightarrow> elem list" where
  "by_classes d cs = filter (\<lambda>e. \<forall>c \<in> set cs. has c e) d"

definition id_classes :: "elem \<Rightarrow> string list" where
  "id_classes e = filter (prefix ''id_'') (cls e)"

definition without_prefix :: "string \<Rightarrow> string \<Rightarrow> string" where
  "without_prefix p s = (if prefix p s then drop (length p) s else s)"

text \<open>
  The parent's state and whether a field of the parent is changed; nothing for a toggle at the top.
\<close>

definition own_prefix :: "string \<Rightarrow> string" where
  "own_prefix lvl = ''id_'' @ without_prefix ''level_'' lvl"

definition parent_info :: "dom \<Rightarrow> elem \<Rightarrow> (string option \<times> bool option) js" where
  "parent_info d e =
     (case first_class ''parent_level_'' e of
        None \<Rightarrow> Inl TypeError
      | Some pl \<Rightarrow>
          if pl = ''parent_level_none'' then Inr (None, None)
          else
            (case first_class ''level_'' e of
               None \<Rightarrow> Inl TypeError
             | Some lvl \<Rightarrow>
                 let own = own_prefix lvl;
                     ids = filter (\<lambda>c. \<not> prefix own c) (id_classes e);
                     up = without_prefix ''parent_'' pl;
                     fields = by_classes d (ids @ [up, ''tracked''])
                 in (case by_classes d (ids @ [up, ''button_switch'']) of
                       [] \<Rightarrow> Inl TypeError
                     | p # _ \<Rightarrow> Inr (attrs p ''state'', Some (\<exists>x \<in> set fields. has ''changed'' x)))))"

text \<open>The state asked for: an override that is a state of the level, or the next one.\<close>

definition wanted_state :: "(string \<times> string) list \<Rightarrow> string option \<Rightarrow> string option \<Rightarrow> string option" where
  "wanted_state tbl override cur =
     (if override = None \<or> override = Some [] then next_state tbl cur
      else if the override \<in> snd ` set tbl then override else None)"

text \<open>A value that is \<open>undefined\<close> or \<open>null\<close> as the string it becomes.\<close>

definition str_of :: "string \<Rightarrow> string option \<Rightarrow> string" where
  "str_of none s = (case s of None \<Rightarrow> none | Some x \<Rightarrow> x)"

definition mark_class :: "string \<Rightarrow> string" where
  "mark_class s = ''marked_for_'' @ s"

lemma mark_no_switch [simp]: "mark_class s \<noteq> ''button_switch''" "''button_switch'' \<noteq> mark_class s"
  by (simp_all add: mark_class_def)

definition show_state :: "string list \<Rightarrow> string option \<Rightarrow> string option \<Rightarrow> nat \<Rightarrow> dom \<Rightarrow> dom" where
  "show_state level_classes cur new r d =
     (let s = str_of ''undefined'' new;
          d1 = upd r (\<lambda>x. set_attr ''state'' s (if val x \<noteq> ''new'' then x\<lparr>val := s\<rparr> else x)) d
      in upd_where (\<lambda>x. \<forall>c \<in> set level_classes. has c x)
           (\<lambda>x. let y = add_class (mark_class s) (rm_class (mark_class (str_of ''null'' cur)) x)
                in if has ''button_switch'' x then y else y\<lparr>off := (s = ''delete'')\<rparr>) d1)"

section \<open>updateNetworkInterfaceUI\<close>

text \<open>
  The function calls itself on the toggles one level below.  \<open>None\<close> is a call that has used up its
  fuel, \<open>Inl\<close> an exception.
\<close>

definition fold_js_opt :: "('a \<Rightarrow> 'd \<Rightarrow> 'd js option) \<Rightarrow> 'a list \<Rightarrow> 'd \<Rightarrow> 'd js option" where
  "fold_js_opt f xs d = foldl (\<lambda>m x. case m of Some (Inr d) \<Rightarrow> f x d | _ \<Rightarrow> m) (Some (Inr d)) xs"

fun updateNetworkInterfaceUI :: "nat \<Rightarrow> nat \<Rightarrow> string option \<Rightarrow> bool \<Rightarrow> dom \<Rightarrow> dom js option" where
  "updateNetworkInterfaceUI 0 r override propagate d = None"
| "updateNetworkInterfaceUI (Suc fuel) r override propagate d =
     (case getr d r of
        None \<Rightarrow> Some (Inl TypeError)
      | Some e \<Rightarrow>
        (case parent_info d e of
           Inl x \<Rightarrow> Some (Inl x)
         | Inr (pstate, changed) \<Rightarrow>
           (case Option.bind (first_class ''level_'' e) states of
              None \<Rightarrow> Some (Inl TypeError)
            | Some tbl \<Rightarrow>
                let cur = attrs e ''state'' in
                (case allowed_state tbl pstate changed (wanted_state tbl override cur) of
                   None \<Rightarrow> None
                 | Some (Inl x) \<Rightarrow> Some (Inl x)
                 | Some (Inr new) \<Rightarrow>
                     let lvl = the (first_class ''level_'' e);
                         ids = id_classes e;
                         children = by_classes d (ids @ [''parent_'' @ lvl, ''button_switch'']);
                         d' = show_state (ids @ [lvl]) cur new r d
                     in if \<not> propagate then Some (Inr d')
                        else fold_js_opt
                          (\<lambda>c. updateNetworkInterfaceUI fuel (ref c)
                             (if new = Some ''unlink'' then Some ''update'' else new) True)
                          children d'))))"

section \<open>The loop ends\<close>

lemma allowed_state_simps:
  "allowed_state tbl parent changed s =
     (if s = Some ''lock'' \<and> changed = None then Some (Inl TypeError)
      else if refused parent (changed = Some True) s
      then allowed_state tbl parent changed (next_state tbl s)
      else Some (Inr s))"
  by (rule allowed_state.simps)

lemma allowed_delete: "allowed_state tbl parent changed (Some ''delete'') = Some (Inr (Some ''delete''))"
  by (subst allowed_state_simps) (simp add: refused_def)

lemma allowed_unlink: "allowed_state tbl parent changed (Some ''unlink'') = Some (Inr (Some ''unlink''))"
  by (subst allowed_state_simps) (simp add: refused_def)

lemma allowed_update:
  "allowed_state tbl parent changed (Some ''update'') =
     (if parent = Some ''delete'' then allowed_state tbl parent changed (next_state tbl (Some ''update''))
      else Some (Inr (Some ''update'')))"
  by (subst allowed_state_simps) (simp add: refused_def)

lemma allowed_lock:
  "allowed_state tbl parent (Some b) (Some ''lock'') =
     (if parent = Some ''delete'' \<or> parent = Some ''unlink'' \<or> \<not> b
      then allowed_state tbl parent (Some b) (next_state tbl (Some ''lock''))
      else Some (Inr (Some ''lock'')))"
  by (subst allowed_state_simps) (simp add: refused_def)

lemmas allowed_steps = allowed_delete allowed_unlink allowed_update allowed_lock

lemma states_cases:
  assumes "states lvl = Some tbl"
  shows "(lvl = ''level_network_interface'' \<and> tbl = [(''update'', ''delete''), (''delete'', ''update'')])
    \<or> (lvl = ''level_netblock''
        \<and> tbl = [(''update'', ''unlink''), (''unlink'', ''delete''), (''delete'', ''update'')])
    \<or> (lvl = ''level_dns_record''
        \<and> tbl = [(''update'', ''lock''), (''lock'', ''delete''), (''delete'', ''update'')])"
  using assms unfolding states_def map_of.simps(2) prod.sel fun_upd_apply map_of.simps(1)
  by (metis option.inject option.distinct(1))

lemma loop_ends:
  assumes "states lvl = Some tbl" "s \<in> fst ` set tbl"
    and "changed = None \<longrightarrow> lvl = ''level_network_interface''"
  shows "\<exists>s' \<in> fst ` set tbl. allowed_state tbl parent changed (Some s) = Some (Inr (Some s'))
     \<and> \<not> refused parent (changed = Some True) (Some s')"
  using states_cases [OF assms(1)]
proof (elim disjE conjE)
  assume t: "lvl = ''level_network_interface''" "tbl = [(''update'', ''delete''), (''delete'', ''update'')]"
  then have "s = ''update'' \<or> s = ''delete''" using assms(2) by simp
  then show ?thesis
    by (elim disjE; cases "parent = Some ''delete''")
      (simp_all add: t allowed_steps next_state_def refused_def)
next
  assume t: "lvl = ''level_netblock''"
    "tbl = [(''update'', ''unlink''), (''unlink'', ''delete''), (''delete'', ''update'')]"
  then have "s = ''update'' \<or> s = ''unlink'' \<or> s = ''delete''" using assms(2) by simp
  then show ?thesis
    by (elim disjE; cases "parent = Some ''delete''")
      (simp_all add: t allowed_steps next_state_def refused_def)
next
  assume t: "lvl = ''level_dns_record''"
    "tbl = [(''update'', ''lock''), (''lock'', ''delete''), (''delete'', ''update'')]"
  then obtain b where b: "changed = Some b" using assms(3) by (cases changed) auto
  have "s = ''update'' \<or> s = ''lock'' \<or> s = ''delete''" using assms(2) t by simp
  then show ?thesis
    by (elim disjE; cases "parent = Some ''delete''"; cases "parent = Some ''unlink''"; cases b)
      (simp_all add: t b allowed_steps next_state_def refused_def)
qed

text \<open>
  C24: On every level and under whatever parent, the loop of a click comes to an end, with a state of
  the level that the parent's state and fields allow.
\<close>

theorem allowed_state_ends:
  assumes "states lvl = Some tbl" "s \<in> fst ` set tbl"
    and "changed = None \<longrightarrow> lvl = ''level_network_interface''"
  shows "\<exists>s' \<in> fst ` set tbl. allowed_state tbl parent changed (Some s) = Some (Inr (Some s'))
     \<and> \<not> refused parent (changed = Some True) (Some s')"
  by (rule loop_ends [OF assms])

theorem allowed_state_ends_witness:
  "\<exists>s' \<in> {''update'', ''lock'', ''delete''}.
     allowed_state (the (states ''level_dns_record'')) (Some ''delete'') (Some True) (Some ''update'')
       = Some (Inr (Some s')) \<and> \<not> refused (Some ''delete'') True (Some s')"
  using allowed_state_ends [of "''level_dns_record''" "the (states ''level_dns_record'')" "''update''"
      "Some True" "Some ''delete''"]
  by (auto simp: states_def)

section \<open>The markup of the tab\<close>

text \<open>
  The toggles the server writes (\<open>Device.pm\<close>): their classes name the level, the parent's level and
  the identifiers of the interface, the netblock and the record.  Scripts add classes
  \<open>marked_for_STATE\<close> behind them.
\<close>

datatype coord = NI string | NB string string | DNS string string string

fun level_of :: "coord \<Rightarrow> string" where
  "level_of (NI x) = ''level_network_interface''"
| "level_of (NB x y) = ''level_netblock''"
| "level_of (DNS x y z) = ''level_dns_record''"

fun parent_level_of :: "coord \<Rightarrow> string" where
  "parent_level_of (NI x) = ''parent_level_none''"
| "parent_level_of (NB x y) = ''parent_level_network_interface''"
| "parent_level_of (DNS x y z) = ''parent_level_netblock''"

fun ids_of :: "coord \<Rightarrow> string list" where
  "ids_of (NI x) = [''id_network_interface_'' @ x]"
| "ids_of (NB x y) = [''id_network_interface_'' @ x, ''id_netblock_'' @ y]"
| "ids_of (DNS x y z) = [''id_network_interface_'' @ x, ''id_netblock_'' @ y, ''id_dns_record_'' @ z]"

fun parent_coord :: "coord \<Rightarrow> coord option" where
  "parent_coord (NI x) = None"
| "parent_coord (NB x y) = Some (NI x)"
| "parent_coord (DNS x y z) = Some (NB x y)"

definition toggle_classes :: "coord \<Rightarrow> string list" where
  "toggle_classes c = [''button_switch'', parent_level_of c, level_of c] @ ids_of c"

definition is_mark :: "string \<Rightarrow> bool" where
  "is_mark c \<longleftrightarrow> prefix ''marked_for_'' c"

definition is_toggle :: "coord \<Rightarrow> elem \<Rightarrow> bool" where
  "is_toggle c e \<longleftrightarrow> prefix (toggle_classes c) (cls e)
     \<and> list_all is_mark (drop (length (toggle_classes c)) (cls e))"

lemma is_toggle_iff: "is_toggle c e \<longleftrightarrow> (\<exists>ms. cls e = toggle_classes c @ ms \<and> list_all is_mark ms)"
  by (auto simp: is_toggle_def prefix_def)

lemma toggle_queries:
  assumes "is_toggle c e"
  shows "first_class ''parent_level_'' e = Some (parent_level_of c)"
    "first_class ''level_'' e = Some (level_of c)" "id_classes e = ids_of c" "has ''button_switch'' e"
proof -
  obtain ms where ms: "cls e = toggle_classes c @ ms" "list_all is_mark ms"
    using assms by (auto simp: is_toggle_iff)
  have "filter (prefix ''id_'') ms = []"
    using ms(2) by (auto simp: filter_empty_conv list_all_iff is_mark_def prefix_def)
  then show "id_classes e = ids_of c"
    by (cases c) (simp_all add: id_classes_def ms(1) toggle_classes_def)
  show "first_class ''parent_level_'' e = Some (parent_level_of c)"
    "first_class ''level_'' e = Some (level_of c)"
    by (cases c; simp add: first_class_def ms(1) toggle_classes_def)+
  show "has ''button_switch'' e" by (simp add: has_def ms(1) toggle_classes_def)
qed

lemma has_toggle:
  assumes "is_toggle c e" "\<not> is_mark x"
  shows "has x e \<longleftrightarrow> x \<in> set (toggle_classes c)"
  using assms by (auto simp: is_toggle_iff has_def list_all_iff)

lemma id_inj:
  "''id_network_interface_'' @ x \<in> set (toggle_classes c) \<longleftrightarrow>
     (case c of NI x' \<Rightarrow> x' = x | NB x' _ \<Rightarrow> x' = x | DNS x' _ _ \<Rightarrow> x' = x)"
  "''id_netblock_'' @ y \<in> set (toggle_classes c) \<longleftrightarrow>
     (case c of NI _ \<Rightarrow> False | NB _ y' \<Rightarrow> y' = y | DNS _ y' _ \<Rightarrow> y' = y)"
  "''id_dns_record_'' @ z \<in> set (toggle_classes c) \<longleftrightarrow> (case c of DNS _ _ z' \<Rightarrow> z' = z | _ \<Rightarrow> False)"
  by (cases c; auto simp: toggle_classes_def)+

lemma toggle_classes_inj: "is_toggle c e \<Longrightarrow> is_toggle c' e \<Longrightarrow> c = c'"
proof -
  assume "is_toggle c e" "is_toggle c' e"
  then have "ids_of c = ids_of c'" using toggle_queries(3) by metis
  then show ?thesis by (cases c; cases c') auto
qed


section \<open>The toggles of a page\<close>

text \<open>
  Every toggle button of the page is one of these, no two stand for the same thing, and the toggle
  above is there.
\<close>

definition tab_ok :: "dom \<Rightarrow> bool" where
  "tab_ok d \<longleftrightarrow> distinct (map ref d)
     \<and> (\<forall>e \<in> set d. has ''button_switch'' e \<longrightarrow> (\<exists>c. is_toggle c e))
     \<and> (\<forall>e \<in> set d. \<forall>e' \<in> set d. \<forall>c. is_toggle c e \<and> is_toggle c e' \<longrightarrow> e = e')
     \<and> (\<forall>e \<in> set d. \<forall>c p. is_toggle c e \<and> parent_coord c = Some p \<longrightarrow> (\<exists>e' \<in> set d. is_toggle p e'))"

text \<open>The table of a level, and the state of a toggle.\<close>

definition table_of :: "string \<Rightarrow> (string \<times> string) list" where
  "table_of lvl = the (states lvl)"

definition state_of :: "dom \<Rightarrow> coord \<Rightarrow> string option" where
  "state_of d c = Option.bind (find (is_toggle c) d) (\<lambda>e. attrs e ''state'')"

definition valid_states :: "dom \<Rightarrow> bool" where
  "valid_states d \<longleftrightarrow> (\<forall>e \<in> set d. \<forall>c. is_toggle c e \<longrightarrow>
     (\<exists>s. attrs e ''state'' = Some s \<and> s \<in> fst ` set (table_of (level_of c))))"

text \<open>A child's state can stay under its parent's.\<close>

definition edge_ok :: "dom \<Rightarrow> coord \<Rightarrow> bool" where
  "edge_ok d c \<longleftrightarrow> (case parent_coord c of None \<Rightarrow> True | Some p \<Rightarrow> \<not> refused (state_of d p) True (state_of d c))"

fun depth :: "coord \<Rightarrow> nat" where
  "depth (NI x) = 0" | "depth (NB x y) = 1" | "depth (DNS x y z) = 2"

lemma depth_parent: "parent_coord c = Some p \<Longrightarrow> depth c = Suc (depth p)"
  by (cases c) auto

text \<open>
  The toggles are ordered: \<open>c \<le> c'\<close> when \<open>c'\<close> is \<open>c\<close> or stands below it.
\<close>

instantiation coord :: order
begin

function less_eq_coord :: "coord \<Rightarrow> coord \<Rightarrow> bool" where
  "less_eq_coord c c' \<longleftrightarrow> c' = c \<or> (case parent_coord c' of None \<Rightarrow> False | Some p \<Rightarrow> less_eq_coord c p)"
  by pat_completeness auto
termination
  by (relation "measure (\<lambda>(c, c'). depth c')") (auto simp: depth_parent)

definition less_coord :: "coord \<Rightarrow> coord \<Rightarrow> bool" where
  "less_coord c c' \<longleftrightarrow> c \<le> c' \<and> \<not> c' \<le> c"

declare less_eq_coord.simps [simp del]

lemma below_self: "c \<le> (c::coord)"
  by (simp add: less_eq_coord.simps)

lemma below_depth: "c \<le> c' \<Longrightarrow> depth c \<le> depth c'"
  by (induction c c' rule: less_eq_coord.induct) (subst (asm) (2) less_eq_coord.simps, auto split: option.splits dest: depth_parent)

lemma below_parent: "parent_coord c' = Some p \<Longrightarrow> c \<le> c' \<longleftrightarrow> c' = c \<or> c \<le> p"
  by (simp add: less_eq_coord.simps [of c c'])

lemma below_child: "c \<le> c' \<Longrightarrow> c' = c \<or> (\<exists>k. parent_coord k = Some c \<and> k \<le> c')"
proof (induction c c' rule: less_eq_coord.induct)
  case (1 c c')
  show ?case
  proof (cases "parent_coord c'")
    case None
    then show ?thesis using 1(2) by (simp add: less_eq_coord.simps [of c c'])
  next
    case (Some p)
    then have "c' = c \<or> c \<le> p" using 1(2) by (simp add: below_parent)
    then show ?thesis using 1(1) [OF Some] Some below_parent [OF Some] by (metis below_self)
  qed
qed

lemma below_trans: "(a::coord) \<le> b \<Longrightarrow> b \<le> c \<Longrightarrow> a \<le> c"
proof (induction b c rule: less_eq_coord.induct)
  case (1 b c)
  show ?case
  proof (cases "parent_coord c")
    case None
    then show ?thesis using 1(2,3) less_eq_coord.simps [of b c] by simp
  next
    case (Some p)
    then show ?thesis using 1(1) [OF Some] 1(2,3) below_parent [OF Some] by metis
  qed
qed

lemma below_same_depth: "a \<le> x \<Longrightarrow> b \<le> x \<Longrightarrow> depth a = depth b \<Longrightarrow> a = b"
proof (induction a x rule: less_eq_coord.induct)
  case (1 a x)
  have no: "\<not> k \<le> p" if "parent_coord x = Some p" "depth k = depth x" for k p
    using that below_depth [of k p] depth_parent [of x p] by auto
  show ?case
  proof (cases "parent_coord x")
    case None
    then show ?thesis using 1(2,3) less_eq_coord.simps [of a x] less_eq_coord.simps [of b x] by simp
  next
    case (Some p)
    have "x = a \<or> a \<le> p" "x = b \<or> b \<le> p" using 1(2,3) below_parent [OF Some] by auto
    then show ?thesis using 1(1) [OF Some] 1(4) no [OF Some] by metis
  qed
qed

instance
proof
  fix a b c :: coord
  show "a < b \<longleftrightarrow> a \<le> b \<and> \<not> b \<le> a" by (rule less_coord_def)
  show "a \<le> a" by (rule below_self)
  show "a \<le> b \<Longrightarrow> b \<le> c \<Longrightarrow> a \<le> c" by (rule below_trans)
  show "a \<le> b \<Longrightarrow> b \<le> a \<Longrightarrow> a = b" using below_same_depth below_depth below_self by (metis le_antisym)
qed

end

lemma siblings_disjoint:
  "parent_coord a = Some c \<Longrightarrow> parent_coord b = Some c \<Longrightarrow> a \<le> x \<Longrightarrow> b \<le> x \<Longrightarrow> a = b"
  using below_same_depth depth_parent by metis

text \<open>Changes of the page that keep its toggles.\<close>

definition evolves :: "dom \<Rightarrow> dom \<Rightarrow> bool" where
  "evolves d d' \<longleftrightarrow> (\<exists>f. d' = map f d \<and> keeps f \<and> (\<forall>x \<in> set d. \<forall>c. is_toggle c (f x) = is_toggle c x)
     \<and> (\<forall>x \<in> set d. has ''button_switch'' (f x) = has ''button_switch'' x))"

lemma evolves_refl [simp]: "evolves d d"
  unfolding evolves_def by (rule exI [of _ id]) auto

lemma evolves_trans: "evolves d d' \<Longrightarrow> evolves d' d'' \<Longrightarrow> evolves d d''"
proof -
  assume "evolves d d'" "evolves d' d''"
  then obtain f g where "d' = map f d" "keeps f" "d'' = map g d'" "keeps g"
    "\<forall>x \<in> set d. \<forall>c. is_toggle c (f x) = is_toggle c x"
    "\<forall>x \<in> set d. has ''button_switch'' (f x) = has ''button_switch'' x"
    "\<forall>x \<in> set d'. \<forall>c. is_toggle c (g x) = is_toggle c x"
    "\<forall>x \<in> set d'. has ''button_switch'' (g x) = has ''button_switch'' x"
    unfolding evolves_def by blast
  then show ?thesis unfolding evolves_def
    by (intro exI [of _ "\<lambda>e. g (f e)"]) (auto intro: keeps_comp)
qed

lemma evolves_elem:
  "evolves d d' \<Longrightarrow> e \<in> set d \<Longrightarrow> is_toggle c e \<Longrightarrow> \<exists>e' \<in> set d'. ref e' = ref e \<and> is_toggle c e'"
  by (auto simp: evolves_def keeps_ref)

lemma evolves_tab:
  assumes "evolves d d'" "tab_ok d"
  shows "tab_ok d'"
proof -
  obtain f where f: "d' = map f d" "keeps f" "\<forall>x \<in> set d. \<forall>c. is_toggle c (f x) = is_toggle c x"
    "\<forall>x \<in> set d. has ''button_switch'' (f x) = has ''button_switch'' x"
    using assms(1) unfolding evolves_def by blast
  have r: "map ref d' = map ref d" using f(1,2) by (simp add: keeps_ref)
  have "\<forall>e \<in> set d'. has ''button_switch'' e \<longrightarrow> (\<exists>c. is_toggle c e)"
    using assms(2) f by (simp add: tab_ok_def)
  moreover have "e = e'" if "e \<in> set d'" "e' \<in> set d'" "is_toggle c e" "is_toggle c e'" for e e' c
  proof -
    from that(1) obtain x where "x \<in> set d" "e = f x" unfolding f(1) set_map by (rule imageE)
    moreover from that(2) obtain y where "y \<in> set d" "e' = f y" unfolding f(1) set_map by (rule imageE)
    ultimately have x: "x \<in> set d" "e = f x" "y \<in> set d" "e' = f y" by simp_all
    then have "is_toggle c x" "is_toggle c y" using that f(3) by auto
    then have "x = y" using assms(2) x(1,3) unfolding tab_ok_def by blast
    then show ?thesis using x by simp
  qed
  moreover have "\<exists>e' \<in> set d'. is_toggle p e'"
    if "e \<in> set d'" "is_toggle c e" "parent_coord c = Some p" for e c p
  proof -
    from that(1) f(1) obtain x where x: "x \<in> set d" "e = f x" by auto
    then have "is_toggle c x" using that f(3) by auto
    moreover have "\<forall>e \<in> set d. \<forall>c p. is_toggle c e \<and> parent_coord c = Some p \<longrightarrow> (\<exists>e' \<in> set d. is_toggle p e')"
      using assms(2) by (simp add: tab_ok_def)
    ultimately obtain y where "y \<in> set d" "is_toggle p y" using \<open>parent_coord c = Some p\<close> x(1) by blast
    then show ?thesis using f by auto
  qed
  moreover have "distinct (map ref d')" using assms(2) unfolding r by (simp add: tab_ok_def)
  ultimately show ?thesis unfolding tab_ok_def by blast
qed

lemma state_of_elem:
  assumes "tab_ok d" "e \<in> set d" "is_toggle c e"
  shows "state_of d c = attrs e ''state''"
proof -
  obtain x where x: "find (is_toggle c) d = Some x"
    using assms(2,3) by (cases "find (is_toggle c) d") (auto simp: find_None_iff)
  then have "x \<in> set d" "is_toggle c x" by (auto simp: find_Some_iff)
  then have "x = e" using assms unfolding tab_ok_def by blast
  then show ?thesis using x by (simp add: state_of_def)
qed

lemma state_of_none: "\<forall>e \<in> set d. \<not> is_toggle c e \<Longrightarrow> state_of d c = None"
  by (simp add: state_of_def find_None_iff [THEN iffD2])


section \<open>One toggle shows a state\<close>

definition show_one :: "string list \<Rightarrow> string option \<Rightarrow> string \<Rightarrow> nat \<Rightarrow> elem \<Rightarrow> elem" where
  "show_one lc cur s r x =
     (let y = (if ref x = r then set_attr ''state'' s (if val x \<noteq> ''new'' then x\<lparr>val := s\<rparr> else x) else x) in
      if \<forall>c \<in> set lc. has c y
      then (let z = add_class (mark_class s) (rm_class (mark_class (str_of ''null'' cur)) y)
            in if has ''button_switch'' y then z else z\<lparr>off := (s = ''delete'')\<rparr>)
      else y)"

lemma show_state_map: "show_state lc cur (Some s) r d = map (show_one lc cur s r) d"
  by (simp add: show_state_def show_one_def [abs_def] upd_def upd_where_def str_of_def Let_def comp_def)

lemma show_one_fields [simp]:
  "ref (show_one lc cur s r x) = ref x" "path (show_one lc cur s r x) = path x"
  "attrs (show_one lc cur s r x) ''state'' = (if ref x = r then Some s else attrs x ''state'')"
  by (auto simp: show_one_def Let_def)

lemma cls_upd [simp]:
  "cls (x\<lparr>val := v\<rparr>) = cls x" "cls (x\<lparr>off := b\<rparr>) = cls x"
  by simp_all

lemma toggle_no_mark: "x \<in> set (toggle_classes c) \<Longrightarrow> \<not> is_mark x"
  by (cases c) (auto simp: toggle_classes_def is_mark_def)

lemma is_toggle_add: "is_mark m \<Longrightarrow> is_toggle c x \<Longrightarrow> is_toggle c (add_class m x)"
  by (auto simp: is_toggle_iff add_class_def)

lemma is_toggle_rm:
  assumes "is_mark m" "is_toggle c x"
  shows "is_toggle c (rm_class m x)"
proof -
  obtain ms where ms: "cls x = toggle_classes c @ ms" "list_all is_mark ms"
    using assms(2) by (auto simp: is_toggle_iff)
  have "filter (\<lambda>y. y \<noteq> m) (toggle_classes c) = toggle_classes c"
    using assms(1) toggle_no_mark by (auto simp: filter_id_conv)
  then show ?thesis using ms by (auto simp: is_toggle_iff rm_class_def list_all_iff)
qed

lemma show_one_toggle: "is_toggle c x \<Longrightarrow> is_toggle c (show_one lc cur s r x)"
proof -
  assume x: "is_toggle c x"
  have m: "is_mark (mark_class t)" for t by (simp add: is_mark_def mark_class_def)
  let ?y = "if ref x = r then set_attr ''state'' s (if val x \<noteq> ''new'' then x\<lparr>val := s\<rparr> else x) else x"
  have y: "is_toggle c ?y" using x by (simp add: is_toggle_def)
  have off: "is_toggle c (z\<lparr>off := b\<rparr>) = is_toggle c z" for z b by (simp add: is_toggle_def)
  show ?thesis
    unfolding show_one_def Let_def using y
    by (simp add: off is_toggle_add [OF m] is_toggle_rm [OF m])
qed

lemma show_one_switch: "has ''button_switch'' (show_one lc cur s r x) = has ''button_switch'' x"
  by (auto simp: show_one_def Let_def)

lemma show_one_iff:
  assumes "tab_ok d" "x \<in> set d"
  shows "is_toggle c (show_one lc cur s r x) = is_toggle c x"
proof
  assume t: "is_toggle c (show_one lc cur s r x)"
  then have "has ''button_switch'' x" using toggle_queries(4) show_one_switch by metis
  then obtain c' where c': "is_toggle c' x" using assms unfolding tab_ok_def by blast
  then have "c' = c" using show_one_toggle t toggle_classes_inj by metis
  then show "is_toggle c x" using c' by simp
qed (rule show_one_toggle)

lemma show_state_ok:
  assumes "tab_ok d" "valid_states d" "e \<in> set d" "is_toggle c e" "s \<in> fst ` set (table_of (level_of c))"
    and "d' = show_state lc cur (Some s) (ref e) d"
  shows "evolves d d'" "valid_states d'"
    "state_of d' c' = (if c' = c then Some s else state_of d c')"
proof -
  let ?f = "show_one lc cur s (ref e)"
  have d': "d' = map ?f d" by (simp add: assms(6) show_state_map)
  show ev: "evolves d d'"
    unfolding evolves_def d'
    by (intro exI [of _ ?f]) (auto simp: show_one_iff [OF assms(1)] show_one_switch)
  have same: "x = e" if "x \<in> set d" "ref x = ref e" for x
    using assms(1,3) that unfolding tab_ok_def distinct_map by (metis inj_onD)
  show "valid_states d'"
    unfolding valid_states_def
  proof (intro ballI allI impI)
    fix y k assume y: "y \<in> set d'" "is_toggle k y"
    then obtain x where x: "x \<in> set d" "y = ?f x" "is_toggle k x"
      using show_one_iff [OF assms(1)] by (auto simp: d')
    show "\<exists>s. attrs y ''state'' = Some s \<and> s \<in> fst ` set (table_of (level_of k))"
    proof (cases "ref x = ref e")
      case True
      then have "k = c" using same x assms(4) toggle_classes_inj by metis
      then show ?thesis using True x(2) assms(5) by simp
    next
      case False
      then show ?thesis using assms(2) x by (simp add: valid_states_def)
    qed
  qed
  show "state_of d' c' = (if c' = c then Some s else state_of d c')"
  proof (cases "\<exists>x \<in> set d. is_toggle c' x")
    case True
    then obtain x where x: "x \<in> set d" "is_toggle c' x" by blast
    have "?f x \<in> set d'" "is_toggle c' (?f x)"
      using x show_one_toggle by (auto simp: d')
    then have "state_of d' c' = attrs (?f x) ''state''"
      by (rule state_of_elem [OF evolves_tab [OF ev assms(1)]])
    moreover have "ref x = ref e \<longleftrightarrow> c' = c"
      using same x assms(1,3,4) toggle_classes_inj unfolding tab_ok_def by metis
    ultimately show ?thesis using state_of_elem [OF assms(1) x] by simp
  next
    case False
    then have "\<forall>y \<in> set d'. \<not> is_toggle c' y" using show_one_iff [OF assms(1)] by (auto simp: d')
    then show ?thesis using False assms(3,4) by (auto simp: state_of_none)
  qed
qed

section \<open>The queries of a click\<close>

lemma by_classes_toggles:
  assumes "tab_ok d" "x \<in> set d" "''button_switch'' \<in> set cs" "\<forall>k \<in> set cs. \<not> is_mark k"
  shows "x \<in> set (by_classes d cs) \<longleftrightarrow> (\<exists>c. is_toggle c x \<and> set cs \<subseteq> set (toggle_classes c))"
proof
  assume q: "x \<in> set (by_classes d cs)"
  then have h: "\<forall>k \<in> set cs. has k x" by (simp add: by_classes_def)
  then obtain c where c: "is_toggle c x" using assms(1-3) unfolding tab_ok_def by blast
  then have "set cs \<subseteq> set (toggle_classes c)" using h assms(4) has_toggle [OF c] by blast
  with c show "\<exists>c. is_toggle c x \<and> set cs \<subseteq> set (toggle_classes c)" by blast
next
  assume "\<exists>c. is_toggle c x \<and> set cs \<subseteq> set (toggle_classes c)"
  then obtain c where c: "is_toggle c x" "set cs \<subseteq> set (toggle_classes c)" by blast
  then have "\<forall>k \<in> set cs. has k x" using assms(4) has_toggle [OF c(1)] by blast
  then show "x \<in> set (by_classes d cs)" using assms(2) by (simp add: by_classes_def)
qed

lemma parent_set:
  "parent_coord c = Some p \<Longrightarrow>
     set (ids_of p @ [level_of p, ''button_switch'']) \<subseteq> set (toggle_classes k) \<longleftrightarrow> k = p"
  by (cases c; cases k) (auto simp: toggle_classes_def)

lemma child_set:
  "set (ids_of c @ [''parent_'' @ level_of c, ''button_switch'']) \<subseteq> set (toggle_classes k) \<longleftrightarrow> parent_coord k = Some c"
  by (cases c; cases k) (auto simp: toggle_classes_def)

lemma query_no_mark:
  "\<forall>x \<in> set (ids_of p @ [level_of p, ''button_switch'']). \<not> is_mark x"
  "\<forall>x \<in> set (ids_of p @ [''parent_'' @ level_of p, ''button_switch'']). \<not> is_mark x"
  by (cases p; simp add: is_mark_def)+

lemma parent_ids:
  "parent_coord c = Some p \<Longrightarrow>
     filter (\<lambda>k. \<not> prefix (own_prefix (level_of c)) k) (ids_of c) = ids_of p"
  "parent_coord c = Some p \<Longrightarrow> without_prefix ''parent_'' (parent_level_of c) = level_of p"
  by (cases c; auto simp: without_prefix_def own_prefix_def)+

lemma parent_info_is:
  assumes "tab_ok d" "e \<in> set d" "is_toggle c e"
  shows "case parent_coord c of None \<Rightarrow> parent_info d e = Inr (None, None)
    | Some p \<Rightarrow> \<exists>b. parent_info d e = Inr (state_of d p, Some b)"
proof (cases "parent_coord c")
  case None
  then have "parent_level_of c = ''parent_level_none''" by (cases c) auto
  then show ?thesis using None by (simp add: parent_info_def toggle_queries [OF assms(3)])
next
  case (Some p)
  then have np: "parent_level_of c \<noteq> ''parent_level_none''" by (cases c) auto
  let ?q = "by_classes d (ids_of p @ [level_of p, ''button_switch''])"
  have q: "x \<in> set ?q \<longleftrightarrow> is_toggle p x" if "x \<in> set d" for x
    using by_classes_toggles [OF assms(1) that _ query_no_mark(1)] parent_set [OF Some] by simp
  have sub: "set ?q \<subseteq> set d" by (auto simp: by_classes_def)
  obtain y where y: "y \<in> set d" "is_toggle p y"
    using assms Some unfolding tab_ok_def by blast
  then have "?q \<noteq> []" using q by force
  then obtain z zs where z: "?q = z # zs" by (cases ?q) auto
  then have "z \<in> set d" "is_toggle p z" using q sub by auto
  then have "attrs z ''state'' = state_of d p" by (simp add: state_of_elem [OF assms(1)])
  then show ?thesis
    using Some np z by (simp add: parent_info_def toggle_queries [OF assms(3)] parent_ids [OF Some] Let_def)
qed


section \<open>A click\<close>

text \<open>What a call on the toggle \<open>c\<close> achieves.\<close>

definition settles :: "coord \<Rightarrow> dom \<Rightarrow> dom \<Rightarrow> bool" where
  "settles c d d' \<longleftrightarrow> evolves d d' \<and> valid_states d'
     \<and> (\<forall>k. \<not> c \<le> k \<longrightarrow> state_of d' k = state_of d k) \<and> (\<forall>k. c \<le> k \<longrightarrow> edge_ok d' k)"

definition passes_on :: "string option \<Rightarrow> bool" where
  "passes_on ov \<longleftrightarrow> ov \<in> {None, Some ''update'', Some ''delete''}"

lemma fold_js_opt_simps [simp]:
  "fold_js_opt f [] d = Some (Inr d)"
  "f x d = Some (Inr d') \<Longrightarrow> fold_js_opt f (x # xs) d = fold_js_opt f xs d'"
  by (simp_all add: fold_js_opt_def)

lemma edge_ok_same:
  assumes "\<And>k. k = c \<or> parent_coord c = Some k \<Longrightarrow> state_of d' k = state_of d k"
  shows "edge_ok d' c = edge_ok d c"
  using assms by (auto simp: edge_ok_def split: option.split)

text \<open>
  The toggles below are settled one after the other; they do not disturb each other: what a call on each
  toggle of a list of children achieves.
\<close>

definition settles_all :: "elem list \<Rightarrow> dom \<Rightarrow> dom \<Rightarrow> bool" where
  "settles_all xs d d' \<longleftrightarrow> evolves d d' \<and> valid_states d'
     \<and> (\<forall>k. (\<forall>x \<in> set xs. \<forall>j. is_toggle j x \<longrightarrow> \<not> j \<le> k) \<longrightarrow> state_of d' k = state_of d k)
     \<and> (\<forall>x \<in> set xs. \<forall>j k. is_toggle j x \<longrightarrow> j \<le> k \<longrightarrow> edge_ok d' k)"

lemma settles_allD:
  assumes "settles_all xs d d'"
  shows "evolves d d'" "valid_states d'"
    "(\<And>x j. x \<in> set xs \<Longrightarrow> is_toggle j x \<Longrightarrow> \<not> j \<le> k) \<Longrightarrow> state_of d' k = state_of d k"
    "x \<in> set xs \<Longrightarrow> is_toggle j x \<Longrightarrow> j \<le> k \<Longrightarrow> edge_ok d' k"
  using assms unfolding settles_all_def by blast+

lemma settlesD:
  assumes "settles c d d'"
  shows "evolves d d'" "valid_states d'" "\<not> c \<le> k \<Longrightarrow> state_of d' k = state_of d k"
    "c \<le> k \<Longrightarrow> edge_ok d' k"
  using assms unfolding settles_def by blast+

lemma children_apart:
  assumes "tab_ok d" "x \<in> set d" "y \<in> set d" "y \<noteq> x" "is_toggle k x" "is_toggle i y"
    and "parent_coord k = Some c" "parent_coord i = Some c" "k \<le> j \<or> j = c"
  shows "\<not> i \<le> j"
proof
  assume b: "i \<le> j"
  have "j \<noteq> c" using below_depth [OF b] depth_parent [OF assms(8)] by auto
  then have "k \<le> j" using assms(9) by blast
  then have "i = k" using siblings_disjoint [OF assms(8,7) b] by blast
  then show False using assms(1-6) unfolding tab_ok_def by blast
qed

lemma settles_then:
  assumes "tab_ok d0" "set (x # xs) \<subseteq> set d0" "distinct (x # xs)" "is_toggle k x" "parent_coord k = Some c"
    and "\<forall>y \<in> set xs. \<exists>i. is_toggle i y \<and> parent_coord i = Some c"
    and one: "settles k d d1" and rest: "settles_all xs d1 d'"
  shows "settles_all (x # xs) d d'"
proof -
  note one = settlesD [OF one] and rest = settles_allD [OF rest]
  have apart: "\<not> i \<le> j" if "y \<in> set xs" "is_toggle i y" "k \<le> j \<or> j = c" for y i j
  proof (rule children_apart [OF assms(1) _ _ _ assms(4) that(2) assms(5) _ that(3)])
    show "x \<in> set d0" using assms(2) by simp
    show "y \<in> set d0" using assms(2) that(1) by (simp add: subset_iff)
    show "y \<noteq> x" using assms(3) that(1) by auto
    obtain i' where "is_toggle i' y" "parent_coord i' = Some c" using assms(6) \<open>y \<in> set xs\<close> by blast
    then show "parent_coord i = Some c" using toggle_classes_inj [OF that(2)] by blast
  qed
  have edge: "edge_ok d' j" if "k \<le> j" for j
  proof -
    have "state_of d' i = state_of d1 i" if "i = j \<or> parent_coord j = Some i" for i
    proof (rule rest(3))
      fix y l assume y: "y \<in> set xs" "is_toggle l y"
      have "k \<le> i \<or> i = c"
      proof (cases "j = k")
        case True
        then show ?thesis using that assms(5) by auto
      next
        case False
        then show ?thesis using that \<open>k \<le> j\<close> below_parent [of j i k] by blast
      qed
      then show "\<not> l \<le> i" by (rule apart [OF y])
    qed
    then have "edge_ok d' j = edge_ok d1 j" by (rule edge_ok_same)
    then show ?thesis using one(4) [OF that] by blast
  qed
  have "state_of d' j = state_of d j" if "\<forall>y \<in> set (x # xs). \<forall>i. is_toggle i y \<longrightarrow> \<not> i \<le> j" for j
  proof -
    have "state_of d' j = state_of d1 j" by (rule rest(3)) (use that in auto)
    also have "\<dots> = state_of d j" by (rule one(3)) (use that assms(4) in auto)
    finally show ?thesis .
  qed
  moreover have "edge_ok d' i" if "y \<in> set (x # xs)" "is_toggle j y" "j \<le> i" for y j i
  proof (cases "y = x")
    case True
    then have "j = k" using toggle_classes_inj that(2) assms(4) by blast
    then show ?thesis using edge that(3) by blast
  next
    case False
    then show ?thesis using rest(4) [OF _ that(2,3)] that(1) by auto
  qed
  ultimately show ?thesis
    unfolding settles_all_def using rest(2) evolves_trans [OF one(1) rest(1)] by blast
qed

lemma settle_children:
  assumes "\<And>d x k. x \<in> set xs \<Longrightarrow> is_toggle k x \<Longrightarrow> tab_ok d \<Longrightarrow> valid_states d \<Longrightarrow>
      \<exists>e \<in> set d. ref e = ref x \<and> is_toggle k e \<Longrightarrow> \<exists>d'. F x d = Some (Inr d') \<and> settles k d d'"
    and "tab_ok d0" "set xs \<subseteq> set d0" "distinct xs"
    and "\<forall>x \<in> set xs. \<exists>k. is_toggle k x \<and> parent_coord k = Some c"
    and "evolves d0 d" "valid_states d"
  shows "\<exists>d'. fold_js_opt F xs d = Some (Inr d') \<and> settles_all xs d d'"
  using assms
proof (induction xs arbitrary: d)
  case Nil
  then show ?case by (auto simp: settles_all_def)
next
  case (Cons x xs)
  obtain k where k: "is_toggle k x" "parent_coord k = Some c" using Cons.prems(5) by auto
  have "x \<in> set d0" using Cons.prems(3) by simp
  then obtain e where e: "e \<in> set d" "ref e = ref x" "is_toggle k e"
    using evolves_elem [OF Cons.prems(6) _ k(1)] by blast
  obtain d1 where d1: "F x d = Some (Inr d1)" "settles k d d1"
    using Cons.prems(1) [OF _ k(1) evolves_tab [OF Cons.prems(6,2)] Cons.prems(7)] e by fastforce
  have "\<exists>d'. fold_js_opt F xs d1 = Some (Inr d') \<and> settles_all xs d1 d'"
  proof (rule Cons.IH [OF Cons.prems(1) Cons.prems(2)])
    show "evolves d0 d1" by (rule evolves_trans [OF Cons.prems(6) settlesD(1) [OF d1(2)]])
    show "valid_states d1" by (rule settlesD(2) [OF d1(2)])
  qed (use Cons.prems(3-5) in simp_all)
  then obtain d' where d': "fold_js_opt F xs d1 = Some (Inr d')" "settles_all xs d1 d'" by blast
  have "settles_all (x # xs) d d'"
    by (rule settles_then [OF Cons.prems(2-4) k _ d1(2) d'(2)]) (use Cons.prems(5) in simp)
  then show ?case using d1(1) d'(1) by auto
qed

text \<open>The toggles a click goes on to, and toggles that are not on the page.\<close>

lemma children_query:
  assumes "tab_ok d"
  shows "set (by_classes d (ids_of c @ [''parent_'' @ level_of c, ''button_switch'']))
       = {x \<in> set d. \<exists>k. is_toggle k x \<and> parent_coord k = Some c}"
    and "distinct (by_classes d (ids_of c @ [''parent_'' @ level_of c, ''button_switch'']))"
proof -
  let ?q = "by_classes d (ids_of c @ [''parent_'' @ level_of c, ''button_switch''])"
  have "x \<in> set ?q \<longleftrightarrow> (\<exists>k. is_toggle k x \<and> parent_coord k = Some c)" if "x \<in> set d" for x
    using by_classes_toggles [OF assms that _ query_no_mark(2)] child_set by simp
  moreover have "set ?q \<subseteq> set d" by (auto simp: by_classes_def)
  ultimately show "set ?q = {x \<in> set d. \<exists>k. is_toggle k x \<and> parent_coord k = Some c}" by blast
  have "distinct d" using assms by (auto simp: tab_ok_def distinct_map)
  then show "distinct ?q" by (simp add: by_classes_def)
qed

lemma absent_below:
  assumes "tab_ok d"
  shows "j \<le> k \<Longrightarrow> \<not> (\<exists>x \<in> set d. is_toggle j x) \<Longrightarrow> \<not> (\<exists>x \<in> set d. is_toggle k x)"
proof (induction j k rule: less_eq_coord.induct)
  case (1 j k)
  show ?case
  proof (cases "parent_coord k")
    case None
    then show ?thesis using "1.prems" less_eq_coord.simps [of j k] by simp
  next
    case (Some p)
    have up: "\<exists>e' \<in> set d. is_toggle p e'" if "x \<in> set d" "is_toggle k x" for x
      using assms that Some unfolding tab_ok_def by blast
    have "k = j \<or> j \<le> p" using "1.prems"(1) below_parent [OF Some] by blast
    then show ?thesis using "1.IH" [OF Some] "1.prems"(2) up by blast
  qed
qed

lemma evolves_absent:
  "evolves d d' \<Longrightarrow> \<not> (\<exists>x \<in> set d. is_toggle k x) \<Longrightarrow> state_of d' k = None"
  by (intro state_of_none) (auto simp: evolves_def)

lemma table_states: "states (level_of c) = Some (table_of (level_of c))"
  by (cases c) (simp_all add: table_of_def states_def)

lemma wanted_valid_table:
  assumes "states lvl = Some tbl" "passes_on ov" "s \<in> fst ` set tbl"
  shows "\<exists>w. wanted_state tbl ov (Some s) = Some w \<and> w \<in> fst ` set tbl"
proof -
  have ov: "ov = None \<or> ov = Some ''update'' \<or> ov = Some ''delete''"
    using assms(2) by (auto simp: passes_on_def)
  have out: "\<exists>w. wanted_state tbl None (Some s) = Some w \<and> w \<in> fst ` set tbl"
    using states_cases [OF assms(1)] assms(3)
    by (elim disjE conjE) (auto simp: wanted_state_def next_state_def)
  have vals: "{''update'', ''delete''} \<subseteq> snd ` set tbl" "{''update'', ''delete''} \<subseteq> fst ` set tbl"
    using states_cases [OF assms(1)] by auto
  then have "wanted_state tbl (Some w) (Some s) = Some w" if "w \<in> {''update'', ''delete''}" for w
    using that by (auto simp: wanted_state_def)
  then show ?thesis using ov out vals(2) by auto
qed

lemmas wanted_valid = wanted_valid_table [OF table_states]

lemma refused_weaken: "\<not> refused p b s \<Longrightarrow> \<not> refused p True s"
  by (auto simp: refused_def)

lemma passed_state:
  assumes "s \<in> fst ` set (table_of (level_of c))" "parent_coord k = Some c"
  shows "passes_on (if Some s = Some ''unlink'' then Some ''update'' else Some s)"
  using assms by (cases c; cases k) (auto simp: table_of_def states_def passes_on_def)

text \<open>
  A toggle that is shown in a state its parent does not refuse, and whose children are settled after that,
  is settled itself.
\<close>

lemma settles_parent:
  assumes "tab_ok d" "evolves d d1"
    and d1: "\<And>k. state_of d1 k = (if k = c then Some s else state_of d k)"
    and ok: "\<not> refused (Option.bind (parent_coord c) (state_of d)) b (Some s)"
    and q: "set q = {x \<in> set d. \<exists>k. is_toggle k x \<and> parent_coord k = Some c}"
    and rest: "settles_all q d1 d'"
  shows "settles c d d'"
proof -
  note rest = settles_allD [OF rest]
  have up: "state_of d' k = state_of d1 k" if k: "\<not> c \<le> k \<or> k = c" for k
  proof (rule rest(3), rule notI)
    fix x j assume x: "x \<in> set q" "is_toggle j x" "j \<le> k"
    have pj: "parent_coord j = Some c" using q x(1,2) toggle_classes_inj by blast
    have "k \<noteq> c" using below_depth [OF x(3)] depth_parent [OF pj] by auto
    moreover have "c \<le> j" using below_parent [OF pj] by blast
    ultimately show False using k order_trans [OF _ x(3)] by blast
  qed
  have same: "state_of d' k = state_of d k" if "\<not> c \<le> k" for k
    using up [of k] d1 [of k] that by auto
  have "edge_ok d' c"
  proof (cases "parent_coord c")
    case (Some p)
    have "\<not> c \<le> p" using below_depth [of c p] depth_parent [OF Some] by auto
    then have "state_of d' p = state_of d p" by (rule same)
    moreover have "state_of d' c = Some s" using up [of c] d1 by simp
    ultimately show ?thesis using Some refused_weaken [OF ok] by (simp add: edge_ok_def)
  qed (simp add: edge_ok_def)
  moreover have "edge_ok d' k" if "c \<le> k" "k \<noteq> c" for k
  proof -
    from below_child [OF \<open>c \<le> k\<close>] \<open>k \<noteq> c\<close> obtain j where j: "parent_coord j = Some c" "j \<le> k" by blast
    show ?thesis
    proof (cases "\<exists>x \<in> set d. is_toggle j x")
      case True
      then obtain x where "x \<in> set q" "is_toggle j x" using q j(1) by blast
      then show ?thesis by (rule rest(4) [OF _ _ j(2)])
    next
      case False
      then have "state_of d' k = None"
        by (intro evolves_absent [OF evolves_trans [OF assms(2) rest(1)]] absent_below [OF assms(1) j(2)])
      then show ?thesis by (simp add: edge_ok_def refused_def split: option.split)
    qed
  qed
  ultimately show ?thesis
    unfolding settles_def using rest(2) same evolves_trans [OF assms(2) rest(1)] by blast
qed

lemma update_settles:
  assumes "3 - depth c \<le> fuel" "tab_ok d" "valid_states d" "e \<in> set d" "is_toggle c e" "passes_on ov"
  shows "\<exists>d'. updateNetworkInterfaceUI fuel (ref e) ov True d = Some (Inr d') \<and> settles c d d'"
  using assms
proof (induction fuel arbitrary: c d e ov)
  case 0
  then show ?case by (cases c) auto
next
  case (Suc fuel)
  note tq = toggle_queries [OF Suc.prems(5)]
  let ?tbl = "table_of (level_of c)"
  have g: "getr d (ref e) = Some e"
    using Suc.prems(2,4) by (intro getr_mem) (auto simp: tab_ok_def)
  obtain s0 where s0: "attrs e ''state'' = Some s0" "s0 \<in> fst ` set ?tbl"
    using Suc.prems(3,4,5) unfolding valid_states_def by blast
  obtain w where w: "wanted_state ?tbl ov (Some s0) = Some w" "w \<in> fst ` set ?tbl"
    using wanted_valid [OF Suc.prems(6) s0(2)] by blast
  obtain ps ch where pi: "parent_info d e = Inr (ps, ch)"
    "ps = Option.bind (parent_coord c) (state_of d)" "ch = None \<longrightarrow> level_of c = ''level_network_interface''"
    using parent_info_is [OF Suc.prems(2,4,5)] by (cases c) auto
  obtain s where s: "allowed_state ?tbl ps ch (Some w) = Some (Inr (Some s))" "s \<in> fst ` set ?tbl"
    "\<not> refused ps (ch = Some True) (Some s)"
    using loop_ends [OF table_states w(2) pi(3), of ps] by blast
  let ?d1 = "show_state (ids_of c @ [level_of c]) (Some s0) (Some s) (ref e) d"
  let ?q = "by_classes d (ids_of c @ [''parent_'' @ level_of c, ''button_switch''])"
  let ?F = "\<lambda>x. updateNetworkInterfaceUI fuel (ref x)
      (if Some s = Some ''unlink'' then Some ''update'' else Some s) True"
  have run: "updateNetworkInterfaceUI (Suc fuel) (ref e) ov True d = fold_js_opt ?F ?q ?d1"
    by (simp add: g pi(1) tq table_states s0(1) w(1) s(1) Let_def del: append.simps)
  note ss = show_state_ok [OF Suc.prems(2-5) s(2) refl] and q = children_query [OF Suc.prems(2), of c]
  have IH: "\<exists>d'. ?F x d'' = Some (Inr d') \<and> settles k d'' d'"
    if "x \<in> set ?q" "is_toggle k x" "tab_ok d''" "valid_states d''"
      "\<exists>e \<in> set d''. ref e = ref x \<and> is_toggle k e" for x k d''
  proof -
    have pk: "parent_coord k = Some c" using that(1,2) toggle_classes_inj unfolding q(1) by blast
    from that(5) obtain e'' where "e'' \<in> set d''" "ref e'' = ref x" "is_toggle k e''" by blast
    moreover have "3 - depth k \<le> fuel" using Suc.prems(1) depth_parent [OF pk] by simp
    ultimately show ?thesis
      using Suc.IH [of k d'' e''] that(3,4) passed_state [OF s(2) pk] by metis
  qed
  have sub: "set ?q \<subseteq> set d" "\<forall>x \<in> set ?q. \<exists>k. is_toggle k x \<and> parent_coord k = Some c"
    unfolding q(1) by blast+
  obtain d' where d': "fold_js_opt ?F ?q ?d1 = Some (Inr d')" "settles_all ?q ?d1 d'"
    using settle_children [where F = ?F, OF IH Suc.prems(2) sub(1) q(2) sub(2) ss(1,2)] by blast
  have "settles c d d'"
    by (rule settles_parent [OF Suc.prems(2) ss(1,3) s(3) [unfolded pi(2)] q(1) d'(2)])
  then show ?case unfolding run using d'(1) by blast
qed


text \<open>
  C1: A click on a toggle of the tab always comes to an end without an exception.  Afterwards every
  toggle has a state of its level, and the states below and above each other agree (nothing is updated
  or locked under something deleted, nothing is locked under something unlinked) if they did before;
  the toggles that are neither the one clicked nor below it keep their states.
\<close>

theorem click_keeps_tab_consistent:
  assumes "tab_ok d" "valid_states d" "\<forall>k. edge_ok d k" "e \<in> set d" "is_toggle c e"
  shows "\<exists>d'. updateNetworkInterfaceUI 3 (ref e) None True d = Some (Inr d')
     \<and> tab_ok d' \<and> valid_states d' \<and> (\<forall>k. edge_ok d' k)
     \<and> (\<forall>k. \<not> c \<le> k \<longrightarrow> state_of d' k = state_of d k)"
proof -
  obtain d' where d': "updateNetworkInterfaceUI 3 (ref e) None True d = Some (Inr d')" "settles c d d'"
    using update_settles [OF _ assms(1,2,4,5), of 3 None] by (auto simp: passes_on_def)
  then have s: "evolves d d'" "valid_states d'" "\<And>k. \<not> c \<le> k \<Longrightarrow> state_of d' k = state_of d k"
    "\<And>k. c \<le> k \<Longrightarrow> edge_ok d' k"
    by (auto simp: settles_def)
  have "edge_ok d' k" for k
  proof (cases "c \<le> k")
    case False
    then have "\<not> c \<le> p" if "parent_coord k = Some p" for p using that by (simp add: below_parent)
    then have "edge_ok d' k = edge_ok d k" using False s(3) by (intro edge_ok_same) auto
    then show ?thesis using assms(3) by simp
  qed (rule s(4))
  then show ?thesis using d'(1) s evolves_tab [OF s(1) assms(1)] by blast
qed

definition demo_toggle :: "nat \<Rightarrow> coord \<Rightarrow> string \<Rightarrow> elem" where
  "demo_toggle r c s = (new_el ''button'' [(''state'', s)] (toggle_classes c))\<lparr>ref := r, val := s\<rparr>"

definition demo_tab :: dom where
  "demo_tab = [demo_toggle 1 (NI ''7'') ''update'', demo_toggle 2 (NB ''7'' ''8'') ''unlink'',
     demo_toggle 3 (DNS ''7'' ''8'' ''9'') ''update'']"

lemma demo_toggle_is: "is_toggle c (demo_toggle r k s) \<longleftrightarrow> c = k"
proof
  assume "is_toggle c (demo_toggle r k s)"
  moreover have "is_toggle k (demo_toggle r k s)" by (simp add: demo_toggle_def is_toggle_def)
  ultimately show "c = k" by (rule toggle_classes_inj)
qed (simp add: demo_toggle_def is_toggle_def)

lemma demo_tab_ok: "tab_ok demo_tab"
proof -
  have b: "\<exists>c. is_toggle c (demo_toggle r k s)" for r k s by (auto simp: demo_toggle_is)
  have "distinct (map ref demo_tab)" by (simp add: demo_tab_def demo_toggle_def)
  moreover have "\<forall>e \<in> set demo_tab. has ''button_switch'' e \<longrightarrow> (\<exists>c. is_toggle c e)"
    using b by (simp add: demo_tab_def)
  moreover have "\<forall>e \<in> set demo_tab. \<forall>e' \<in> set demo_tab. \<forall>c. is_toggle c e \<and> is_toggle c e' \<longrightarrow> e = e'"
    by (simp add: demo_tab_def demo_toggle_is)
  moreover have "\<forall>e \<in> set demo_tab. \<forall>c p. is_toggle c e \<and> parent_coord c = Some p \<longrightarrow>
      (\<exists>e' \<in> set demo_tab. is_toggle p e')"
    by (simp add: demo_tab_def demo_toggle_is)
  ultimately show ?thesis unfolding tab_ok_def by blast
qed

lemma demo_states:
  "state_of demo_tab k = (if k = NI ''7'' then Some ''update'' else if k = NB ''7'' ''8'' then Some ''unlink''
     else if k = DNS ''7'' ''8'' ''9'' then Some ''update'' else None)"
  by (simp add: state_of_def demo_tab_def demo_toggle_is) (simp add: demo_toggle_def)

theorem click_keeps_tab_consistent_witness:
  "\<exists>d'. updateNetworkInterfaceUI 3 2 None True demo_tab = Some (Inr d') \<and> (\<forall>k. edge_ok d' k)
     \<and> state_of d' (NI ''7'') = Some ''update''"
proof -
  have v: "valid_states demo_tab"
    by (simp add: valid_states_def demo_tab_def demo_toggle_is)
      (simp add: demo_toggle_def table_of_def states_def)
  have e: "\<forall>k. edge_ok demo_tab k"
    by (auto simp: edge_ok_def demo_states refused_def split: option.split)
  have m: "demo_tab ! 1 \<in> set demo_tab" "is_toggle (NB ''7'' ''8'') (demo_tab ! 1)"
    "ref (demo_tab ! 1) = 2"
    by (simp_all add: demo_tab_def demo_toggle_is) (simp add: demo_toggle_def)
  have "\<not> (NB ''7'' ''8'') \<le> (NI ''7'')" by (simp add: less_eq_coord.simps)
  then show ?thesis
    using click_keeps_tab_consistent [OF demo_tab_ok v e m(1,2)] m(3) demo_states by auto
qed

end
