(* ===== verification/Rows.thy ===== *)
theory Rows
  imports Dom
begin

text \<open>
  Forms that grow by table rows: a click of a button in a table row adds a row before or after it,
  whose fields carry a number no other row has.  The components instantiate the locale with the row
  they build.
\<close>

text \<open>The table row a button stands in.\<close>

definition closest_tr :: "dom \<Rightarrow> nat \<Rightarrow> elem option" where
  "closest_tr d r = Option.bind (getr d r) (closest d (\<lambda>e. tag e = ''tr''))"

text \<open>\<open>$("input#KEY").length\<close>.\<close>

definition id_taken :: "(nat \<Rightarrow> string) \<Rightarrow> dom \<Rightarrow> nat \<Rightarrow> bool" where
  "id_taken key d n \<longleftrightarrow> (\<exists>e \<in> set d. tag e = ''input'' \<and> attrs e ''id'' = Some (key n))"

definition row_before :: "nat \<Rightarrow> html list \<Rightarrow> dom \<Rightarrow> dom" where
  "row_before btn hs d = (case closest_tr d btn of None \<Rightarrow> d | Some t \<Rightarrow> insert_before (ref t) hs d)"

definition row_after :: "nat \<Rightarrow> html list \<Rightarrow> dom \<Rightarrow> dom" where
  "row_after btn hs d = (case closest_tr d btn of None \<Rightarrow> d | Some t \<Rightarrow> insert_after (ref t) hs d)"

definition row_button_ok :: "nat \<Rightarrow> dom \<Rightarrow> bool" where
  "row_button_ok btn d \<longleftrightarrow> wf_dom d \<and> closest_tr d btn \<noteq> None"

lemma closest_tr_Some: "wf_dom d \<Longrightarrow> closest_tr d btn = Some t \<Longrightarrow> getr d (ref t) = Some t \<and> tag t = ''tr''"
proof -
  assume wf: "wf_dom d" and t: "closest_tr d btn = Some t"
  obtain b where b: "getr d btn = Some b" "closest d (\<lambda>e. tag e = ''tr'') b = Some t"
    using t by (auto simp: closest_tr_def bind_eq_Some_conv)
  have "t \<in> set d" using closest_Some(2) [OF b(2)] getr_Some [OF b(1)] by auto
  then show ?thesis using closest_Some(1) [OF b(2)] wf getr_mem [of d t] by (simp add: wf_dom_def)
qed

lemma extends_closest_tr: "extends d d' \<Longrightarrow> closest_tr d btn = Some t \<Longrightarrow> closest_tr d' btn = Some t"
  using extends_getr [of d d' btn] extends_closest [of d d'] getr_Some [of d btn]
  by (fastforce simp: closest_tr_def bind_eq_Some_conv)

lemma row_button_ok_extends: "extends d d' \<Longrightarrow> row_button_ok btn d \<Longrightarrow> row_button_ok btn d'"
  using extends_closest_tr [of d d' btn] by (auto simp: row_button_ok_def extends_def)

lemma row_extends:
  assumes "wf_dom d"
  shows "extends d (row_before btn hs d)" "extends d (row_after btn hs d)"
  using extends_insert(3,4) [OF assms] extends_refl [OF assms]
  by (auto simp: row_before_def row_after_def split: option.split)

lemma row_set:
  assumes "row_button_ok btn d"
  shows "\<exists>p. set (row_before btn hs d) = set d \<union> set (place_list p (fresh_ref d) hs)"
    "\<exists>p. set (row_after btn hs d) = set d \<union> set (place_list p (fresh_ref d) hs)"
proof -
  obtain t where t: "closest_tr d btn = Some t" "getr d (ref t) = Some t"
    using assms closest_tr_Some by (auto simp: row_button_ok_def)
  show "\<exists>p. set (row_before btn hs d) = set d \<union> set (place_list p (fresh_ref d) hs)"
    using set_insert_before [OF t(2)] t(1) by (auto simp: row_before_def)
  show "\<exists>p. set (row_after btn hs d) = set d \<union> set (place_list p (fresh_ref d) hs)"
    using set_insert_after [OF t(2)] t(1) by (auto simp: row_after_def)
qed

text \<open>Keys made of a fixed part and the number.\<close>

lemma key_inject: "a @ nat_str m = a @ nat_str n \<Longrightarrow> m = n"
  by simp

text \<open>
  The interface of such a form: the identifier that marks the row of a number, the row, where it is
  put, and what the page has to be like.
\<close>

locale row_form =
  fixes key :: "nat \<Rightarrow> string"
    and row :: "nat \<Rightarrow> html list"
    and put :: "html list \<Rightarrow> dom \<Rightarrow> dom"
    and ok :: "dom \<Rightarrow> bool"
  assumes key_inj: "key m = key n \<Longrightarrow> m = n"
    and row_key: "(\<exists>h \<in> set (row n). \<exists>x \<in> set (html_elems h). tag x = ''input'' \<and> attrs x ''id'' = Some (key k))
      \<longleftrightarrow> k = n"
    and put_set: "ok d \<Longrightarrow> \<exists>p. set (put hs d) = set d \<union> set (place_list p (fresh_ref d) hs)"
    and ok_put: "ok d \<Longrightarrow> ok (put hs d)"
begin

lemma finite_ids: "finite {n. id_taken key d n}"
proof -
  have "key ` {n. id_taken key d n} \<subseteq> (\<lambda>e. the (attrs e ''id'')) ` set d"
    by (force simp: id_taken_def)
  then have "finite (key ` {n. id_taken key d n})" using finite_surj by blast
  moreover have "inj_on key {n. id_taken key d n}" using key_inj by (auto simp: inj_on_def)
  ultimately show ?thesis using finite_imageD by blast
qed

lemma id_taken_put:
  assumes "ok d"
  shows "id_taken key (put (row n) d) k \<longleftrightarrow> k = n \<or> id_taken key d k"
proof -
  let ?P = "\<lambda>x. tag x = ''input'' \<and> attrs x ''id'' = Some (key k)"
  obtain p where p: "set (put (row n) d) = set d \<union> set (place_list p (fresh_ref d) (row n))"
    using put_set [OF assms] by blast
  have "(\<exists>x \<in> set (place_list p (fresh_ref d) (row n)). ?P x) \<longleftrightarrow> k = n"
    using place_query [of ?P p "fresh_ref d" "row n"] row_key by (simp add: unplaced_def)
  then show ?thesis using p by (auto simp: id_taken_def)
qed

end

text \<open>Such a form is a form of numbered rows.\<close>

sublocale row_form \<subseteq> numbered_rows "id_taken key" "\<lambda>d n. put (row n) d" ok
  by unfold_locales (rule finite_ids, rule id_taken_put, assumption, rule ok_put)

end
