(* ===== verification/DnsRefs.thy ===== *)
theory DnsRefs
  imports Rows
begin

text \<open>
  \<open>dns-common.js\<close>: the table of the DNS records that refer to a record, the editing of such a
  reference, the drop-down of DNS domains, and the buttons that remove a row.
\<close>

type_synonym choice = "string \<times> string"

section \<open>A new reference\<close>

definition dnsref_key :: "string \<Rightarrow> nat \<Rightarrow> string" where
  "dnsref_key rid n = (''dnsref_DNS_NAME_dnsref_'' @ rid @ ''_new_'') @ nat_str n"

definition dnsref_row :: "string \<Rightarrow> choice list \<Rightarrow> nat \<Rightarrow> html list" where
  "dnsref_row rid domains n =
     (let recpart = ''dnsref_'' @ rid @ ''_new_'' @ nat_str n;
          named = (\<lambda>p. [(''name'', p @ recpart), (''id'', p @ recpart)]) in
      [el ''tr'' [] [''dnsrefadd'']
        [el ''td'' [] [] [el ''a'' [] [''purgerow''] []],
         el ''td'' [] [] [el ''select'' (named ''dnsref_DNS_TYPE_'') []
           (map option_html [(''A'', ''A''), (''AAAA'', ''AAAA''), (''CNAME'', ''CNAME'')])],
         el ''td'' [] [] [el ''input'' (named ''dnsref_DNS_NAME_'') [] [],
           el ''select'' (named ''dnsref_DNS_DOMAIN_ID_'') [] (map option_html domains)]]])"

definition add_dns_ref_record_row :: "nat \<Rightarrow> string \<Rightarrow> choice list \<Rightarrow> dom \<Rightarrow> dom option" where
  "add_dns_ref_record_row button rid domains d =
     map_option (\<lambda>n. row_before button (dnsref_row rid domains n) d)
       (first_free (id_taken (dnsref_key rid) d) 0)"

section \<open>The table of references\<close>

record dns_record =
  rec_id :: string
  rec_type :: string
  rec_name :: string
  rec_domain :: string
  rec_soa :: string

definition dns_ref_row :: "string \<Rightarrow> string list \<Rightarrow> dns_record \<Rightarrow> html" where
  "dns_ref_row rid types r =
     (let suff = ''_dnsref_'' @ rid @ ''_'' @ rec_id r in
      el ''tr'' [] [''dnsroot'']
       [el ''td'' [] []
         [el ''a'' [] [''rmrow''] [],
          el ''input'' [(''type'', ''checkbox''), (''name'', ''Del_'' @ rec_id r)] [''irrelevant'', ''rmrow'', ''tracked''] []],
        el ''td'' [] []
         [el ''select'' [(''name'', ''dnsref_DNS_TYPE'' @ suff)] [''off'', ''tracked'']
           (map (\<lambda>t. Html (option_el (rec_type r = t) t t) []) types)],
        el ''td'' [] []
         [el ''input'' [(''type'', ''text''), (''name'', ''dnsref_DNS_NAME'' @ suff), (''value'', rec_name r)]
            [''irrelevant'', ''dnsname'', ''tracked''] [],
          el ''select'' [(''name'', ''dnsref_DNS_DOMAIN_ID'' @ suff)] [''irrelevant'', ''dnsdomain'', ''tracked''] [],
          Html ((new_el ''input'' [(''type'', ''hidden''), (''value'', rec_domain r)] [''dnsdomainid''])\<lparr>off := True\<rparr>) [],
          el_text ''a'' [(''target'', ''DNS_RECORD_ID'' @ rec_domain r), (''href'', ''../dns/?DNS_RECORD_ID='' @ rec_id r)]
            [''intdns''] (rec_name r @ ''.'' @ rec_soa r),
          el ''a'' [(''alt'', ''Edit''), (''title'', ''Edit'')] [''intdnsedit'', ''stabeditbutton''] []]])"

definition build_dns_ref_table :: "string \<Rightarrow> dns_record list \<Rightarrow> string list \<Rightarrow> html" where
  "build_dns_ref_table rid records types =
     el ''table'' [] [''dnsrefroot'']
       (map (dns_ref_row rid types) records @
        [el ''tr'' [] []
          [el ''td'' [(''colspan'', ''4''), (''align'', ''left'')] []
            [el ''a'' [(''href'', ''#''), (''title'', ''Add a new DNS reference to this record''),
                (''onclick'', ''return false;'')] [''dnsaddref'', ''plusbutton'']
              [Html ((new_el ''input'' [(''type'', ''hidden''), (''value'', rid)] [''dnsrecordid''])\<lparr>off := True\<rparr>) []]]]])"

text \<open>
  The button that shows the table.  Its hidden field names the record; a table that is already there is
  shown or hidden, otherwise it is requested, and built by the answer.
\<close>

definition first_value :: "dom \<Rightarrow> nat \<Rightarrow> (elem \<Rightarrow> bool) \<Rightarrow> string option" where
  "first_value d r P = (case find_in d r P of [] \<Rightarrow> None | e # _ \<Rightarrow> attrs e ''value'')"

definition closest_td :: "dom \<Rightarrow> nat \<Rightarrow> elem option" where
  "closest_td d r = Option.bind (getr d r) (closest d (\<lambda>e. tag e = ''td''))"

definition build_dnsref_table :: "nat \<Rightarrow> page \<Rightarrow> page" where
  "build_dnsref_table obj p =
     (case first_value (doc p) obj (has ''dnsrecordid'') of
        None \<Rightarrow> p\<lparr>alerts := alerts p @ [''Danger!  Danger!  Unable to find DNS_RECORD_ID'']\<rparr>
      | Some rid \<Rightarrow>
          let blt = (case closest_td (doc p) obj of None \<Rightarrow> []
                     | Some c \<Rightarrow> find_in (doc p) (ref c) (\<lambda>e. tag e = ''div'' \<and> attrs e ''id'' = Some (''dnsvalue_'' @ rid)))
          in if blt \<noteq> [] then p\<lparr>doc := upd_refs blt (toggle_class ''irrelevant'') (doc p)\<rparr>
             else p\<lparr>requests := requests p @ [''../dns/dns-ajax.pl?json=yes;what=dnsref;DNS_RECORD_ID='' @ rid]\<rparr>)"

definition dnsref_answer :: "nat \<Rightarrow> string \<Rightarrow> dns_record list \<Rightarrow> string list \<Rightarrow> page \<Rightarrow> page" where
  "dnsref_answer obj rid records types p =
     (let d1 = (case closest_td (doc p) obj of None \<Rightarrow> doc p
                | Some c \<Rightarrow> append_to (ref c)
                    [Html ((new_el ''div'' [(''id'', ''dnsvalue_'' @ rid)] [''dnsvalueref''])
                        \<lparr>etext := ''DNS Records that refer to this one''\<rparr>)
                      [build_dns_ref_table rid records types]] (doc p))
      in p\<lparr>doc := upd obj (add_class ''dnsref'') d1\<rparr>)"

section \<open>Editing a reference\<close>

definition closest_dnsroot :: "dom \<Rightarrow> nat \<Rightarrow> elem option" where
  "closest_dnsroot d r = Option.bind (getr d r) (closest d (has ''dnsroot''))"

definition make_dns_editable :: "nat \<Rightarrow> choice list \<Rightarrow> dom \<Rightarrow> dom" where
  "make_dns_editable root domains d =
     (let sels = map ref (find_in d root (\<lambda>e. tag e = ''select'' \<and> has ''dnsdomain'' e));
          d1 = fold (\<lambda>s d. append_to s (map option_html domains) (empty_el s d)) sels d;
          d2 = upd_where (\<lambda>e. inside root e \<and> tag e = ''a'') (add_class ''irrelevant'') d1;
          d3 = upd_where (\<lambda>e. inside root e \<and> is_input e) (\<lambda>e. rm_class ''irrelevant'' (rm_class ''off'' e)) d2
      in upd_where (\<lambda>e. inside root e \<and> tag e = ''input'' \<and> has ''dnsname'' e) (\<lambda>e. e\<lparr>off := False\<rparr>) d3)"

definition make_dnslink_editable :: "nat \<Rightarrow> page \<Rightarrow> page" where
  "make_dnslink_editable target p =
     (case closest_dnsroot (doc p) target of
        None \<Rightarrow> p\<lparr>alerts := alerts p @ [''Unable to find dnsroot, seek help.'']\<rparr>
      | Some root \<Rightarrow>
          (case first_value (doc p) (ref root) (\<lambda>e. tag e = ''input'' \<and> has ''dnsdomainid'' e) of
             None \<Rightarrow> p\<lparr>alerts := alerts p @ [''Unable to find dns domain, seek help.'']\<rparr>
           | Some i \<Rightarrow>
               p\<lparr>requests := requests p @ [''../dns/dns-ajax.pl?json=yes;what=dnsref;DNS_DOMAIN_ID='' @ i]\<rparr>))"

definition dnslink_answer :: "nat \<Rightarrow> nat \<Rightarrow> choice list \<Rightarrow> page \<Rightarrow> page" where
  "dnslink_answer target root domains p =
     p\<lparr>doc := upd target (add_class ''irrelevant'') (make_dns_editable root domains (doc p))\<rparr>"

definition add_dns_references :: "nat \<Rightarrow> page \<Rightarrow> page" where
  "add_dns_references obj p =
     (case first_value (doc p) obj (\<lambda>e. tag e = ''input'' \<and> has ''dnsrecordid'' e) of
        None \<Rightarrow> p\<lparr>alerts := alerts p @ [''Danger!  Danger!  Unable to find DNS_RECORD_ID'']\<rparr>
      | Some dr \<Rightarrow>
          p\<lparr>requests := requests p @ [''../dns/dns-ajax.pl?json=yes;type=service;what=dnsref;DNS_RECORD_ID='' @ dr]\<rparr>)"

section \<open>The drop-down of domains\<close>

text \<open>
  \<open>jDnsDomains\<close> is the answer of the server once it is there; \<open>waiting\<close> are the drop-downs whose
  timer runs.
\<close>

record domains_page = page +
  jDnsDomains :: "choice list option"
  waiting :: "nat list"

definition get_dns_domains :: "domains_page \<Rightarrow> domains_page" where
  "get_dns_domains p =
     (if jDnsDomains p \<noteq> None then p
      else p\<lparr>requests := requests p @ [''../dns/dns-ajax.pl?json=yes;what=dnsref'']\<rparr>)"

text \<open>One round of the loop: an option whose value the drop-down does not have is added at its end.\<close>

definition add_choice :: "nat \<Rightarrow> choice \<Rightarrow> dom \<times> string list \<Rightarrow> dom \<times> string list" where
  "add_choice sel c st =
     (if fst c \<in> set (snd st) then st
      else (append_to sel [option_html c] (fst st), snd st @ [fst c]))"

definition populate :: "nat \<Rightarrow> choice list \<Rightarrow> dom \<Rightarrow> dom" where
  "populate sel domains d =
     (case getr d sel of
        None \<Rightarrow> d
      | Some e \<Rightarrow>
          upd sel (set_attr ''populated'' ''true'')
            (fst (fold (add_choice sel) domains (d, map val (options d e)))))"

definition popuplate_dns_domain_dropdown_delayed :: "nat \<Rightarrow> domains_page \<Rightarrow> domains_page" where
  "popuplate_dns_domain_dropdown_delayed sel p =
     (case jDnsDomains p of
        None \<Rightarrow> p\<lparr>waiting := waiting p @ [sel]\<rparr>
      | Some domains \<Rightarrow> p\<lparr>doc := populate sel domains (doc p)\<rparr>)"

definition popuplate_dns_domain_dropdown :: "nat \<Rightarrow> domains_page \<Rightarrow> domains_page" where
  "popuplate_dns_domain_dropdown sel p =
     (case getr (doc p) sel of
        None \<Rightarrow> p
      | Some e \<Rightarrow>
          if attrs e ''populated'' \<noteq> None then p
          else popuplate_dns_domain_dropdown_delayed sel (get_dns_domains p))"

text \<open>The answer of the server, and a timer that fires.\<close>

definition domains_answer :: "choice list \<Rightarrow> domains_page \<Rightarrow> domains_page" where
  "domains_answer domains p = p\<lparr>jDnsDomains := Some domains\<rparr>"

definition domains_timer :: "domains_page \<Rightarrow> domains_page" where
  "domains_timer p =
     (case waiting p of
        [] \<Rightarrow> p
      | sel # rest \<Rightarrow> popuplate_dns_domain_dropdown_delayed sel (p\<lparr>waiting := rest\<rparr>))"

section \<open>Removing rows\<close>

text \<open>The button \<open>rmrow\<close>: the row is marked for removal, or no longer.\<close>

definition rmrow_click :: "nat \<Rightarrow> dom \<Rightarrow> dom" where
  "rmrow_click a d =
     (let d1 = (case closest_tr d a of None \<Rightarrow> d | Some t \<Rightarrow> upd (ref t) (toggle_class ''rowrm'') d) in
      case closest_td d1 a of
        None \<Rightarrow> d1
      | Some c \<Rightarrow>
          let d2 = upd_refs (next_all d1 c (\<lambda>e. tag e = ''td'')) (toggle_class ''pendingrm'') d1
          in upd_where (\<lambda>e. inside (ref c) e \<and> tag e = ''input'' \<and> has ''rmrow'' e) (\<lambda>e. e\<lparr>on := \<not> on e\<rparr>) d2)"

text \<open>The button \<open>purgerow\<close> of a row that was added: it goes, the others are striped again.\<close>

definition stripe :: "nat list \<Rightarrow> dom \<Rightarrow> dom" where
  "stripe rs d =
     foldl (\<lambda>d (i, r). upd r (\<lambda>e. add_class (if i mod 2 \<noteq> 0 then ''even'' else ''odd'')
         (rm_class ''even'' (rm_class ''odd'' e))) d)
       d (zip [0..<length rs] rs)"

definition purgerow_click :: "nat \<Rightarrow> dom \<Rightarrow> dom" where
  "purgerow_click a d =
     (let t = Option.bind (getr d a) (closest d (\<lambda>e. tag e = ''table''));
          d1 = (case closest_tr d a of None \<Rightarrow> d | Some tr \<Rightarrow> detach (ref tr) d)
      in (case t of None \<Rightarrow> d1
          | Some tbl \<Rightarrow> stripe (map ref (find_in d1 (ref tbl) (\<lambda>e. tag e = ''tr'' \<and> has ''dnsadd'' e))) d1))"


section \<open>New references have numbers of their own\<close>

lemma html_elems_el [simp]:
  "html_elems (el t as cs ks) = new_el t as cs # concat (map html_elems ks)"
  "html_elems (el_text t as cs x) = [(new_el t as cs)\<lparr>etext := x\<rparr>]"
  "html_elems (option_html c) = [option_el False (fst c) (snd c)]"
  by (simp_all add: el_def el_text_def option_html_def)

lemma option_el_tag [simp]: "tag (option_el b v t) = ''option''" "val (option_el b v t) = v"
  by (simp_all add: option_el_def new_el_def)

interpretation dnsref: row_form "dnsref_key rid" "dnsref_row rid domains" "row_before btn" "row_button_ok btn"
  for rid domains btn
proof
  show "dnsref_key rid m = dnsref_key rid n \<Longrightarrow> m = n" for m n
    by (simp add: dnsref_key_def)
  show "(\<exists>h \<in> set (dnsref_row rid domains n). \<exists>x \<in> set (html_elems h).
      tag x = ''input'' \<and> attrs x ''id'' = Some (dnsref_key rid k)) \<longleftrightarrow> k = n" for n k
    by (auto simp: dnsref_row_def dnsref_key_def Let_def)
  show "row_button_ok btn d \<Longrightarrow> \<exists>p. set (row_before btn hs d) = set d \<union> set (place_list p (fresh_ref d) hs)" for d hs
    by (rule row_set(1))
  show "row_button_ok btn d \<Longrightarrow> row_button_ok btn (row_before btn hs d)" for d hs
    by (metis row_button_ok_def row_button_ok_extends row_extends(1))
qed

text \<open>
  The search for a free row number comes to an end at every click of the button for a new reference,
  and after any number of clicks there are as many more row numbers in use: no two rows ever share the
  identifiers and names of their fields.
\<close>

theorem dnsref_rows_distinct:
  assumes "row_button_ok btn d"
  shows "\<exists>d'. iterate_opt k (add_dns_ref_record_row btn rid domains) d = Some d'
     \<and> card {n. id_taken (dnsref_key rid) d' n} = card {n. id_taken (dnsref_key rid) d n} + k"
  using dnsref.adding_rows [OF assms, of k rid domains 0]
  by (auto simp: add_dns_ref_record_row_def [abs_def])

section \<open>The drop-down of domains is populated once\<close>

lemma options_append:
  assumes "wf_dom d" "getr d s = Some e"
  shows "map val (options (append_to s [option_html c] d) e) = map val (options d e) @ [fst c]"
proof -
  have s: "ref e = s" using assms(2) by (auto dest: getr_Some)
  show ?thesis
    unfolding options_def s find_in_append [OF assms]
    by (simp add: option_html_def)
qed

lemma add_choices:
  assumes "wf_dom d" "getr d s = Some e" "map val (options d e) = vs"
  shows "\<exists>d' new. fold (add_choice s) domains (d, vs) = (d', vs @ new) \<and> extends d d'
     \<and> map val (options d' e) = vs @ new \<and> distinct new \<and> set new = fst ` set domains - set vs"
  using assms
proof (induction domains arbitrary: d vs)
  case Nil
  then show ?case by (intro exI [of _ d] exI [of _ "[]"]) (auto simp: extends_def)
next
  case (Cons c cs)
  show ?case
  proof (cases "fst c \<in> set vs")
    case True
    then show ?thesis using Cons.IH [OF Cons.prems] by (auto simp: add_choice_def insert_absorb)
  next
    case False
    let ?d = "append_to s [option_html c] d"
    have ext: "extends d ?d" using Cons.prems(1) by auto
    obtain d' new where IH: "fold (add_choice s) cs (?d, vs @ [fst c]) = (d', (vs @ [fst c]) @ new)"
      "extends ?d d'" "map val (options d' e) = (vs @ [fst c]) @ new" "distinct new"
      "set new = fst ` set cs - set (vs @ [fst c])"
      using Cons.IH [of ?d "vs @ [fst c]"] ext extends_getr [OF ext Cons.prems(2)]
        options_append [OF Cons.prems(1,2)] Cons.prems(3)
      by (auto simp: extends_def)
    have "add_choice s c (d, vs) = (?d, vs @ [fst c])" using False by (simp add: add_choice_def)
    then have "fold (add_choice s) (c # cs) (d, vs) = (d', vs @ fst c # new)" using IH(1) by simp
    then show ?thesis
      using IH(3-5) False extends_trans [OF ext IH(2)]
      by (intro exI [of _ d'] exI [of _ "fst c # new"]) auto
  qed
qed

lemma options_populated:
  "map val (options (upd s (set_attr a v) d) e') = map val (options d e)" if "ref e' = ref e" for e
  using that by (auto simp: options_def find_in_def upd_def filter_map comp_def inside_def intro!: filter_cong)

text \<open>
  C30: Populating a drop-down keeps the options it has, in their order, and appends every domain of the
  server whose value is not among them exactly once; the drop-down is marked, so that another event on
  it changes nothing.
\<close>

theorem populate_correct:
  assumes "wf_dom (doc p)" "getr (doc p) s = Some e" "attrs e ''populated'' = None"
    and "jDnsDomains p = Some domains" "p' = popuplate_dns_domain_dropdown s p"
  shows "\<exists>e' new. getr (doc p') s = Some e'
     \<and> map val (options (doc p') e') = map val (options (doc p) e) @ new \<and> distinct new
     \<and> set new = fst ` set domains - val ` set (options (doc p) e)
     \<and> popuplate_dns_domain_dropdown s p' = p'"
proof -
  obtain d' new where d': "fold (add_choice s) domains (doc p, map val (options (doc p) e))
      = (d', map val (options (doc p) e) @ new)" "extends (doc p) d'"
    "map val (options d' e) = map val (options (doc p) e) @ new" "distinct new"
    "set new = fst ` set domains - set (map val (options (doc p) e))"
    using add_choices [OF assms(1,2) refl] by blast
  let ?e = "set_attr ''populated'' ''true'' e"
  have doc: "doc p' = upd s (set_attr ''populated'' ''true'') d'"
    using assms d'(1)
    by (simp add: popuplate_dns_domain_dropdown_def popuplate_dns_domain_dropdown_delayed_def
        get_dns_domains_def populate_def)
  have "getr (doc p') s = Some ?e"
    using extends_getr [OF d'(2) assms(2)] by (simp add: doc getr_upd)
  moreover have "map val (options (doc p') ?e) = map val (options (doc p) e) @ new"
    unfolding doc using options_populated [of ?e e s _ _ d'] d'(3) by simp
  moreover from \<open>getr (doc p') s = Some ?e\<close> have "popuplate_dns_domain_dropdown s p' = p'"
    by (simp add: popuplate_dns_domain_dropdown_def)
  ultimately show ?thesis using d'(4,5) by auto
qed

section \<open>Removing and keeping a row\<close>

definition rm_map :: "nat option \<Rightarrow> nat set \<Rightarrow> nat option \<Rightarrow> elem \<Rightarrow> elem" where
  "rm_map t S c e =
     (let e1 = (if t = Some (ref e) then toggle_class ''rowrm'' e else e);
          e2 = (if ref e \<in> S then toggle_class ''pendingrm'' e1 else e1)
      in if (case c of None \<Rightarrow> False | Some r \<Rightarrow> inside r e) \<and> tag e = ''input'' \<and> has ''rmrow'' e
         then e2\<lparr>on := \<not> on e2\<rparr> else e2)"

lemma rm_map_fields [simp]:
  "ref (rm_map t S c e) = ref e" "path (rm_map t S c e) = path e" "tag (rm_map t S c e) = tag e"
  "has x (rm_map t S c e) = (if x = ''rowrm'' \<and> t = Some (ref e) then \<not> has x e
     else if x = ''pendingrm'' \<and> ref e \<in> S then \<not> has x e else has x e)"
  by (auto simp: rm_map_def Let_def)

lemma inside_rm_map [simp]: "inside r (rm_map t S c e) = inside r e"
  by (simp add: inside_def)

lemma keeps_rm_map [simp]: "keeps (rm_map t S c)"
  by (rule keepsI) simp_all

lemma closest_tr_map: "keeps f \<Longrightarrow> (\<And>x. tag (f x) = tag x) \<Longrightarrow> closest_tr (map f d) a = map_option f (closest_tr d a)"
  and closest_td_map: "keeps f \<Longrightarrow> (\<And>x. tag (f x) = tag x) \<Longrightarrow> closest_td (map f d) a = map_option f (closest_td d a)"
  by (cases "getr d a"; simp add: closest_tr_def closest_td_def getr_map closest_map)+

definition rm_cells :: "dom \<Rightarrow> nat \<Rightarrow> nat set" where
  "rm_cells d a = (case closest_td d a of None \<Rightarrow> {} | Some c \<Rightarrow> ref ` set (next_all d c (\<lambda>e. tag e = ''td'')))"

lemma rmrow_is_map:
  "rmrow_click a d
     = map (rm_map (map_option ref (closest_tr d a)) (rm_cells d a) (map_option ref (closest_td d a))) d"
proof -
  define f where "f = (\<lambda>e. if map_option ref (closest_tr d a) = Some (ref e) then toggle_class ''rowrm'' e else e)"
  have f: "keeps f" "\<And>x. tag (f x) = tag x" "\<And>x. ref (f x) = ref x" "\<And>x. path (f x) = path x"
    by (auto simp: f_def keeps_def)
  have d1: "(case closest_tr d a of None \<Rightarrow> d | Some t \<Rightarrow> upd (ref t) (toggle_class ''rowrm'') d) = map f d"
    by (cases "closest_tr d a") (auto simp: f_def upd_def intro!: map_cong map_idI [symmetric])
  have nx: "next_all (map f d) (f c) (\<lambda>e. tag e = ''td'') = map f (next_all d c (\<lambda>e. tag e = ''td''))" for c
    by (rule next_all_map) (simp_all add: f)
  show ?thesis
  proof (cases "closest_td d a")
    case None
    then show ?thesis
      by (simp add: rmrow_click_def d1 Let_def closest_td_map [OF f(1,2)] rm_cells_def)
        (simp add: f_def rm_map_def Let_def)
  next
    case (Some c)
    then have "rmrow_click a d = upd_where (\<lambda>e. inside (ref c) e \<and> tag e = ''input'' \<and> has ''rmrow'' e)
        (\<lambda>e. e\<lparr>on := \<not> on e\<rparr>)
        (upd_refs (map f (next_all d c (\<lambda>e. tag e = ''td''))) (toggle_class ''pendingrm'') (map f d))"
      by (simp add: rmrow_click_def d1 Let_def closest_td_map [OF f(1,2)] nx f(3))
    also have "\<dots> = map (rm_map (map_option ref (closest_tr d a)) (rm_cells d a) (Some (ref c))) d"
    proof -
      define g where "g = (\<lambda>e. if ref e \<in> rm_cells d a then toggle_class ''pendingrm'' e else e)"
      define h where "h = (\<lambda>e. if inside (ref c) e \<and> tag e = ''input'' \<and> has ''rmrow'' e then e\<lparr>on := \<not> on e\<rparr> else e)"
      have r: "ref ` set (map f (next_all d c (\<lambda>e. tag e = ''td''))) = rm_cells d a"
        using Some by (simp add: rm_cells_def image_image f)
      have "inside (ref c) (g (f e)) = inside (ref c) e" "tag (g (f e)) = tag e"
        "has ''rmrow'' (g (f e)) = has ''rmrow'' e" for e
        by (simp_all add: g_def inside_def f) (simp add: f_def)
      note q = this
      have "h (g (f e)) = rm_map (map_option ref (closest_tr d a)) (rm_cells d a) (Some (ref c)) e" for e
      proof -
        have fe: "f e = (if map_option ref (closest_tr d a) = Some (ref e) then toggle_class ''rowrm'' e else e)"
          by (simp only: f_def)
        have ge: "g (f e) = (if ref e \<in> rm_cells d a then toggle_class ''pendingrm'' (f e) else f e)"
          by (simp only: g_def f(3))
        have "h (g (f e)) = (if inside (ref c) e \<and> tag e = ''input'' \<and> has ''rmrow'' e
            then (g (f e))\<lparr>on := \<not> on (g (f e))\<rparr> else g (f e))"
          unfolding h_def q ..
        then show ?thesis
          unfolding rm_map_def Let_def fe [symmetric] ge [symmetric] option.case .
      qed
      then show ?thesis
        unfolding upd_refs_def r unfolding upd_where_def g_def [symmetric] h_def [symmetric] by simp
    qed
    finally show ?thesis using Some by simp
  qed
qed

lemma rm_cells_map: "keeps f \<Longrightarrow> (\<And>x. tag (f x) = tag x) \<Longrightarrow> rm_cells (map f d) a = rm_cells d a"
  by (cases "closest_td d a")
    (simp_all add: rm_cells_def closest_td_map next_all_map image_image keeps_ref)

lemma toggle_twice_class [simp]: "\<not> has c e \<Longrightarrow> toggle_class c (toggle_class c e) = e"
  by (auto simp: toggle_class_def add_class_def rm_class_def has_def intro!: elem.equality filter_True)

lemma rm_map_twice:
  assumes "\<not> has ''rowrm'' e" "\<not> has ''pendingrm'' e"
  shows "rm_map t S c (rm_map t S c e) = e"
proof -
  let ?k = "\<lambda>x cs. if x \<in> set cs then filter (\<lambda>y. y \<noteq> x) cs else cs @ [x]"
  have alt: "toggle_class x e = e\<lparr>cls := ?k x (cls e)\<rparr>" for x e
    by (cases e) (auto simp: toggle_class_def add_class_def rm_class_def has_def)
  define B where "B = ((case c of None \<Rightarrow> False | Some r \<Rightarrow> inside r e) \<and> tag e = ''input'' \<and> has ''rmrow'' e)"
  have one: "rm_map t S c x = x\<lparr>cls := (let k = (if t = Some (ref x) then ?k ''rowrm'' (cls x) else cls x) in
        if ref x \<in> S then ?k ''pendingrm'' k else k), on := (on x \<noteq> B')\<rparr>"
    if "B' = ((case c of None \<Rightarrow> False | Some r \<Rightarrow> inside r x) \<and> tag x = ''input'' \<and> has ''rmrow'' x)" for x B'
    unfolding that rm_map_def Let_def alt by (cases x) auto
  have B': "B = ((case c of None \<Rightarrow> False | Some r \<Rightarrow> inside r (rm_map t S c e)) \<and> tag (rm_map t S c e) = ''input''
      \<and> has ''rmrow'' (rm_map t S c e))"
    by (cases c) (simp_all add: B_def)
  have n: "filter (\<lambda>y. y \<noteq> ''rowrm'') (cls e) = cls e" "filter (\<lambda>y. y \<noteq> ''pendingrm'') (cls e) = cls e"
    using assms by (auto simp: has_def filter_id_conv)
  show ?thesis
    unfolding one [OF B'] unfolding one [OF B_def]
    using assms n by (cases e) (auto simp: has_def Let_def)
qed



section \<open>Stripes\<close>

definition index_in :: "nat list \<Rightarrow> nat \<Rightarrow> nat" where
  "index_in rs r = length (takeWhile (\<lambda>x. x \<noteq> r) rs)"

definition striped :: "nat \<Rightarrow> elem \<Rightarrow> elem" where
  "striped i e = add_class (if i mod 2 \<noteq> 0 then ''even'' else ''odd'') (rm_class ''even'' (rm_class ''odd'' e))"

lemma striped_fields [simp]:
  "ref (striped i e) = ref e" "path (striped i e) = path e" "tag (striped i e) = tag e"
  "has ''even'' (striped i e) = (i mod 2 \<noteq> 0)" "has ''odd'' (striped i e) = (i mod 2 = 0)"
  "has ''dnsadd'' (striped i e) = has ''dnsadd'' e"
  by (auto simp: striped_def)

lemma stripe_from:
  "distinct rs \<Longrightarrow> foldl (\<lambda>d (i, r). upd r (striped i) d) d (zip [k..<k + length rs] rs)
     = map (\<lambda>e. if ref e \<in> set rs then striped (k + index_in rs (ref e)) e else e) d"
proof (induction rs arbitrary: d k)
  case (Cons r rs)
  have z: "zip [k..<k + length (r # rs)] (r # rs) = (k, r) # zip [Suc k..<Suc k + length rs] rs"
    by (simp add: upt_conv_Cons del: upt_Suc)
  have i: "index_in (r # rs) x = (if x = r then 0 else Suc (index_in rs x))" for x
    by (auto simp: index_in_def)
  have "foldl (\<lambda>d (i, r). upd r (striped i) d) d (zip [k..<k + length (r # rs)] (r # rs))
      = foldl (\<lambda>d (i, r). upd r (striped i) d) (upd r (striped k) d) (zip [Suc k..<Suc k + length rs] rs)"
    unfolding z by simp
  also have "\<dots> = map (\<lambda>e. if ref e \<in> set rs then striped (Suc k + index_in rs (ref e)) e else e) (upd r (striped k) d)"
    using Cons.prems by (intro Cons.IH) simp
  also have "\<dots> = map (\<lambda>e. if ref e \<in> set (r # rs) then striped (k + index_in (r # rs) (ref e)) e else e) d"
    using Cons.prems by (auto simp: upd_def i)
  finally show ?case .
qed simp

lemma stripe_is: "distinct rs \<Longrightarrow>
    stripe rs d = map (\<lambda>e. if ref e \<in> set rs then striped (index_in rs (ref e)) e else e) d"
  using stripe_from [of rs d 0] by (simp add: stripe_def striped_def [abs_def])

lemma index_in_nth: "distinct rs \<Longrightarrow> i < length rs \<Longrightarrow> index_in rs (rs ! i) = i"
proof (induction rs arbitrary: i)
  case (Cons r rs)
  then show ?case by (cases i) (auto simp: index_in_def)
qed simp

text \<open>
  After an added row of a table has been removed, the added rows left in the table are striped
  alternately from the top, whatever stripes they had.
\<close>

theorem purged_rows_striped:
  assumes "wf_dom d" "Option.bind (getr d a) (closest d (\<lambda>e. tag e = ''table'')) = Some tbl"
    and "rows = find_in (purgerow_click a d) (ref tbl) (\<lambda>e. tag e = ''tr'' \<and> has ''dnsadd'' e)"
    and "i < length rows"
  shows "has ''even'' (rows ! i) = (i mod 2 \<noteq> 0) \<and> has ''odd'' (rows ! i) = (i mod 2 = 0)"
proof -
  define d1 where "d1 = (case closest_tr d a of None \<Rightarrow> d | Some tr \<Rightarrow> detach (ref tr) d)"
  define rs where "rs = map ref (find_in d1 (ref tbl) (\<lambda>e. tag e = ''tr'' \<and> has ''dnsadd'' e))"
  have "wf_dom d1" using assms(1) by (auto simp: d1_def split: option.split)
  then have dist: "distinct rs" by (simp add: rs_def find_in_def wf_dom_def distinct_map_filter)
  let ?f = "\<lambda>e. if ref e \<in> set rs then striped (index_in rs (ref e)) e else e"
  have "purgerow_click a d = stripe rs d1"
    using assms(2) by (simp add: purgerow_click_def Let_def d1_def rs_def)
  then have r: "rows = map ?f (find_in d1 (ref tbl) (\<lambda>e. tag e = ''tr'' \<and> has ''dnsadd'' e))"
    unfolding assms(3) by (simp only: stripe_is [OF dist]) (rule find_in_map, auto)
  then have "i < length rs" "ref (find_in d1 (ref tbl) (\<lambda>e. tag e = ''tr'' \<and> has ''dnsadd'' e) ! i) = rs ! i"
    using assms(4) by (simp_all add: rs_def)
  then have "rows ! i = striped i (find_in d1 (ref tbl) (\<lambda>e. tag e = ''tr'' \<and> has ''dnsadd'' e) ! i)"
    using r assms(4) index_in_nth [OF dist] by simp
  then show ?thesis by simp
qed

section \<open>A page the theorems apply to\<close>

definition demo_refs :: dom where
  "demo_refs = [(new_el ''table'' [] [])\<lparr>ref := 1\<rparr>,
     (new_el ''tr'' [] [''dnsadd''])\<lparr>ref := 2, path := [1]\<rparr>,
     (new_el ''td'' [] [])\<lparr>ref := 3, path := [2, 1]\<rparr>,
     (new_el ''a'' [] [''purgerow''])\<lparr>ref := 4, path := [3, 2, 1]\<rparr>,
     (new_el ''tr'' [] [''dnsadd''])\<lparr>ref := 5, path := [1]\<rparr>,
     (new_el ''tr'' [] [''dnsadd'', ''odd''])\<lparr>ref := 6, path := [1]\<rparr>,
     (new_el ''select'' [] [''dnsdomain''])\<lparr>ref := 7, path := [6, 1]\<rparr>,
     (option_el True ''3'' ''example.com'')\<lparr>ref := 8, path := [7, 6, 1]\<rparr>]"

lemma demo_refs_wf: "wf_dom demo_refs"
  by (simp add: wf_dom_def demo_refs_def option_el_def new_el_def suffix_Cons)

theorem dnsref_rows_distinct_witness:
  "\<exists>d'. iterate_opt 2 (add_dns_ref_record_row 4 ''9'' []) demo_refs = Some d'
     \<and> card {n. id_taken (dnsref_key ''9'') d' n} = card {n. id_taken (dnsref_key ''9'') demo_refs n} + 2"
proof -
  have "map_option ref (closest_tr demo_refs 4) = Some 2" by code_simp
  then have "row_button_ok 4 demo_refs" using demo_refs_wf by (auto simp: row_button_ok_def)
  then show ?thesis by (rule dnsref_rows_distinct)
qed

definition demo_domains :: domains_page where
  "demo_domains = \<lparr>doc = demo_refs, alerts = [], requests = [], location = [],
     jDnsDomains = Some [(''3'', ''example.com''), (''5'', ''example.org''), (''5'', ''again'')], waiting = []\<rparr>"

theorem populate_correct_witness:
  "\<exists>p' e' new. p' = popuplate_dns_domain_dropdown 7 demo_domains \<and> getr (doc p') 7 = Some e'
     \<and> map val (options (doc p') e') = [''3''] @ new \<and> set new = {''5''}"
proof -
  have g: "getr (doc demo_domains) 7 = Some (demo_refs ! 6)"
    by (simp add: demo_domains_def demo_refs_def getr_def new_el_def)
  have a: "attrs (demo_refs ! 6) ''populated'' = None" by (simp add: demo_refs_def new_el_def)
  have o: "map val (options (doc demo_domains) (demo_refs ! 6)) = [''3'']" by code_simp
  then have s: "val ` set (options (doc demo_domains) (demo_refs ! 6)) = {''3''}"
    by (metis list.set(1) list.simps(15) set_map)
  have w: "wf_dom (doc demo_domains)" using demo_refs_wf by (simp add: demo_domains_def)
  have j: "jDnsDomains demo_domains = Some [(''3'', ''example.com''), (''5'', ''example.org''), (''5'', ''again'')]"
    by (simp add: demo_domains_def)
  show ?thesis
    using populate_correct [OF w g a j refl] unfolding o s by fastforce
qed


theorem purged_rows_striped_witness:
  "\<exists>rows. rows = find_in (purgerow_click 4 demo_refs) 1 (\<lambda>e. tag e = ''tr'' \<and> has ''dnsadd'' e)
     \<and> has ''even'' (rows ! 1) \<and> \<not> has ''odd'' (rows ! 1)"
proof -
  let ?rows = "find_in (purgerow_click 4 demo_refs) 1 (\<lambda>e. tag e = ''tr'' \<and> has ''dnsadd'' e)"
  have t: "Option.bind (getr demo_refs 4) (closest demo_refs (\<lambda>e. tag e = ''table'')) = Some (demo_refs ! 0)"
    by (simp add: getr_def closest_def ancestors_def List.map_filter_simps demo_refs_def
        new_el_def option_el_def)
  have r: "ref (demo_refs ! 0) = 1" by (simp add: demo_refs_def)
  have l: "length ?rows = 2" by code_simp
  show ?thesis
    using purged_rows_striped [OF demo_refs_wf t refl, of 1] l unfolding r by simp
qed

end
