(* ===== verification/DnsRecords.thy ===== *)
theory DnsRecords
  imports DnsRefs Paging
begin

text \<open>
  \<open>dns-utils.js\<close>: the rows of a DNS zone.  The fields a record has depend on its type; new rows are
  added with numbers of their own; values are completed by the server.
\<close>

text \<open>
  \<open>completes\<close> are the fields that have an autocompletion, each with its service address (the
  plugin itself is not part of this).
\<close>

record dns_page = page +
  completes :: "nat \<rightharpoonup> string"

section \<open>The query string\<close>

text \<open>The fields of the object, the last of several with one name; \<open>None\<close> is the exception.\<close>

fun qs_fields :: "string list \<Rightarrow> (string \<rightharpoonup> string) \<Rightarrow> (string \<rightharpoonup> string) option" where
  "qs_fields [] rv = Some rv"
| "qs_fields (v # vs) rv =
     (case split_on (CHR ''='') v of
        [k, x] \<Rightarrow> Option.bind (decodeURIComponent x) (\<lambda>y. qs_fields vs (rv(k \<mapsto> y)))
      | _ \<Rightarrow> qs_fields vs rv)"

definition QsToObj :: "string \<Rightarrow> (string \<rightharpoonup> string) option" where
  "QsToObj search = qs_fields (split_on (CHR '';'') (tl search)) Map.empty"

section \<open>Showing and hiding\<close>

definition show_soa :: "string \<Rightarrow> string \<Rightarrow> dom \<Rightarrow> dom" where
  "show_soa switchid tableid d =
     (case (by_id d switchid, by_id d tableid) of
        (Some s, Some t) \<Rightarrow>
          upd (ref t) (\<lambda>e. e\<lparr>vis := ''visible'', disp := []\<rparr>)
            (upd (ref s) (\<lambda>e. e\<lparr>vis := ''hidden'', disp := ''none''\<rparr>) d)
      | _ \<Rightarrow> d)"

definition dns_show_approles :: "nat \<Rightarrow> dom \<Rightarrow> dom" where
  "dns_show_approles button d =
     (case by_id d ''approle_div'' of
        None \<Rightarrow> d
      | Some v \<Rightarrow>
          if disp v = ''none''
          then upd (ref v) (\<lambda>e. e\<lparr>disp := []\<rparr>) (upd button (\<lambda>e. e\<lparr>etext := ''Hide AppRoles''\<rparr>) (empty_el button d))
          else upd (ref v) (\<lambda>e. e\<lparr>disp := ''none''\<rparr>) (upd button (\<lambda>e. e\<lparr>etext := ''Show AppRoles''\<rparr>) (empty_el button d)))"

definition dns_debug_addns :: "nat \<Rightarrow> dom \<Rightarrow> dom" where
  "dns_debug_addns button d =
     (case Option.bind (getr d button) (\<lambda>b. case path b of [] \<Rightarrow> None | p # _ \<Rightarrow> Some p) of
        None \<Rightarrow> d
      | Some p \<Rightarrow>
          append_to p [el ''br'' [] [] []]
            (append_to p [el ''input'' [(''name'', ''extra_ns''), (''type'', ''text'')] [] []] d))"

section \<open>Drop-downs from the server\<close>

text \<open>
  The drop-down is not in the page while it is built: its element and its options.  \<open>detail\<close> maps a
  field to its keys and values; a missing value is the key.  The flag \<open>bOptionSelected\<close> is a constant:
  setting it raises a \<open>TypeError\<close>.
\<close>

type_synonym drop = "elem \<times> elem list"

definition choice_value :: "string \<times> string option \<Rightarrow> string" where
  "choice_value kv = (case snd kv of None \<Rightarrow> fst kv | Some v \<Rightarrow> v)"

definition drop_name :: "string \<Rightarrow> string option \<Rightarrow> string \<Rightarrow> string option \<Rightarrow> string" where
  "drop_name field i pref suff =
     (let truthy = (\<lambda>s. s \<noteq> None \<and> s \<noteq> Some []);
          f1 = (if truthy i then field @ ''_'' @ the i else field);
          f2 = (if pref \<noteq> [] then pref @ ''_'' @ f1 else f1)
      in if truthy suff then f2 @ ''_'' @ the suff else f2)"

definition drop_option :: "(string \<rightharpoonup> string) \<Rightarrow> string \<Rightarrow> drop \<Rightarrow> string \<times> string option \<Rightarrow> drop js" where
  "drop_option params field sel kv =
     (if params field = Some (choice_value kv) then Inl TypeError
      else Inr (fst sel, snd sel @ [option_el False (choice_value kv) (fst kv)]))"

definition drop_field ::
  "(string \<rightharpoonup> string) \<Rightarrow> string option \<Rightarrow> string \<Rightarrow> string option \<Rightarrow> string \<Rightarrow> drop \<Rightarrow>
   string \<times> (string \<times> string option) list \<Rightarrow> drop js" where
  "drop_field params i pref suff placeholder sel fd =
     (let f = drop_name (fst fd) i pref suff;
          e1 = add_class ''srvnum'' (set_attr ''required'' ''true'' (set_attr ''id'' f (set_attr ''name'' f (fst sel))))
      in js_bind (js_foldl (drop_option params (fst fd)) (e1, snd sel) (snd fd))
           (\<lambda>st. Inr (fst st,
              (if placeholder \<noteq> [] then [(option_el True [] placeholder)\<lparr>off := True\<rparr>] else []) @ snd st)))"

definition build_dns_drop ::
  "drop \<Rightarrow> (string \<times> (string \<times> string option) list) list \<Rightarrow> (string \<rightharpoonup> string) \<Rightarrow> string option \<Rightarrow>
   string \<Rightarrow> string option \<Rightarrow> string \<Rightarrow> drop js" where
  "build_dns_drop sel detail params i pref suff placeholder =
     js_foldl (drop_field params i pref suff placeholder) sel detail"

section \<open>Autocompletion\<close>

text \<open>The value of the first of some drop-downs; the string of no value is \<open>undefined\<close>.\<close>

definition first_val :: "dom \<Rightarrow> elem list \<Rightarrow> string option" where
  "first_val d es = (case es of [] \<Rightarrow> None | e # _ \<Rightarrow> Some (value_of d e))"

definition in_row :: "dom \<Rightarrow> nat \<Rightarrow> (elem \<Rightarrow> bool) \<Rightarrow> elem list" where
  "in_row d r P = (case closest_tr d r of None \<Rightarrow> [] | Some t \<Rightarrow> find_in d (ref t) P)"

definition completion_url :: "dom \<Rightarrow> nat \<Rightarrow> string" where
  "completion_url d r =
     (let ty = in_row d r (\<lambda>e. tag e = ''select'' \<and> has ''dnstype'' e);
          fl = in_row d r (\<lambda>e. tag e = ''select'' \<and> has ''dnstypefilter'' e);
          v = (case first_val d ty of
                 Some s \<Rightarrow> if s \<noteq> [] then s else (case first_val d fl of None \<Rightarrow> ''undefined'' | Some x \<Rightarrow> x)
               | None \<Rightarrow> (case first_val d fl of None \<Rightarrow> ''undefined'' | Some x \<Rightarrow> x))
      in ''dns-ajax.pl?what=autocomplete;DNS_TYPE='' @ v @ '';TARGET_DNS_TYPE_FILTER='' @ nat_str (length fl) @ '';'')"

definition configure_autocomplete :: "nat list \<Rightarrow> dns_page \<Rightarrow> dns_page" where
  "configure_autocomplete rs p =
     p\<lparr>completes := fold (\<lambda>r m. m(r \<mapsto> completion_url (doc p) r)) rs (completes p)\<rparr>"

definition configure_all :: "dns_page \<Rightarrow> dns_page" where
  "configure_all p =
     configure_autocomplete (map ref (filter (\<lambda>e. tag e = ''input'' \<and> has ''dnsautocomplete'' e) (doc p))) p"

text \<open>The filter changed: the address of the fields of its row.\<close>

definition filter_changed :: "nat \<Rightarrow> dns_page \<Rightarrow> dns_page" where
  "filter_changed r p =
     (if completes p r = None then p else p\<lparr>completes := (completes p)(r \<mapsto> completion_url (doc p) r)\<rparr>)"

text \<open>\<open>s.replace(/^.*\) /, '')\<close>: everything to the last closing parenthesis with a space after it.\<close>

fun drop_prefix :: "string \<Rightarrow> string option" where
  "drop_prefix [] = None"
| "drop_prefix (c # cs) =
     (case drop_prefix cs of
        Some r \<Rightarrow> Some r
      | None \<Rightarrow> if c = CHR '')'' \<and> cs \<noteq> [] \<and> hd cs = CHR '' '' then Some (tl cs) else None)"

definition strip_prefix :: "string \<Rightarrow> string" where
  "strip_prefix s = (case drop_prefix s of None \<Rightarrow> s | Some r \<Rightarrow> r)"

definition completion_selected :: "nat \<Rightarrow> string \<Rightarrow> string \<Rightarrow> dom \<Rightarrow> dom" where
  "completion_selected r value' data d =
     (let d1 = (case closest_td d r of None \<Rightarrow> d
                | Some c \<Rightarrow> upd_where (\<lambda>e. inside (ref c) e \<and> has ''valdnsrecid'' e) (\<lambda>e. e\<lparr>val := data\<rparr>) d);
          d2 = upd r (\<lambda>e. e\<lparr>val := strip_prefix (val e)\<rparr>) d1
      in upd_where (\<lambda>e. attrs e ''id'' = Some ''gotorecord'')
           (\<lambda>e. set_attr ''title'' (''Go to record: '' @ value') (rm_class ''off'' e)) d2)"

definition completion_search :: "nat \<Rightarrow> dom \<Rightarrow> dom" where
  "completion_search r d =
     (case closest_td d r of None \<Rightarrow> d
      | Some c \<Rightarrow> upd_where (\<lambda>e. inside (ref c) e \<and> has ''valdnsrecid'' e) (\<lambda>e. e\<lparr>val := []\<rparr>) d)"

section \<open>A reference becomes a text field\<close>

definition outref_field :: "string \<Rightarrow> string \<Rightarrow> html" where
  "outref_field i txt =
     el ''input'' [(''type'', ''text''), (''name'', ''DNS_VALUE_'' @ i), (''value'', txt)]
       [''dnsvalue'', ''dnsautocomplete'', ''tracked''] []"

definition make_outref_editable :: "nat \<Rightarrow> dns_page \<Rightarrow> dns_page" where
  "make_outref_editable obj p =
     (case (getr (doc p) obj, closest_tr (doc p) obj, closest_td (doc p) obj) of
        (Some b, Some tr, Some c) \<Rightarrow>
          let d = doc p;
              i = (case attrs tr ''id'' of None \<Rightarrow> ''undefined'' | Some x \<Rightarrow> x);
              vs = find_in d (ref c) (\<lambda>e. tag e = ''a'' \<and> has ''dnsrefoutlink'' e);
              txt = (case vs of [] \<Rightarrow> [] | v # _ \<Rightarrow> etext v);
              (d1, new) = fold (\<lambda>v st. (insert_before (ref v) [outref_field i txt] (fst st), Some (fresh_ref (fst st))))
                vs (d, None);
              p1 = configure_autocomplete (case new of None \<Rightarrow> [] | Some n \<Rightarrow> [n]) (p\<lparr>doc := d1\<rparr>)
          in p1\<lparr>doc := detach_all vs (detach obj (doc p1))\<rparr>
      | _ \<Rightarrow> p)"


section \<open>The fields of a record's type\<close>

definition named :: "string \<Rightarrow> elem \<Rightarrow> bool" where
  "named sub e \<longleftrightarrow> (case attrs e ''name'' of None \<Rightarrow> False | Some n \<Rightarrow> contains sub n)"

definition row_upd :: "nat \<Rightarrow> (elem \<Rightarrow> bool) \<Rightarrow> (elem \<Rightarrow> elem) \<Rightarrow> dom \<Rightarrow> dom" where
  "row_upd t P f d = upd_where (\<lambda>e. inside t e \<and> P e) f d"

definition input_named :: "string \<Rightarrow> elem \<Rightarrow> bool" where
  "input_named sub e \<longleftrightarrow> tag e = ''input'' \<and> named sub e"

definition select_named :: "string \<Rightarrow> elem \<Rightarrow> bool" where
  "select_named sub e \<longleftrightarrow> tag e = ''select'' \<and> named sub e"

text \<open>The autocompletion of the value.\<close>

definition change_value :: "string \<Rightarrow> nat \<Rightarrow> dns_page \<Rightarrow> dns_page" where
  "change_value ty t p =
     (let vals = map ref (find_in (doc p) t (\<lambda>e. tag e = ''input'' \<and> has ''dnsvalue'' e)) in
      if ty \<in> {''CNAME'', ''A'', ''AAAA''}
      then configure_autocomplete vals
        (p\<lparr>doc := row_upd t (\<lambda>e. tag e = ''input'' \<and> has ''dnsvalue'' e) (add_class ''dnsautocomplete'') (doc p)\<rparr>)
      else p\<lparr>doc := row_upd t (\<lambda>e. tag e = ''input'' \<and> has ''dnsvalue'' e) (rm_class ''dnsautocomplete'') (doc p),
             completes := (\<lambda>r. if r \<in> set vals then None else completes p r)\<rparr>)"

text \<open>The box for a PTR record.  \<open>nametr\<close> is the row.\<close>

definition row_id :: "elem \<Rightarrow> string" where
  "row_id nametr = (case attrs nametr ''id'' of None \<Rightarrow> ''undefined'' | Some i \<Rightarrow> i)"

definition change_ptr :: "string \<Rightarrow> elem \<Rightarrow> dom \<Rightarrow> dom" where
  "change_ptr ty nametr d =
     (let t = ref nametr in
      if ty \<in> {''A'', ''AAAA''}
      then
        (case find_in d t (has ''ptrbox'') of
           x # _ \<Rightarrow> upd (ref x) (rm_class ''irrelevant'') d
         | [] \<Rightarrow>
             let newname = (if has ''dnsadd'' nametr then ''new_'' else []) @ ''chk_SHOULD_GENERATE_PTR'' @ ''_'' @ row_id nametr
             in (case find_in d t (has ''ptrtd'') of
                   [] \<Rightarrow> d
                 | c # _ \<Rightarrow> append_to (ref c)
                     [el ''input'' [(''type'', ''checkbox''), (''name'', newname), (''id'', newname)] [''ptrbox'', ''srvnum''] []] d))
      else row_upd t (has ''ptrbox'') (add_class ''irrelevant'') d)"

text \<open>A number field, put before the value.\<close>

definition num_box :: "string \<Rightarrow> string \<Rightarrow> html" where
  "num_box name' placeholder =
     el ''input'' [(''name'', name'), (''id'', name'), (''placeholder'', placeholder), (''original'', '''')]
       [''srvnum'', ''tracked''] []"

definition value_fields :: "dom \<Rightarrow> nat \<Rightarrow> elem list" where
  "value_fields d t = find_in d t (\<lambda>e. input_named ''DNS_VALUE_'' e \<and> \<not> named ''DNS_VALUE_RECORD'' e)"

definition before_value :: "nat list \<Rightarrow> html \<Rightarrow> dom \<Rightarrow> dom" where
  "before_value vs h d = fold (\<lambda>v d. insert_before v [h] d) vs d"

definition record_id :: "elem \<Rightarrow> string" where
  "record_id nametr =
     (case attrs nametr ''new_dns_row_id'' of
        Some i \<Rightarrow> if i \<noteq> [] then i else row_id nametr
      | None \<Rightarrow> row_id nametr)"

definition plus_prefix :: "elem \<Rightarrow> string" where
  "plus_prefix nametr = (if has ''dnsadd'' nametr then ''new_'' else [])"

definition change_priority :: "string \<Rightarrow> elem \<Rightarrow> dom \<Rightarrow> dom" where
  "change_priority ty nametr d =
     (let t = ref nametr in
      if ty \<in> {''SRV'', ''MX''}
      then if find_in d t (input_named ''DNS_PRIORITY'') \<noteq> []
           then row_upd t (input_named ''DNS_PRIORITY'') (rm_class ''irrelevant'') d
           else before_value (map ref (value_fields d t))
             (num_box (plus_prefix nametr @ ''DNS_PRIORITY_'' @ record_id nametr) ''priority'') d
      else d)"

text \<open>The other fields of a service record.\<close>

definition srv_field :: "elem \<Rightarrow> bool" where
  "srv_field e \<longleftrightarrow> select_named ''DNS_SRV_PROTOCOL'' e \<or> input_named ''DNS_SRV_WEIGHT'' e
     \<or> input_named ''DNS_SRV_PORT'' e \<or> select_named ''DNS_SRV_SERVICE'' e"

definition change_service :: "string \<Rightarrow> elem \<Rightarrow> dns_page \<Rightarrow> dns_page" where
  "change_service ty nametr p =
     (let t = ref nametr; d = doc p; vs = map ref (value_fields d t) in
      if ty = ''SRV''
      then if find_in d t (select_named ''DNS_SRV_SERVICE'') \<noteq> []
           then p\<lparr>doc := row_upd t srv_field (rm_class ''irrelevant'') d\<rparr>
           else p\<lparr>requests := requests p @ [''dns-ajax.pl?what=Protocols'', ''dns-ajax.pl?what=Services''],
                  doc := before_value vs (num_box (plus_prefix nametr @ ''DNS_SRV_PORT_'' @ record_id nametr) ''port'')
                    (before_value vs (num_box (plus_prefix nametr @ ''DNS_SRV_WEIGHT_'' @ record_id nametr) ''weight'') d)\<rparr>
      else if ty = ''MX'' then p\<lparr>doc := row_upd t srv_field (add_class ''irrelevant'') d\<rparr>
      else p\<lparr>doc := row_upd t (\<lambda>e. input_named ''DNS_PRIORITY'' e \<or> srv_field e) (add_class ''irrelevant'') d\<rparr>)"

text \<open>
  The whole handler.  \<open>search\<close> is the query string of the page: a malformed escape in it stops the
  handler with an exception.
\<close>

definition change_dns_record :: "string \<Rightarrow> nat \<Rightarrow> dns_page \<Rightarrow> dns_page js" where
  "change_dns_record search obj p =
     (case QsToObj search of
        None \<Rightarrow> Inl URIError
      | Some _ \<Rightarrow>
          (case (getr (doc p) obj, closest_tr (doc p) obj) of
             (Some s, Some nametr) \<Rightarrow>
               let ty = value_of (doc p) s;
                   p1 = fold make_outref_editable
                     (map ref (find_in (doc p) (ref nametr) (\<lambda>e. tag e = ''a'' \<and> has ''dnsrefouteditbutton'' e))) p;
                   p2 = change_value ty (ref nametr) p1;
                   p3 = p2\<lparr>doc := change_priority ty nametr (change_ptr ty nametr (doc p2))\<rparr>
               in Inr (change_service ty nametr p3)
           | _ \<Rightarrow> Inr p))"

text \<open>
  The two answers for a service record.  The services go before the drop-down of the protocols; while
  that is not in the page yet (\<open>None\<close>) there is no such place, and nothing is inserted.
\<close>

definition drop_html :: "drop \<Rightarrow> html" where
  "drop_html s = Html (fst s) (map (\<lambda>x. Html x []) (snd s))"

definition new_drop :: drop where
  "new_drop = (new_el ''select'' [] [], [])"

definition srv_drop :: "(string \<rightharpoonup> string) \<Rightarrow> elem \<Rightarrow> (string \<times> (string \<times> string option) list) list \<Rightarrow> string \<Rightarrow> drop js" where
  "srv_drop params nametr detail placeholder =
     build_dns_drop new_drop detail params (attrs nametr ''id'')
       (if has ''dnsadd'' nametr then ''new'' else []) (attrs nametr ''new_dns_row_id'') placeholder"

definition protocols_answer ::
  "(string \<rightharpoonup> string) \<Rightarrow> elem \<Rightarrow> (string \<times> (string \<times> string option) list) list \<Rightarrow> dom \<Rightarrow> (dom \<times> nat option) js" where
  "protocols_answer params nametr detail d =
     js_bind (srv_drop params nametr detail ''protocol'') (\<lambda>s.
       case find_in d (ref nametr) (\<lambda>e. tag e = ''td'' \<and> has ''DNS_NAME'' e) of
         [] \<Rightarrow> Inr (d, None)
       | c # _ \<Rightarrow> Inr (prepend_to (ref c) [drop_html s] d, Some (fresh_ref d)))"

definition services_answer ::
  "(string \<rightharpoonup> string) \<Rightarrow> elem \<Rightarrow> (string \<times> (string \<times> string option) list) list \<Rightarrow> nat option \<Rightarrow> dom \<Rightarrow> dom js" where
  "services_answer params nametr detail protos d =
     js_bind (srv_drop params nametr detail ''service'') (\<lambda>s.
       case protos of None \<Rightarrow> Inr d | Some r \<Rightarrow> Inr (insert_before r [drop_html s] d))"

section \<open>A new record\<close>

definition dnsrow_key :: "nat \<Rightarrow> string" where
  "dnsrow_key n = ''new_DNS_NAME_'' @ nat_str n"

definition dns_row :: "choice list \<Rightarrow> choice list \<Rightarrow> nat \<Rightarrow> html list" where
  "dns_row types classes n =
     (let s = nat_str n; named' = (\<lambda>p. [(''name'', p @ s), (''id'', p @ s)]) in
      [el ''tr'' [(''new_dns_row_id'', s)] [''dnsrecord'', ''dnsadd'', if n mod 2 \<noteq> 0 then ''even'' else ''odd'']
        [el ''td'' [] []
          [el ''a'' [] [''purgerow''] [],
           Html ((new_el ''input'' [(''type'', ''checkbox''), (''name'', ''new_IS_ENABLED_'' @ s)] [])\<lparr>on := True\<rparr>) []],
         el ''td'' [] [''DNS_NAME'']
          [el ''input'' ((''type'', ''text'') # named' ''new_DNS_NAME_'') [''dnsname''] []],
         el ''td'' [] []
          [el ''input'' ((''type'', ''text'') # named' ''new_DNS_TTL'') [''dnsttl'', ''off''] [],
           el ''a'' [(''href'', ''#''), (''title'', ''edit'')] [''stabeditbutton''] []],
         el ''td'' [] [] [el ''select'' (named' ''new_DNS_CLASS_'') [''dnsclass''] (map option_html classes)],
         el ''td'' [] [] [el ''select'' (named' ''new_DNS_TYPE_'') [''dnstype''] (map option_html types)],
         el ''td'' [] []
          [el ''input'' [(''type'', ''hidden''), (''name'', ''new_DNS_VALUE_RECORD_ID_'' @ s)] [''valdnsrecid''] [],
           el ''input'' ((''type'', ''text'') # named' ''new_DNS_VALUE_'') [''dnsvalue''] []],
         el ''td'' [] []
          [el ''input'' [(''type'', ''checkbox''), (''name'', ''new_SHOULD_GENERATE_PTR_'' @ s)] [''ptrbox'', ''irrelevant''] []]]])"

definition add_new_dns_row :: "nat \<Rightarrow> choice list \<Rightarrow> choice list \<Rightarrow> dom \<Rightarrow> dom option" where
  "add_new_dns_row button types classes d =
     map_option (\<lambda>n. row_after button (dns_row types classes n) d) (first_free (id_taken dnsrow_key d) 1)"

text \<open>A click on the button asks the server for the types and classes first.\<close>

definition adddnsrec_click :: "dns_page \<Rightarrow> dns_page" where
  "adddnsrec_click p = p\<lparr>requests := requests p @ [''dns-ajax.pl?json=yes;what=dnsaddrow'']\<rparr>"

section \<open>Another page of the zone\<close>

text \<open>Enter in the page field; a number that is not one becomes \<open>NaN\<close> in the address.\<close>

definition page_jump :: "int option \<Rightarrow> int \<Rightarrow> string \<Rightarrow> string" where
  "page_jump v limit link =
     (let l = strip_params '';LIMIT='' (strip_params '';OFFSET='' link) in
      l @ '';OFFSET='' @ (case v of None \<Rightarrow> ''NaN'' | Some n \<Rightarrow> int_str ((n - 1) * limit)) @ '';LIMIT='' @ int_str limit)"

text \<open>At load: the form of an SRV or MX record is expanded, every field gets its completion.\<close>

definition dns_ready :: "string \<Rightarrow> dns_page \<Rightarrow> dns_page js" where
  "dns_ready search p =
     js_bind
       (case by_id (doc p) ''DNS_TYPE'' of
          Some s \<Rightarrow> if value_of (doc p) s \<in> {''SRV'', ''MX''} then change_dns_record search (ref s) p else Inr p
        | None \<Rightarrow> Inr p)
       (\<lambda>p1. Inr (configure_all p1))"


section \<open>New records have numbers of their own\<close>

interpretation dnsrow: row_form dnsrow_key "dns_row types classes" "row_after btn" "row_button_ok btn"
  for types classes btn
proof
  show "dnsrow_key m = dnsrow_key n \<Longrightarrow> m = n" for m n
    by (simp add: dnsrow_key_def)
  show "(\<exists>h \<in> set (dns_row types classes n). \<exists>x \<in> set (html_elems h).
      tag x = ''input'' \<and> attrs x ''id'' = Some (dnsrow_key k)) \<longleftrightarrow> k = n" for n k
    by (auto simp: dns_row_def dnsrow_key_def Let_def)
  show "row_button_ok btn d \<Longrightarrow> \<exists>p. set (row_after btn hs d) = set d \<union> set (place_list p (fresh_ref d) hs)" for d hs
    by (rule row_set(2))
  show "row_button_ok btn d \<Longrightarrow> row_button_ok btn (row_after btn hs d)" for d hs
    by (metis row_button_ok_def row_button_ok_extends row_extends(2))
qed

text \<open>
  C31: Every click of the button for a new record finds a free row number, and any number of clicks
  brings as many new row numbers: the fields of two new records never share a name.
\<close>

theorem new_records_distinct:
  assumes "row_button_ok btn d"
  shows "\<exists>d'. iterate_opt k (add_new_dns_row btn types classes) d = Some d'
     \<and> card {n. id_taken dnsrow_key d' n} = card {n. id_taken dnsrow_key d n} + k"
  using dnsrow.adding_rows [OF assms, of k types classes 1]
  by (auto simp: add_new_dns_row_def [abs_def])

theorem new_records_distinct_witness:
  "\<exists>d'. iterate_opt 2 (add_new_dns_row 4 [] []) demo_refs = Some d'
     \<and> card {n. id_taken dnsrow_key d' n} = card {n. id_taken dnsrow_key demo_refs n} + 2"
proof -
  have "map_option ref (closest_tr demo_refs 4) = Some 2" by code_simp
  then have "row_button_ok 4 demo_refs" using demo_refs_wf by (auto simp: row_button_ok_def)
  then show ?thesis by (rule new_records_distinct)
qed

section \<open>The query string is read back\<close>

definition qs_plain :: "string \<Rightarrow> bool" where
  "qs_plain s \<longleftrightarrow> CHR '';'' \<notin> set s \<and> CHR ''='' \<notin> set s \<and> CHR ''%'' \<notin> set s"

lemma decode_plain: "CHR ''%'' \<notin> set s \<Longrightarrow> decodeURIComponent s = Some s"
  by (induction s) auto

lemma qs_fields_plain:
  "\<forall>(k, v) \<in> set ps. qs_plain k \<and> qs_plain v \<Longrightarrow>
     qs_fields (map (\<lambda>(k, v). k @ ''='' @ v) ps) rv = Some (rv ++ map_of (rev ps))"
proof (induction ps arbitrary: rv)
  case (Cons p ps)
  obtain k v where p: "p = (k, v)" by (cases p)
  have "split_on (CHR ''='') (k @ ''='' @ v) = [k, v]"
    using Cons.prems p by (simp add: split_on_append split_on_plain qs_plain_def)
  then have "qs_fields (map (\<lambda>(k, v). k @ ''='' @ v) (p # ps)) rv
      = qs_fields (map (\<lambda>(k, v). k @ ''='' @ v) ps) (rv(k \<mapsto> v))"
    using Cons.prems p decode_plain [of v] by (simp add: qs_plain_def)
  also have "\<dots> = Some (rv(k \<mapsto> v) ++ map_of (rev ps))" using Cons by simp
  also have "rv(k \<mapsto> v) ++ map_of (rev ps) = rv ++ map_of (rev (p # ps))"
    by (auto simp: p map_add_def fun_eq_iff split: option.split)
  finally show ?case .
qed simp

text \<open>
  A query string written as \<open>key=value\<close> pairs between semicolons, without characters that need
  an escape, is read back as the object of these pairs, the last one of a key counting.
\<close>

theorem query_string_read:
  assumes "\<forall>(k, v) \<in> set ps. qs_plain k \<and> qs_plain v" "ps \<noteq> []"
  shows "QsToObj (''?'' @ join_with '';'' (map (\<lambda>(k, v). k @ ''='' @ v) ps)) = Some (map_of (rev ps))"
proof -
  have "\<forall>x \<in> set (map (\<lambda>(k, v). k @ ''='' @ v) ps). CHR '';'' \<notin> set x"
    using assms(1) by (auto simp: qs_plain_def)
  then show ?thesis
    using split_join [of "map (\<lambda>(k, v). k @ ''='' @ v) ps" "CHR '';''"] assms qs_fields_plain [OF assms(1)]
    by (simp add: QsToObj_def)
qed

theorem query_string_read_witness:
  "QsToObj ''?DNS_TYPE=SRV;DNS_PRIORITY=5'' = Some [''DNS_TYPE'' \<mapsto> ''SRV'', ''DNS_PRIORITY'' \<mapsto> ''5'']"
  using query_string_read [of "[(''DNS_TYPE'', ''SRV''), (''DNS_PRIORITY'', ''5'')]"]
  by (simp add: qs_plain_def fun_upd_twist)

section \<open>Drop-downs\<close>

lemma js_foldl_Inl:
  "(\<And>s x. f s x = Inl TypeError \<or> (\<exists>s'. f s x = Inr s')) \<Longrightarrow> (\<And>s t x. (\<exists>a. f s x = Inl a) = (\<exists>a. f t x = Inl a))
    \<Longrightarrow> js_foldl f s xs = Inl TypeError \<longleftrightarrow> (\<exists>x \<in> set xs. \<exists>a. f s x = Inl a)"
proof (induction xs arbitrary: s)
  case (Cons x xs)
  show ?case
  proof (cases "f s x")
    case (Inl a)
    then show ?thesis using Cons.prems(1) [of s x] by auto
  next
    case (Inr s')
    have "(\<exists>y \<in> set xs. \<exists>a. f s' y = Inl a) \<longleftrightarrow> (\<exists>y \<in> set xs. \<exists>a. f s y = Inl a)"
      using Cons.prems(2) by blast
    then show ?thesis using Inr Cons.IH [of s'] Cons.prems by simp
  qed
qed simp

lemma js_foldl_total:
  "(\<And>s x. f s x = Inl TypeError \<or> (\<exists>s'. f s x = Inr s')) \<Longrightarrow> js_foldl f s xs = Inl TypeError \<or> (\<exists>s'. js_foldl f s xs = Inr s')"
proof (induction xs arbitrary: s)
  case (Cons x xs)
  show ?case
  proof (cases "f s x")
    case (Inl a)
    then have "a = TypeError" using Cons.prems [of s x] by simp
    then show ?thesis using Inl by simp
  next
    case (Inr s')
    then show ?thesis using Cons.IH [of s'] Cons.prems by simp
  qed
qed simp

lemma drop_field_fails:
  "(\<exists>a. drop_field params i pref suff placeholder sel fd = Inl a)
     \<longleftrightarrow> (\<exists>kv \<in> set (snd fd). params (fst fd) = Some (choice_value kv))"
  "drop_field params i pref suff placeholder sel fd = Inl TypeError
     \<or> (\<exists>s'. drop_field params i pref suff placeholder sel fd = Inr s')"
proof -
  let ?f = "drop_option params (fst fd)"
  have 1: "?f s x = Inl TypeError \<or> (\<exists>s'. ?f s x = Inr s')" for s x by (simp add: drop_option_def)
  have 2: "(\<exists>a. ?f s x = Inl a) = (params (fst fd) = Some (choice_value x))" for s x
    by (simp add: drop_option_def)
  obtain e where e: "drop_field params i pref suff placeholder sel fd
      = js_bind (js_foldl ?f (e, snd sel) (snd fd)) (\<lambda>st. Inr (fst st,
          (if placeholder \<noteq> [] then [(option_el True [] placeholder)\<lparr>off := True\<rparr>] else []) @ snd st))"
    by (simp add: drop_field_def Let_def)
  have t: "js_foldl ?f (e, snd sel) (snd fd) = Inl TypeError \<or> (\<exists>s'. js_foldl ?f (e, snd sel) (snd fd) = Inr s')"
    by (rule js_foldl_total [OF 1])
  have l: "js_foldl ?f (e, snd sel) (snd fd) = Inl TypeError
      \<longleftrightarrow> (\<exists>kv \<in> set (snd fd). params (fst fd) = Some (choice_value kv))"
    using js_foldl_Inl [of ?f, OF 1] 2 by simp
  show "(\<exists>a. drop_field params i pref suff placeholder sel fd = Inl a)
     \<longleftrightarrow> (\<exists>kv \<in> set (snd fd). params (fst fd) = Some (choice_value kv))"
    using t l e by auto
  show "drop_field params i pref suff placeholder sel fd = Inl TypeError
     \<or> (\<exists>s'. drop_field params i pref suff placeholder sel fd = Inr s')"
    using t e by auto
qed

text \<open>
  Building a drop-down fails, with a \<open>TypeError\<close>, exactly when the query string names one of its
  fields with one of its values: the preselection the code means to make never happens.
\<close>

theorem drop_preselection_fails:
  "(\<exists>x. build_dns_drop sel detail params i pref suff placeholder = Inl x) =
     (\<exists>fd \<in> set detail. \<exists>kv \<in> set (snd fd). params (fst fd) = Some (choice_value kv))"
proof -
  let ?f = "drop_field params i pref suff placeholder"
  have t: "js_foldl ?f sel detail = Inl TypeError \<or> (\<exists>s'. js_foldl ?f sel detail = Inr s')"
    by (rule js_foldl_total [OF drop_field_fails(2)])
  have "js_foldl ?f sel detail = Inl TypeError \<longleftrightarrow> (\<exists>x \<in> set detail. \<exists>a. ?f sel x = Inl a)"
    by (rule js_foldl_Inl [OF drop_field_fails(2)]) (simp add: drop_field_fails(1))
  then show ?thesis using t unfolding build_dns_drop_def drop_field_fails(1) by auto
qed

section \<open>Another page\<close>

lemma strip_params_sep:
  assumes "c \<notin> set ks" "\<not> is_digit c" "\<not> has_param (c # ks) a"
  shows "strip_params (c # ks) (a @ c # b) = a @ strip_params (c # ks) (c # b)"
  using assms(3)
proof (induction a)
  case (Cons x a)
  then show ?case
    using param_here_sep [OF assms(1,2), of "x # a" b] by simp
qed simp

lemma strip_params_at:
  assumes "ds \<noteq> []" "\<forall>c \<in> set ds. is_digit c" "t = [] \<or> \<not> is_digit (hd t)"
  shows "strip_params (c # ks) ((c # ks) @ ds @ t) = strip_params (c # ks) t"
proof -
  have "dropWhile is_digit (ds @ t) = t"
    using assms(2,3) by (cases t) (auto simp: dropWhile_append)
  moreover have "param_here (c # ks) (c # ks @ ds @ t)"
    using param_here_digits [OF assms(1,2), of "c # ks" t] by simp
  ultimately show ?thesis by simp
qed

text \<open>
  Whatever numbers are entered in the page field one after the other, the address keeps one offset
  and one limit, those of the last number.
\<close>

theorem page_jumps_address:
  assumes "\<not> has_param '';OFFSET='' base" "\<not> has_param '';LIMIT='' base"
    and "0 \<le> limit" "\<forall>n \<in> set ns. 1 \<le> n" "ns \<noteq> []"
  shows "fold (\<lambda>n. page_jump (Some n) limit) ns base
     = base @ '';OFFSET='' @ nat_str (nat ((last ns - 1) * limit)) @ '';LIMIT='' @ nat_str (nat limit)"
proof -
  let ?addr = "\<lambda>n. base @ '';OFFSET='' @ nat_str (nat ((n - 1) * limit)) @ '';LIMIT='' @ nat_str (nat limit)"
  let ?K = "CHR '';'' # ''OFFSET=''" and ?L = "CHR '';'' # ''LIMIT=''"
  have L: "\<not> has_param ?K (?L @ nat_str m)" for m
    using has_param_params [of "''OFFSET''" "[(''LIMIT'', nat_str m)]"] nat_str_tok(1) [of m]
    by (simp add: key_ok_def param_def)
  have o: "strip_params ?K (?addr n) = base @ '';LIMIT='' @ nat_str (nat limit)" for n
  proof -
    let ?t = "?L @ nat_str (nat limit)"
    have "strip_params ?K (base @ CHR '';'' # (''OFFSET='' @ nat_str (nat ((n - 1) * limit)) @ ?t))
        = base @ strip_params ?K (?K @ nat_str (nat ((n - 1) * limit)) @ ?t)"
      using assms(1) semicolon_no_digit by (subst strip_params_sep) simp_all
    also have "strip_params ?K (?K @ nat_str (nat ((n - 1) * limit)) @ ?t) = strip_params ?K ?t"
      using nat_str_tok(2) semicolon_no_digit by (intro strip_params_at) simp_all
    also have "\<dots> = ?t" by (rule strip_params_none [OF L])
    finally show ?thesis by simp
  qed
  have l: "strip_params ?L (base @ '';LIMIT='' @ nat_str m) = base" for m
  proof -
    have "strip_params ?L (base @ CHR '';'' # (''LIMIT='' @ nat_str m))
        = base @ strip_params ?L (?L @ nat_str m @ [])"
      using assms(2) semicolon_no_digit by (subst strip_params_sep) simp_all
    also have "strip_params ?L (?L @ nat_str m @ []) = strip_params ?L []"
      using nat_str_tok(2) by (intro strip_params_at) simp_all
    finally show ?thesis by simp
  qed
  have jump: "page_jump (Some n) limit base = ?addr n" "page_jump (Some n) limit (?addr m) = ?addr n"
    if "1 \<le> n" for n m
  proof -
    have pos: "0 \<le> (n - 1) * limit" using that assms(3) by simp
    have b: "strip_params ?K base = base" "strip_params ?L base = base"
      using assms(1,2) strip_params_none by blast+
    show "page_jump (Some n) limit base = ?addr n"
      using pos assms(3) b by (simp add: page_jump_def int_str_def)
    show "page_jump (Some n) limit (?addr m) = ?addr n"
      unfolding page_jump_def o l Let_def option.case using pos assms(3) by (simp add: int_str_def)
  qed
  show ?thesis
    using assms(4,5)
  proof (induction ns rule: rev_induct)
    case (snoc n ns)
    then show ?case using jump by (cases "ns = []") simp_all
  qed simp
qed

theorem page_jumps_address_witness:
  "fold (\<lambda>n. page_jump (Some n) 50) [2, 7] ''/dns/?x=1'' = ''/dns/?x=1;OFFSET=300;LIMIT=50''"
proof -
  have "nat_str 300 = ''300''" "nat_str 50 = ''50''" by code_simp+
  then show ?thesis
    using page_jumps_address [of "''/dns/?x=1''" 50 "[2, 7]"] by (simp add: param_here_def)
qed


section \<open>Which fields a type shows\<close>

text \<open>A change of the page that touches classes other than these only in the two the handler uses.\<close>

definition class_map :: "(elem \<Rightarrow> elem) \<Rightarrow> bool" where
  "class_map f \<longleftrightarrow> (\<forall>e. ref (f e) = ref e \<and> path (f e) = path e \<and> tag (f e) = tag e \<and> attrs (f e) = attrs e
     \<and> (\<forall>c. c \<noteq> ''irrelevant'' \<and> c \<noteq> ''dnsautocomplete'' \<longrightarrow> has c (f e) = has c e))"

lemma class_mapI:
  "class_map (\<lambda>e. if P e then add_class ''irrelevant'' e else e)"
  "class_map (\<lambda>e. if P e then rm_class ''irrelevant'' e else e)"
  "class_map (\<lambda>e. if P e then add_class ''dnsautocomplete'' e else e)"
  "class_map (\<lambda>e. if P e then rm_class ''dnsautocomplete'' e else e)"
  "class_map (\<lambda>e. e)"
  by (simp_all add: class_map_def)

lemma class_map_keeps: "class_map f \<Longrightarrow> keeps f"
  by (simp add: class_map_def keeps_def)

lemma class_map_named:
  assumes "class_map f"
  shows "input_named s (f e) = input_named s e" "select_named s (f e) = select_named s e"
    "srv_field (f e) = srv_field e" "has ''ptrbox'' (f e) = has ''ptrbox'' e" "inside t (f e) = inside t e"
  using assms
  by (simp_all add: class_map_def input_named_def select_named_def srv_field_def named_def inside_def)

text \<open>
  A row whose fields are all there: one PTR box, a priority and the fields of a service record, no field
  being two of these.
\<close>

definition full_row :: "nat \<Rightarrow> dom \<Rightarrow> bool" where
  "full_row t d \<longleftrightarrow>
     find_in d t (\<lambda>e. tag e = ''a'' \<and> has ''dnsrefouteditbutton'' e) = []
     \<and> find_in d t (input_named ''DNS_PRIORITY'') \<noteq> [] \<and> find_in d t (select_named ''DNS_SRV_SERVICE'') \<noteq> []
     \<and> length (find_in d t (has ''ptrbox'')) = 1 \<and> distinct (map ref d)
     \<and> (\<forall>e \<in> set d. inside t e \<longrightarrow> \<not> (input_named ''DNS_PRIORITY'' e \<and> srv_field e)
          \<and> \<not> (has ''ptrbox'' e \<and> (input_named ''DNS_PRIORITY'' e \<or> srv_field e)))"

lemma full_row_map:
  assumes "class_map f" "full_row t d"
  shows "full_row t (map f d)"
proof -
  note k = class_map_keeps [OF assms(1)]
  have out: "tag (f e) = ''a'' \<and> has ''dnsrefouteditbutton'' (f e) \<longleftrightarrow> tag e = ''a'' \<and> has ''dnsrefouteditbutton'' e" for e
    using assms(1) by (simp add: class_map_def)
  note q = find_in_map [OF k, where P = "\<lambda>e. tag e = ''a'' \<and> has ''dnsrefouteditbutton'' e", OF out]
    find_in_map [OF k, where P = "input_named ''DNS_PRIORITY''", OF class_map_named(1) [OF assms(1)]]
    find_in_map [OF k, where P = "select_named ''DNS_SRV_SERVICE''", OF class_map_named(2) [OF assms(1)]]
    find_in_map [OF k, where P = "has ''ptrbox''", OF class_map_named(4) [OF assms(1)]]
  have r: "map ref (map f d) = map ref d" using k by (simp add: keeps_ref)
  show ?thesis
    using assms(2) unfolding full_row_def q r
    by (simp add: class_map_named [OF assms(1)])
qed

definition g_value :: "string \<Rightarrow> nat \<Rightarrow> elem \<Rightarrow> elem" where
  "g_value ty t e =
     (if inside t e \<and> tag e = ''input'' \<and> has ''dnsvalue'' e
      then (if ty \<in> {''CNAME'', ''A'', ''AAAA''} then add_class ''dnsautocomplete'' e else rm_class ''dnsautocomplete'' e)
      else e)"

definition g_ptr :: "string \<Rightarrow> nat \<Rightarrow> elem \<Rightarrow> elem" where
  "g_ptr ty t e =
     (if inside t e \<and> has ''ptrbox'' e
      then (if ty \<in> {''A'', ''AAAA''} then rm_class ''irrelevant'' e else add_class ''irrelevant'' e) else e)"

definition g_priority :: "string \<Rightarrow> nat \<Rightarrow> elem \<Rightarrow> elem" where
  "g_priority ty t e =
     (if ty \<in> {''SRV'', ''MX''} \<and> inside t e \<and> input_named ''DNS_PRIORITY'' e then rm_class ''irrelevant'' e else e)"

definition g_service :: "string \<Rightarrow> nat \<Rightarrow> elem \<Rightarrow> elem" where
  "g_service ty t e =
     (if inside t e \<and> (srv_field e \<or> input_named ''DNS_PRIORITY'' e \<and> ty \<notin> {''SRV'', ''MX''})
      then (if ty = ''SRV'' then rm_class ''irrelevant'' e else add_class ''irrelevant'' e) else e)"

lemma class_map_g [simp]:
  "class_map (g_value ty t)" "class_map (g_ptr ty t)" "class_map (g_priority ty t)" "class_map (g_service ty t)"
  by (simp_all add: class_map_def g_value_def g_ptr_def g_priority_def g_service_def)

lemma change_value_map: "doc (change_value ty t p) = map (g_value ty t) (doc p)"
  by (auto simp: change_value_def row_upd_def upd_where_def g_value_def configure_autocomplete_def Let_def)

lemma change_ptr_map:
  assumes "full_row (ref tr) d"
  shows "change_ptr ty tr d = map (g_ptr ty (ref tr)) d"
proof (cases "ty \<in> {''A'', ''AAAA''}")
  case True
  have "length (find_in d (ref tr) (has ''ptrbox'')) = Suc 0" using assms by (simp add: full_row_def)
  then obtain x where x: "find_in d (ref tr) (has ''ptrbox'') = [x]" unfolding length_Suc_conv by blast
  then have "set (filter (\<lambda>e. inside (ref tr) e \<and> has ''ptrbox'' e) d) = {x}"
    unfolding find_in_def by simp
  then have xs: "{e \<in> set d. inside (ref tr) e \<and> has ''ptrbox'' e} = {x}" by simp
  then have x1: "x \<in> set d" "\<And>e. e \<in> set d \<Longrightarrow> inside (ref tr) e \<and> has ''ptrbox'' e \<longleftrightarrow> e = x"
    by blast+
  have "ref e = ref x \<longleftrightarrow> inside (ref tr) e \<and> has ''ptrbox'' e" if "e \<in> set d" for e
  proof -
    have inj: "inj_on ref (set d)" using assms by (simp add: full_row_def distinct_map)
    have "ref e = ref x \<longleftrightarrow> e = x" by (rule inj_on_eq_iff [OF inj that x1(1)])
    then show ?thesis by (simp add: x1(2) [OF that])
  qed
  then have "upd (ref x) (rm_class ''irrelevant'') d = map (g_ptr ty (ref tr)) d"
    using True by (simp add: upd_def g_ptr_def)
  then show ?thesis using True x by (simp add: change_ptr_def Let_def)
next
  case False
  then show ?thesis
    by (simp add: change_ptr_def Let_def row_upd_def upd_where_def g_ptr_def)
qed

lemma change_priority_map:
  assumes "full_row (ref tr) d"
  shows "change_priority ty tr d = map (g_priority ty (ref tr)) d"
proof -
  have "find_in d (ref tr) (input_named ''DNS_PRIORITY'') \<noteq> []" using assms by (simp add: full_row_def)
  then show ?thesis
    by (cases "ty \<in> {''SRV'', ''MX''}")
      (auto simp: change_priority_def Let_def row_upd_def upd_where_def g_priority_def intro!: map_idI [symmetric])
qed

lemma change_service_map:
  assumes "full_row (ref tr) (doc p)"
  shows "doc (change_service ty tr p) = map (g_service ty (ref tr)) (doc p)"
proof -
  have "find_in (doc p) (ref tr) (select_named ''DNS_SRV_SERVICE'') \<noteq> []"
    using assms by (simp add: full_row_def)
  then show ?thesis
    by (cases "ty = ''SRV''"; cases "ty = ''MX''")
      (auto simp: change_service_def Let_def row_upd_def upd_where_def g_service_def)
qed

lemma change_record_map:
  assumes "QsToObj search = Some prm" "getr (doc p) obj = Some s" "closest_tr (doc p) obj = Some tr"
    and "full_row (ref tr) (doc p)"
  shows "\<exists>p'. change_dns_record search obj p = Inr p' \<and>
     doc p' = map (g_service (value_of (doc p) s) (ref tr)) (map (g_priority (value_of (doc p) s) (ref tr))
       (map (g_ptr (value_of (doc p) s) (ref tr)) (map (g_value (value_of (doc p) s) (ref tr)) (doc p))))"
proof -
  let ?ty = "value_of (doc p) s" and ?t = "ref tr"
  have none: "find_in (doc p) ?t (\<lambda>e. tag e = ''a'' \<and> has ''dnsrefouteditbutton'' e) = []"
    using assms(4) by (simp add: full_row_def)
  let ?d2 = "map (g_value ?ty ?t) (doc p)"
  let ?d3 = "map (g_ptr ?ty ?t) ?d2"
  let ?d4 = "map (g_priority ?ty ?t) ?d3"
  have f2: "full_row ?t ?d2" by (rule full_row_map [OF _ assms(4)]) simp
  have f3: "full_row ?t ?d3" by (rule full_row_map [OF _ f2]) simp
  have f4: "full_row ?t ?d4" by (rule full_row_map [OF _ f3]) simp
  let ?p2 = "change_value ?ty ?t p"
  let ?p3 = "?p2\<lparr>doc := change_priority ?ty tr (change_ptr ?ty tr (doc ?p2))\<rparr>"
  have d3: "doc ?p3 = ?d4"
    by (simp add: change_value_map change_ptr_map [OF f2] change_priority_map [OF f3] del: map_map)
  have "change_dns_record search obj p = Inr (change_service ?ty tr ?p3)"
    unfolding change_dns_record_def assms(1-3) by (simp add: none Let_def)
  moreover have "doc (change_service ?ty tr ?p3) = map (g_service ?ty ?t) ?d4"
    using change_service_map [of tr ?p3 ?ty] f4 unfolding d3 by simp
  ultimately show ?thesis by blast
qed


text \<open>A row with all its fields.\<close>

definition demo_record :: dns_page where
  "demo_record = \<lparr>doc = [(new_el ''tr'' [(''id'', ''12'')] [])\<lparr>ref := 1\<rparr>,
       (new_el ''select'' [] [''dnstype''])\<lparr>ref := 2, path := [1]\<rparr>,
       (option_el True ''SRV'' ''SRV'')\<lparr>ref := 3, path := [2, 1]\<rparr>,
       (new_el ''input'' [(''name'', ''DNS_PRIORITY_12'')] [''irrelevant''])\<lparr>ref := 4, path := [1]\<rparr>,
       (new_el ''select'' [(''name'', ''DNS_SRV_SERVICE_12'')] [''irrelevant''])\<lparr>ref := 5, path := [1]\<rparr>,
       (new_el ''input'' [(''name'', ''chk_SHOULD_GENERATE_PTR_12'')] [''ptrbox''])\<lparr>ref := 6, path := [1]\<rparr>],
     alerts = [], requests = [], location = [], completes = Map.empty\<rparr>"


end
