(* ===== verification/StabCommon.thy ===== *)
theory StabCommon
  imports Dom
begin

text \<open>
  \<open>stab-common.js\<close>, and the three small files every page can load: \<open>ajax-utils.js\<close> (the request
  object), \<open>tickets.js\<close> (the field for a ticket number) and \<open>devicetype.js\<close> (plug pictures and the
  checkboxes of the port templates).
\<close>

section \<open>Arrows\<close>

definition to_lower :: "char \<Rightarrow> char" where
  "to_lower c = (let n = (of_char c :: nat) in if 65 \<le> n \<and> n \<le> 90 then char_of (n + 32) else c)"

definition toLowerCase :: "string \<Rightarrow> string" where
  "toLowerCase s = map to_lower s"

text \<open>
  \<open>s.replace(/p.*$/gi, r)\<close>: from the first occurrence of \<open>p\<close>, in either case, to the end.
\<close>

fun replace_tail_i :: "string \<Rightarrow> string \<Rightarrow> string \<Rightarrow> string" where
  "replace_tail_i p r [] = []"
| "replace_tail_i p r (c # cs) =
     (if prefix (toLowerCase p) (toLowerCase (c # cs)) then r else c # replace_tail_i p r cs)"

datatype arrow = Down | Up | Dance | Hide

definition arrow_src :: "arrow \<Rightarrow> string \<Rightarrow> string" where
  "arrow_src state src =
     (case state of
        Down \<Rightarrow> replace_tail_i ''stabcons/'' ''stabcons/collapse.jpg'' src
      | Up \<Rightarrow> replace_tail_i ''stabcons/'' ''stabcons/expand.jpg'' src
      | _ \<Rightarrow> src)"

definition src_of :: "elem \<Rightarrow> string" where
  "src_of e = (case attrs e ''src'' of None \<Rightarrow> [] | Some s \<Rightarrow> s)"

definition swaparrows :: "string \<Rightarrow> arrow \<Rightarrow> dom \<Rightarrow> dom" where
  "swaparrows i state d =
     (case by_id d i of
        None \<Rightarrow> d
      | Some img \<Rightarrow>
          if state \<in> {Down, Up} then upd (ref img) (set_attr ''src'' (arrow_src state (src_of img))) d else d)"

text \<open>
  The version for a jQuery object, a list of elements.  All of them get the source made from the first;
  an image without the attribute raises a \<open>TypeError\<close>.
\<close>

definition swaparrows_jq :: "elem list \<Rightarrow> arrow \<Rightarrow> dom \<Rightarrow> dom js" where
  "swaparrows_jq obj state d =
     (if obj = [] then Inr d
      else if state = Hide then Inr (upd_refs obj (add_class ''irrelevant'') d)
      else
        let d1 = upd_refs obj (rm_class ''irrelevant'') d in
        if state = Dance then Inr d1
        else
          (case attrs (hd obj) ''src'' of
             None \<Rightarrow> Inl TypeError
           | Some thing \<Rightarrow> Inr (upd_refs obj (set_attr ''src'' (arrow_src state thing)) d1)))"

text \<open>A spinner that is only shown and hidden needs no source.\<close>

definition spinner :: "elem list \<Rightarrow> bool \<Rightarrow> dom \<Rightarrow> dom" where
  "spinner obj busy d = upd_refs obj (if busy then rm_class ''irrelevant'' else add_class ''irrelevant'') d"

lemma swaparrows_jq_spinner:
  "swaparrows_jq obj Dance d = Inr (spinner obj True d)" "swaparrows_jq obj Hide d = Inr (spinner obj False d)"
  by (auto simp: swaparrows_jq_def spinner_def Let_def upd_refs_def upd_where_def)

section \<open>The edit button of a text field\<close>

text \<open>\<open>$(e).prev(P)\<close>: the sibling right before an element, when it satisfies \<open>P\<close>.\<close>

definition prev_sibling :: "dom \<Rightarrow> elem \<Rightarrow> (elem \<Rightarrow> bool) \<Rightarrow> elem list" where
  "prev_sibling d e P =
     (case filter (\<lambda>x. path x = path e) (takeWhile (\<lambda>x. ref x \<noteq> ref e) d) of
        [] \<Rightarrow> []
      | xs \<Rightarrow> if P (last xs) then [last xs] else [])"

definition toggleon_text :: "nat \<Rightarrow> dom \<Rightarrow> dom" where
  "toggleon_text but d =
     (case getr d but of
        None \<Rightarrow> d
      | Some b \<Rightarrow>
          upd but (add_class ''irrelevant'') (upd_refs (prev_sibling d b is_input) (toggle_class ''off'') d))"

section \<open>Tabs\<close>

text \<open>
  The contents of a tab: the \<open>div.stabtab\<close> with the identifier of the tab, anywhere below a
  \<open>div.stabtabcontent\<close> of the tab set \<open>t\<close>.
\<close>

definition tab_content :: "dom \<Rightarrow> nat \<Rightarrow> string \<Rightarrow> elem \<Rightarrow> bool" where
  "tab_content d t i e \<longleftrightarrow>
     tag e = ''div'' \<and> has ''stabtab'' e \<and> attrs e ''id'' = Some i
     \<and> (\<exists>c \<in> set (ancestors d e). inside t c \<and> tag c = ''div'' \<and> has ''stabtabcontent'' c)"

definition attr_or_undefined :: "string \<Rightarrow> elem \<Rightarrow> string" where
  "attr_or_undefined a e = (case attrs e a of None \<Rightarrow> ''undefined'' | Some x \<Rightarrow> x)"

definition tab_on :: "elem \<Rightarrow> elem" where
  "tab_on e = add_class ''stabtab_on'' (rm_class ''stabtab_off'' e)"

definition tab_off :: "elem \<Rightarrow> elem" where
  "tab_off e = add_class ''stabtab_off'' (rm_class ''stabtab_on'' e)"

definition tab_click :: "nat \<Rightarrow> dom \<Rightarrow> dom" where
  "tab_click r d =
     (case getr d r of
        None \<Rightarrow> d
      | Some b \<Rightarrow>
          if \<not> has ''stabtab_off'' b then d
          else
            (case closest d (has ''stabtabset'') b of
               None \<Rightarrow> upd r tab_on d
             | Some t \<Rightarrow>
                 let d1 = upd_where (\<lambda>e. inside (ref t) e \<and> has ''stabtab_on'' e) tab_off d;
                     d2 = upd r tab_on d1
                 in upd_where (tab_content d2 (ref t) (attr_or_undefined ''id'' b)) tab_on d2))"

section \<open>Scripts in answers of the server\<close>

text \<open>
  A script the server sent is run by putting its code into a new script element at the end of the body,
  once: its class \<open>deferred\<close> goes.
\<close>

definition script_el :: "string option \<Rightarrow> html" where
  "script_el code = el_text ''script'' [] [] (case code of None \<Rightarrow> ''undefined'' | Some c \<Rightarrow> c)"

definition run_deferred :: "elem \<Rightarrow> dom \<Rightarrow> dom" where
  "run_deferred s d =
     upd (ref s) (rm_class ''deferred'')
       (case find (\<lambda>e. tag e = ''body'') d of
          None \<Rightarrow> d | Some b \<Rightarrow> append_to (ref b) [script_el (attrs s ''data-code'')] d)"

definition deferred_scripts :: "dom \<Rightarrow> elem list" where
  "deferred_scripts d = filter (\<lambda>e. tag e = ''script'' \<and> has ''deferred'' e) d"

definition processDeferredScripts :: "dom \<Rightarrow> dom" where
  "processDeferredScripts d = fold run_deferred (deferred_scripts d) d"

section \<open>The request object\<close>

text \<open>What a browser can construct; the first that works is taken.\<close>

datatype request_object = XMLHttpRequest | Msxml2_XMLHTTP | Microsoft_XMLHTTP

definition createRequest :: "(request_object \<Rightarrow> bool) \<Rightarrow> request_object option \<times> string list" where
  "createRequest supported =
     (let req =
        (if supported XMLHttpRequest then Some XMLHttpRequest
         else if supported Msxml2_XMLHTTP then Some Msxml2_XMLHTTP
         else if supported Microsoft_XMLHTTP then Some Microsoft_XMLHTTP else None)
      in (req, if req = None then [''Error creating request object!''] else []))"

section \<open>The ticket field\<close>

definition tix_sys_toggle :: "string \<Rightarrow> string \<Rightarrow> dom \<Rightarrow> dom" where
  "tix_sys_toggle dropid tixid d =
     (case (by_id d dropid, by_id d tixid) of
        (Some sel, Some tix) \<Rightarrow> upd (ref tix) (\<lambda>e. e\<lparr>off := (value_of d sel = ''__unknown__'')\<rparr>) d
      | _ \<Rightarrow> d)"

section \<open>Plug pictures\<close>

fun last_index :: "char \<Rightarrow> string \<Rightarrow> nat option" where
  "last_index c [] = None"
| "last_index c (x # xs) =
     (case last_index c xs of Some i \<Rightarrow> Some (Suc i) | None \<Rightarrow> if x = c then Some 0 else None)"

text \<open>The name of a plug style: the part after the last blank, up to its last slash.\<close>

definition plug_name :: "string \<Rightarrow> string" where
  "plug_name style =
     (if style = ''__unknown__'' then ''unknown''
      else
        let s = (case last_index CHR '' '' style of None \<Rightarrow> style | Some i \<Rightarrow> drop (i + 1) style)
        in (case last_index CHR ''/'' s of None \<Rightarrow> s | Some i \<Rightarrow> take i s))"

text \<open>\<open>substring(0, -1)\<close> of a source without a slash is the empty string.\<close>

definition plug_src :: "string \<Rightarrow> string \<Rightarrow> string" where
  "plug_src src style =
     (case last_index CHR ''/'' src of None \<Rightarrow> [] | Some i \<Rightarrow> take i src)
       @ ''/'' @ toLowerCase (plug_name style) @ ''.png''"

definition tweak_plug_style :: "nat option \<Rightarrow> nat option \<Rightarrow> dom \<Rightarrow> dom" where
  "tweak_plug_style picobj dropobj d =
     (case (Option.bind picobj (getr d), Option.bind dropobj (getr d)) of
        (Some pic, Some sel) \<Rightarrow>
          upd (ref pic) (set_attr ''src'' (plug_src (src_of pic) (value_of d sel))) d
      | _ \<Rightarrow> d)"

text \<open>
  The checkbox in the title bar of a template: for each of its other classes, the checkboxes of that
  class are inverted, one class after the other.
\<close>

definition dtrmall_class :: "string \<Rightarrow> dom \<Rightarrow> dom" where
  "dtrmall_class c d =
     upd_where (\<lambda>e. tag e = ''input'' \<and> has c e \<and> \<not> has ''dtrmall'' e) (\<lambda>e. e\<lparr>on := \<not> on e\<rparr>) d"

definition dtrmall_click :: "nat \<Rightarrow> dom \<Rightarrow> dom" where
  "dtrmall_click r d =
     (case getr d r of
        None \<Rightarrow> d
      | Some b \<Rightarrow> fold dtrmall_class (filter (\<lambda>c. c \<noteq> ''dtrmall'') (cls b)) d)"


section \<open>The tab last clicked is the one that is shown\<close>

text \<open>
  In a tab set the tab \<open>b\<close> is shown: of the tabs and their contents, exactly it and its contents are
  on, and the others are off.  A tab is a \<open>a.stabtab\<close> of the set, a content a \<open>div.stabtab\<close> below
  its content area.
\<close>

definition is_tab :: "nat \<Rightarrow> elem \<Rightarrow> bool" where
  "is_tab t e \<longleftrightarrow> inside t e \<and> tag e = ''a'' \<and> has ''stabtab'' e"

definition is_pane :: "dom \<Rightarrow> nat \<Rightarrow> elem \<Rightarrow> bool" where
  "is_pane d t e \<longleftrightarrow> inside t e \<and> (\<exists>i. tab_content d t i e)"

definition shows_tab :: "nat \<Rightarrow> nat \<Rightarrow> dom \<Rightarrow> bool" where
  "shows_tab t r d \<longleftrightarrow>
     (\<exists>b. getr d r = Some b \<and> is_tab t b \<and>
       (\<forall>e \<in> set d. is_tab t e \<or> is_pane d t e \<longrightarrow>
          (has ''stabtab_on'' e \<longleftrightarrow> ref e = r \<or> tab_content d t (attr_or_undefined ''id'' b) e)
          \<and> (has ''stabtab_off'' e \<longrightarrow> \<not> has ''stabtab_on'' e)
          \<and> (is_tab t e \<longrightarrow> has ''stabtab_off'' e \<or> has ''stabtab_on'' e)))"

text \<open>A tab that can be clicked: its nearest tab set is \<open>t\<close>.\<close>

definition tab_of :: "nat \<Rightarrow> dom \<Rightarrow> nat \<Rightarrow> bool" where
  "tab_of t d r \<longleftrightarrow>
     (\<exists>b. getr d r = Some b \<and> is_tab t b \<and> map_option ref (closest d (has ''stabtabset'') b) = Some t)"

text \<open>Changes of the two classes a click works on.\<close>

definition tab_map :: "(elem \<Rightarrow> elem) \<Rightarrow> bool" where
  "tab_map f \<longleftrightarrow> (\<forall>e. ref (f e) = ref e \<and> path (f e) = path e \<and> tag (f e) = tag e \<and> attrs (f e) = attrs e
     \<and> (\<forall>c. c \<noteq> ''stabtab_on'' \<and> c \<noteq> ''stabtab_off'' \<longrightarrow> has c (f e) = has c e))"

lemma tab_map_ops [simp]:
  "tab_map tab_on" "tab_map tab_off" "tab_map f \<Longrightarrow> tab_map (\<lambda>e. if P e then f e else e)"
  by (simp_all add: tab_map_def tab_on_def tab_off_def)

lemma tab_map_keeps: "tab_map f \<Longrightarrow> keeps f"
  by (simp add: tab_map_def keeps_def)

lemma tab_content_map: "tab_map f \<Longrightarrow> tab_content (map f d) t i (f e) = tab_content d t i e"
proof -
  assume f: "tab_map f"
  have "(\<exists>c \<in> set (ancestors (map f d) (f e)). inside t c \<and> tag c = ''div'' \<and> has ''stabtabcontent'' c)
      = (\<exists>c \<in> set (ancestors d e). inside t c \<and> tag c = ''div'' \<and> has ''stabtabcontent'' c)"
    using f by (simp add: ancestors_map [OF tab_map_keeps [OF f]] tab_map_def inside_def)
  then show ?thesis using f by (simp add: tab_content_def tab_map_def)
qed

lemma is_tab_map: "tab_map f \<Longrightarrow> is_tab t (f e) = is_tab t e"
  by (simp add: is_tab_def tab_map_def inside_def)

lemma is_pane_map: "tab_map f \<Longrightarrow> is_pane (map f d) t (f e) = is_pane d t e"
  by (simp add: is_pane_def tab_content_map) (simp add: tab_map_def inside_def)

lemma tab_of_map: "tab_map f \<Longrightarrow> tab_of t (map f d) r = tab_of t d r"
proof -
  assume f: "tab_map f"
  have c: "closest (map f d) (has ''stabtabset'') (f b) = map_option f (closest d (has ''stabtabset'') b)" for b
    using closest_map [OF tab_map_keeps [OF f]] f by (simp add: tab_map_def)
  show ?thesis
    unfolding tab_of_def getr_map [OF tab_map_keeps [OF f]]
    using f by (auto simp: c is_tab_map tab_map_def)
qed

text \<open>What a click on a tab that is off does to each element.\<close>

definition click_map :: "dom \<Rightarrow> nat \<Rightarrow> nat \<Rightarrow> string \<Rightarrow> elem \<Rightarrow> elem" where
  "click_map d t r i e =
     (let e1 = (if inside t e \<and> has ''stabtab_on'' e then tab_off e else e);
          e2 = (if ref e = r then tab_on e1 else e1)
      in if tab_content d t i e then tab_on e2 else e2)"

lemma tab_map_click: "tab_map (click_map d t r i)"
  by (simp add: click_map_def tab_map_def Let_def tab_on_def tab_off_def)

lemma tab_click_map:
  assumes "getr d r = Some b" "has ''stabtab_off'' b" "closest d (has ''stabtabset'') b = Some T" "ref T = t"
  shows "tab_click r d = map (click_map d t r (attr_or_undefined ''id'' b)) d"
proof -
  define h where "h = (\<lambda>e. let e1 = (if inside t e \<and> has ''stabtab_on'' e then tab_off e else e)
      in if ref e = r then tab_on e1 else e1)"
  have m: "tab_map h" by (simp add: h_def Let_def tab_map_def tab_on_def tab_off_def)
  have d2: "upd r tab_on (upd_where (\<lambda>e. inside t e \<and> has ''stabtab_on'' e) tab_off d) = map h d"
    by (simp add: upd_def upd_where_def h_def Let_def tab_off_def)
  have "tab_click r d = upd_where (tab_content (map h d) t (attr_or_undefined ''id'' b)) tab_on (map h d)"
    using assms by (simp add: tab_click_def d2 Let_def)
  also have "\<dots> = map (click_map d t r (attr_or_undefined ''id'' b)) d"
    by (simp add: upd_where_def tab_content_map [OF m]) (simp add: click_map_def h_def Let_def)
  finally show ?thesis .
qed

lemma tab_click_shows:
  assumes "shows_tab t r0 d" "tab_of t d r"
  shows "shows_tab t r (tab_click r d)" "\<exists>f. tab_map f \<and> tab_click r d = map f d"
proof -
  obtain b T where b: "getr d r = Some b" "is_tab t b" "closest d (has ''stabtabset'') b = Some T" "ref T = t"
    using assms(2) by (auto simp: tab_of_def)
  obtain b0 where b0: "getr d r0 = Some b0" "is_tab t b0"
    and st: "\<And>e. e \<in> set d \<Longrightarrow> is_tab t e \<or> is_pane d t e \<Longrightarrow>
          (has ''stabtab_on'' e \<longleftrightarrow> ref e = r0 \<or> tab_content d t (attr_or_undefined ''id'' b0) e)
          \<and> (has ''stabtab_off'' e \<longrightarrow> \<not> has ''stabtab_on'' e)
          \<and> (is_tab t e \<longrightarrow> has ''stabtab_off'' e \<or> has ''stabtab_on'' e)"
    using assms(1) by (auto simp: shows_tab_def)
  have bd: "b \<in> set d" "ref b = r" using b(1) by (auto dest: getr_Some)
  have na: "\<not> tab_content d t i e" if "is_tab t e" for i e
    using that by (auto simp: is_tab_def tab_content_def)
  have "shows_tab t r (tab_click r d) \<and> (\<exists>f. tab_map f \<and> tab_click r d = map f d)"
  proof (cases "has ''stabtab_off'' b")
    case False
    then have "r = r0" using st [OF bd(1)] b(2) na [OF b(2)] bd(2) by auto
    moreover have "tab_click r d = map (\<lambda>e. e) d" using b(1) False by (simp add: tab_click_def)
    moreover have "tab_map (\<lambda>e. e)" by (simp add: tab_map_def)
    ultimately show ?thesis using assms(1) by auto
  next
    case True
    define i where "i = attr_or_undefined ''id'' b"
    define f where "f = click_map d t r i"
    have f: "tab_map f" by (simp add: f_def tab_map_click)
    have d': "tab_click r d = map f d" using tab_click_map [OF b(1) True b(3,4)] by (simp add: f_def i_def)
    have fb: "attr_or_undefined ''id'' (f b) = i" using f by (simp add: attr_or_undefined_def i_def tab_map_def)
    have el: "(has ''stabtab_on'' (f e) \<longleftrightarrow> ref e = r \<or> tab_content d t i e)
          \<and> (has ''stabtab_off'' (f e) \<longrightarrow> \<not> has ''stabtab_on'' (f e))
          \<and> (is_tab t e \<longrightarrow> has ''stabtab_off'' (f e) \<or> has ''stabtab_on'' (f e))"
      if "e \<in> set d" "is_tab t e \<or> is_pane d t e" for e
    proof -
      have "inside t e" using that(2) by (auto simp: is_tab_def is_pane_def)
      then show ?thesis using st [OF that] by (auto simp: f_def click_map_def Let_def tab_on_def tab_off_def)
    qed
    have "shows_tab t r (map f d)"
      unfolding shows_tab_def getr_map [OF tab_map_keeps [OF f]]
    proof (intro exI [of _ "f b"] conjI ballI impI)
      show "map_option f (getr d r) = Some (f b)" using b(1) by simp
      show "is_tab t (f b)" using b(2) f by (simp add: is_tab_map)
      fix x assume x: "x \<in> set (map f d)" "is_tab t x \<or> is_pane (map f d) t x"
      then obtain e where e: "e \<in> set d" "x = f e" by auto
      have q: "is_tab t e \<or> is_pane d t e" using x(2) e(2) f by (simp add: is_tab_map is_pane_map)
      have re: "ref (f e) = ref e" using f by (simp add: tab_map_def)
      show "has ''stabtab_on'' x \<longleftrightarrow> ref x = r \<or> tab_content (map f d) t (attr_or_undefined ''id'' (f b)) x"
        using el [OF e(1) q] by (simp add: e(2) fb tab_content_map [OF f] re)
      show "\<not> has ''stabtab_on'' x" if "has ''stabtab_off'' x" using el [OF e(1) q] that by (auto simp: e(2))
      show "has ''stabtab_off'' x \<or> has ''stabtab_on'' x" if "is_tab t x"
        using el [OF e(1) q] that e(2) is_tab_map [OF f] by auto
    qed
    then show ?thesis using f d' by auto
  qed
  then show "shows_tab t r (tab_click r d)" "\<exists>f. tab_map f \<and> tab_click r d = map f d" by auto
qed

text \<open>
  C28: After any number of clicks on tabs of a tab set, the tab clicked last is on with its contents, and
  every other tab and content of the set is not.
\<close>

theorem last_tab_shown:
  assumes "shows_tab t r0 d" "\<forall>r \<in> set rs. tab_of t d r"
  shows "shows_tab t (last (r0 # rs)) (fold tab_click rs d)"
  using assms
proof (induction rs arbitrary: r0 d)
  case (Cons r rs)
  obtain f where f: "tab_map f" "tab_click r d = map f d"
    using tab_click_shows(2) [OF Cons.prems(1)] Cons.prems(2) by auto
  have s: "shows_tab t r (tab_click r d)" using tab_click_shows(1) [OF Cons.prems(1)] Cons.prems(2) by simp
  have "\<forall>q \<in> set rs. tab_of t (tab_click r d) q" using Cons.prems(2) by (simp add: f tab_of_map)
  from Cons.IH [OF s this] show ?case by simp
qed simp

text \<open>Two tabs as the server writes them: the contents of a tab that is not shown have no class.\<close>

definition demo_tabs :: dom where
  "demo_tabs =
     [(new_el ''div'' [] [''stabtabset''])\<lparr>ref := 1\<rparr>,
      (new_el ''div'' [] [''stabtabbar''])\<lparr>ref := 2, path := [1]\<rparr>,
      (new_el ''a'' [(''id'', ''u0'')] [''stabtab'', ''stabtab_on''])\<lparr>ref := 3, path := [2, 1]\<rparr>,
      (new_el ''a'' [(''id'', ''u1'')] [''stabtab'', ''stabtab_off''])\<lparr>ref := 4, path := [2, 1]\<rparr>,
      (new_el ''div'' [] [''stabtabcontent''])\<lparr>ref := 5, path := [1]\<rparr>,
      (new_el ''div'' [(''id'', ''u0'')] [''stabtab'', ''stabtab_on''])\<lparr>ref := 6, path := [5, 1]\<rparr>,
      (new_el ''div'' [(''id'', ''u1'')] [''stabtab''])\<lparr>ref := 7, path := [5, 1]\<rparr>]"

theorem last_tab_shown_witness:
  "shows_tab 1 4 (fold tab_click [4, 3, 4] demo_tabs)"
proof -
  have "shows_tab 1 3 demo_tabs"
    by (auto simp: shows_tab_def demo_tabs_def getr_def is_tab_def is_pane_def tab_content_def inside_def has_def
        ancestors_def List.map_filter_simps attr_or_undefined_def new_el_def)
  moreover have "\<forall>r \<in> set [4, 3, 4]. tab_of 1 demo_tabs r"
    by (simp add: tab_of_def demo_tabs_def getr_def is_tab_def inside_def has_def closest_def
        ancestors_def List.map_filter_simps new_el_def)
  ultimately show ?thesis using last_tab_shown [of 1 3 demo_tabs "[4, 3, 4]"] by simp
qed

end
