(* ===== verification/Racks.thy ===== *)
theory Racks
  imports FormTracking StabCommon
begin

text \<open>
  \<open>racks.js\<close>: the question a rack form asks before a dangerous change is submitted, and the drop-down
  of the racks of a site with its link.
\<close>

section \<open>The form and its dialog\<close>

text \<open>
  What \<open>serializeArray\<close> returns for the form now, what it returned when the page was loaded, the
  checkboxes \<open>input.scaryrm\<close>, the dialog with the lines it holds, and the submissions of the form.
\<close>

record scary_box =
  checked :: bool
  rmrack :: bool
  demonitor :: bool

type_synonym form_data = "(string \<times> string) list"

record rack_page =
  data :: form_data
  formOriginalData :: form_data
  scary :: "scary_box list"
  box_open :: bool
  verifybox :: "string list"
  submissions :: "form_data list"

definition dataPoints :: "string list" where
  "dataPoints = [''SITE_CODE'', ''ROOM'', ''SUB_ROOM'', ''RACK_ROW'', ''RACK_NAME'']"

definition rack_ready :: "rack_page \<Rightarrow> rack_page" where
  "rack_ready p = p\<lparr>formOriginalData := data p\<rparr>"

text \<open>The fields of a point: the pattern \<open>^POINT_[0-9]\<close>.\<close>

definition point_fields :: "string \<Rightarrow> form_data \<Rightarrow> form_data" where
  "point_fields pt fs = filter (\<lambda>n. param_here (pt @ ''_'') (fst n)) fs"

definition change_message :: "string \<Rightarrow> string \<Rightarrow> string \<Rightarrow> string" where
  "change_message pt a b =
     ''You have changed the rack '' @ replace_first ''_'' '' '' (toLowerCase pt) @ '' from '' @ a @ '' to '' @ b @ ''.''"

definition point_warning :: "rack_page \<Rightarrow> string \<Rightarrow> string list" where
  "point_warning p pt =
     (case point_fields pt (formOriginalData p @ data p) of
        [a, b] \<Rightarrow> if snd a \<noteq> snd b then [change_message pt (snd a) (snd b)] else []
      | _ \<Rightarrow> [])"

definition retire_message :: string where
  "retire_message = ''You have selected to retire the rack.  This will remove all devices in the rack and the rack from the database.  This should only be done if the rack and devices are behing physically removed.''"

definition demonitor_message :: string where
  "demonitor_message = ''You have chosen to take all the devices in this rack out of monitoring''"

definition box_warning :: "scary_box \<Rightarrow> string list" where
  "box_warning b =
     (if checked b
      then (if rmrack b then [retire_message] else []) @ (if demonitor b then [demonitor_message] else [])
      else [])"

definition nogo :: "rack_page \<Rightarrow> string list" where
  "nogo p = concat (map (point_warning p) dataPoints) @ concat (map box_warning (scary p))"

text \<open>
  The handler of the form's submission.  Without a warning the browser submits the form; otherwise the
  warnings and the question are added to the dialog and the submission is stopped.
\<close>

definition question :: "string list" where
  "question = [''<p>'', ''<b>Are you sure you want to do this?</b>'']"

definition verify_rack_submission :: "rack_page \<Rightarrow> bool \<times> rack_page" where
  "verify_rack_submission p =
     (if nogo p = [] then (True, p)
      else (False, p\<lparr>box_open := True, verifybox := verifybox p @ nogo p @ question\<rparr>))"

definition submit_form :: "rack_page \<Rightarrow> rack_page" where
  "submit_form p = p\<lparr>submissions := submissions p @ [data p]\<rparr>"

text \<open>The two buttons are in the dialog: they can be clicked while it is open.\<close>

definition yes_click :: "rack_page \<Rightarrow> rack_page" where
  "yes_click p = (if box_open p then submit_form p else p)"

definition no_click :: "rack_page \<Rightarrow> rack_page" where
  "no_click p = (if box_open p then p\<lparr>box_open := False, verifybox := []\<rparr> else p)"

datatype rack_event = Enter nat string | Tick nat | Submit | Yes | No

definition rack_step :: "rack_page \<Rightarrow> rack_event \<Rightarrow> rack_page" where
  "rack_step p ev =
     (case ev of
        Enter i v \<Rightarrow> (if i < length (data p) then p\<lparr>data := (data p)[i := (fst (data p ! i), v)]\<rparr> else p)
      | Tick i \<Rightarrow> (if i < length (scary p)
                   then p\<lparr>scary := (scary p)[i := (scary p ! i)\<lparr>checked := \<not> checked (scary p ! i)\<rparr>]\<rparr> else p)
      | Submit \<Rightarrow> (let (go, p') = verify_rack_submission p in if go then submit_form p' else p')
      | Yes \<Rightarrow> yes_click p
      | No \<Rightarrow> no_click p)"

section \<open>The racks of a site\<close>

definition rack_url :: "string \<Rightarrow> string \<Rightarrow> string option \<Rightarrow> string \<Rightarrow> string" where
  "rack_url site where' locid original =
     (if where' = ''dev'' then ''device-ajax.pl?what=SiteRacks;type='' @ where'
      else ''../../device/device-ajax.pl?what=SiteRacks'')
       @ '';SITE_CODE='' @ site
       @ (case locid of None \<Rightarrow> [] | Some l \<Rightarrow> '';RACK_LOCATION_ID='' @ l)
       @ '';ORIGINAL='' @ original"

text \<open>The first drop-down below an element.\<close>

definition first_select :: "dom \<Rightarrow> nat \<Rightarrow> elem option" where
  "first_select d r = find (\<lambda>e. inside r e \<and> tag e = ''select'') d"

definition site_to_rack :: "string \<Rightarrow> string \<Rightarrow> string \<Rightarrow> string option \<Rightarrow> page \<Rightarrow> page js" where
  "site_to_rack siteid rackdivid where' locid p =
     (case (by_id (doc p) siteid, by_id (doc p) rackdivid) of
        (Some sitebox, Some rackdiv) \<Rightarrow>
          (case first_select (doc p) (ref rackdiv) of
             None \<Rightarrow> Inl TypeError
           | Some s \<Rightarrow>
               let original = (case attrs s ''original'' of None \<Rightarrow> ''null'' | Some v \<Rightarrow> v)
               in Inr (p\<lparr>requests := requests p @ [rack_url (value_of (doc p) sitebox) where' locid original]\<rparr>))
      | _ \<Rightarrow> Inr p)"

text \<open>The answer replaces the contents of the division; its new drop-down is marked if it differs.\<close>

definition racks_answer :: "nat \<Rightarrow> html list \<Rightarrow> dom \<Rightarrow> dom js" where
  "racks_answer rackdiv answer d =
     (let d1 = append_to rackdiv answer (empty_el rackdiv d) in
      case first_select d1 rackdiv of
        None \<Rightarrow> Inl TypeError
      | Some s \<Rightarrow> Inr (updateChangeTrackingStatus (ref s) d1))"

text \<open>
  The link next to the drop-down and the type of the rack chosen.  \<open>rackTypes\<close> is the dictionary the
  server's script has set; a rack without an entry raises a \<open>TypeError\<close> after the link is set.
\<close>

definition setRackLinkRedir ::
  "(string \<rightharpoonup> string) \<Rightarrow> string option \<Rightarrow> string \<Rightarrow> string option \<Rightarrow> dom \<Rightarrow> dom \<times> js_error option" where
  "setRackLinkRedir rackTypes dropfieldid redirlinkid root d =
     (case (Option.bind dropfieldid (by_id d), by_id d redirlinkid) of
        (Some dropfield, Some redirlink) \<Rightarrow>
          let v = value_of d dropfield;
              r = (case root of None \<Rightarrow> ''./'' | Some x \<Rightarrow> x);
              d1 = processDeferredScripts (upd (ref redirlink) (set_attr ''href'' (r @ ''?RACK_ID='' @ v)) d)
          in (case by_id d1 ''location_rack_type'' of
                None \<Rightarrow> (d1, None)
              | Some t \<Rightarrow>
                  (case rackTypes v of
                     None \<Rightarrow> (d1, Some TypeError)
                   | Some ty \<Rightarrow> (upd (ref t) (\<lambda>e. e\<lparr>etext := ty\<rparr>) (empty_el (ref t) d1), None)))
      | _ \<Rightarrow> (d, None))"


section \<open>What the form promises\<close>

text \<open>
  The specification: a form with a set of risks, a dialog that may be open, and the number of
  submissions.  A form without risks is submitted at once, one with risks opens the dialog, and only
  its confirmation submits.
\<close>

datatype risk = Changed string | Retire | Demonitor

record gate =
  risks :: "risk set"
  asking :: bool
  sent :: nat

inductive gate_step :: "gate \<Rightarrow> gate \<Rightarrow> bool" where
  edit: "gate_step g (g\<lparr>risks := R\<rparr>)"
| free: "risks g = {} \<Longrightarrow> gate_step g (g\<lparr>sent := Suc (sent g)\<rparr>)"
| ask: "risks g \<noteq> {} \<Longrightarrow> gate_step g (g\<lparr>asking := True\<rparr>)"
| confirm: "asking g \<Longrightarrow> gate_step g (g\<lparr>sent := Suc (sent g)\<rparr>)"
| cancel: "gate_step g (g\<lparr>asking := False\<rparr>)"

inductive_cases gate_stepE: "gate_step g g'"

text \<open>The value of a point, when exactly one field carries it.\<close>

definition point_value :: "string \<Rightarrow> form_data \<Rightarrow> string" where
  "point_value pt fs = snd (hd (point_fields pt fs))"

definition one_field :: "form_data \<Rightarrow> bool" where
  "one_field fs \<longleftrightarrow> (\<forall>pt \<in> set dataPoints. length (point_fields pt fs) = 1)"

definition rack_ok :: "rack_page \<Rightarrow> bool" where
  "rack_ok p \<longleftrightarrow> one_field (data p) \<and> one_field (formOriginalData p)"

definition rack_risks :: "rack_page \<Rightarrow> risk set" where
  "rack_risks p =
     {Changed pt | pt. pt \<in> set dataPoints \<and> point_value pt (formOriginalData p) \<noteq> point_value pt (data p)}
     \<union> (if \<exists>b \<in> set (scary p). checked b \<and> rmrack b then {Retire} else {})
     \<union> (if \<exists>b \<in> set (scary p). checked b \<and> demonitor b then {Demonitor} else {})"

definition rack_gate :: "rack_page \<Rightarrow> gate" where
  "rack_gate p = \<lparr>risks = rack_risks p, asking = box_open p, sent = length (submissions p)\<rparr>"

lemma length_1: "length xs = Suc 0 \<Longrightarrow> \<exists>x. xs = [x]"
  by (cases xs) auto

lemma point_warning_iff:
  assumes "rack_ok p" "pt \<in> set dataPoints"
  shows "point_warning p pt = [] \<longleftrightarrow> point_value pt (formOriginalData p) = point_value pt (data p)"
proof -
  obtain a where a: "point_fields pt (formOriginalData p) = [a]"
    using assms length_1 [of "point_fields pt (formOriginalData p)"] by (auto simp: rack_ok_def one_field_def)
  obtain b where b: "point_fields pt (data p) = [b]"
    using assms length_1 [of "point_fields pt (data p)"] by (auto simp: rack_ok_def one_field_def)
  have "point_fields pt (formOriginalData p @ data p) = [a, b]"
    using a b by (simp add: point_fields_def)
  then show ?thesis by (simp add: point_warning_def point_value_def a b)
qed

lemma nogo_iff: "rack_ok p \<Longrightarrow> nogo p = [] \<longleftrightarrow> rack_risks p = {}"
proof -
  assume ok: "rack_ok p"
  have "concat (map (point_warning p) dataPoints) = []
      \<longleftrightarrow> (\<forall>pt \<in> set dataPoints. point_value pt (formOriginalData p) = point_value pt (data p))"
    using point_warning_iff [OF ok] by simp
  moreover have "concat (map box_warning (scary p)) = []
      \<longleftrightarrow> (\<forall>b \<in> set (scary p). \<not> (checked b \<and> rmrack b) \<and> \<not> (checked b \<and> demonitor b))"
  proof -
    have "box_warning b = [] \<longleftrightarrow> \<not> (checked b \<and> rmrack b) \<and> \<not> (checked b \<and> demonitor b)" for b
      by (simp add: box_warning_def)
    then show ?thesis by simp
  qed
  ultimately show ?thesis unfolding nogo_def rack_risks_def by auto
qed

lemma length_filter_names:
  "map fst xs = map fst ys \<Longrightarrow> length (filter (\<lambda>n. P (fst n)) xs) = length (filter (\<lambda>n. P (fst n)) ys)"
proof -
  assume "map fst xs = map fst ys"
  then have "length (filter P (map fst xs)) = length (filter P (map fst ys))" by simp
  then show ?thesis by (simp add: filter_map comp_def)
qed

lemma rack_step_ok:
  assumes "rack_ok p"
  shows "rack_ok (rack_step p ev)"
proof -
  have "map fst (data (rack_step p ev)) = map fst (data p)"
    by (cases ev) (simp_all add: rack_step_def verify_rack_submission_def submit_form_def yes_click_def no_click_def
        map_update list_update_same_conv)
  then have "length (point_fields pt (data (rack_step p ev))) = length (point_fields pt (data p))" for pt
    unfolding point_fields_def by (rule length_filter_names)
  then have "one_field (data (rack_step p ev)) = one_field (data p)"
    by (simp add: one_field_def)
  moreover have "formOriginalData (rack_step p ev) = formOriginalData p"
    by (cases ev) (simp_all add: rack_step_def verify_rack_submission_def submit_form_def yes_click_def no_click_def)
  ultimately show ?thesis using assms by (simp add: rack_ok_def)
qed

lemma gate_idle: "gate_step g g"
  using gate_step.edit [of g "risks g"] by simp

lemma rack_step_refines:
  assumes "rack_ok p"
  shows "gate_step (rack_gate p) (rack_gate (rack_step p ev))"
proof (cases ev)
  case (Enter i v)
  have "rack_gate (rack_step p ev) = (rack_gate p)\<lparr>risks := rack_risks (rack_step p ev)\<rparr>"
    by (simp add: Enter rack_step_def rack_gate_def)
  then show ?thesis by (simp add: gate_step.edit)
next
  case (Tick i)
  have "rack_gate (rack_step p ev) = (rack_gate p)\<lparr>risks := rack_risks (rack_step p ev)\<rparr>"
    by (simp add: Tick rack_step_def rack_gate_def)
  then show ?thesis by (simp add: gate_step.edit)
next
  case Submit
  have r: "rack_risks (submit_form p) = rack_risks p"
    "rack_risks (p\<lparr>box_open := True, verifybox := vs\<rparr>) = rack_risks p" for vs
    by (simp_all add: submit_form_def rack_risks_def)
  show ?thesis
  proof (cases "nogo p = []")
    case True
    then have "rack_gate (rack_step p ev) = (rack_gate p)\<lparr>sent := Suc (sent (rack_gate p))\<rparr>"
      using r by (simp add: Submit rack_step_def verify_rack_submission_def rack_gate_def) (simp add: submit_form_def)
    then show ?thesis using True gate_step.free [of "rack_gate p"] nogo_iff [OF assms] by (simp add: rack_gate_def)
  next
    case False
    then have "rack_gate (rack_step p ev) = (rack_gate p)\<lparr>asking := True\<rparr>"
      using r by (simp add: Submit rack_step_def verify_rack_submission_def rack_gate_def)
    then show ?thesis using False gate_step.ask [of "rack_gate p"] nogo_iff [OF assms] by (simp add: rack_gate_def)
  qed
next
  case Yes
  have "rack_gate (rack_step p ev) = (if box_open p then (rack_gate p)\<lparr>sent := Suc (sent (rack_gate p))\<rparr> else rack_gate p)"
    by (simp add: Yes rack_step_def yes_click_def submit_form_def rack_gate_def rack_risks_def)
  then show ?thesis using gate_step.confirm [of "rack_gate p"] gate_idle by (simp add: rack_gate_def)
next
  case No
  have "rack_gate (rack_step p ev) = (if box_open p then (rack_gate p)\<lparr>asking := False\<rparr> else rack_gate p)"
    by (simp add: No rack_step_def no_click_def rack_gate_def rack_risks_def)
  then show ?thesis using gate_step.cancel gate_idle by simp
qed

text \<open>
  C8: The rack form implements its specification: whatever is entered, ticked, submitted, confirmed or
  cancelled, the form goes through states of the specification, whose risks are the points that differ
  from the loaded form and the dangerous checkboxes that are ticked.  In particular a form with risks is
  only submitted from an open dialog.
\<close>

theorem rack_form_refines:
  assumes "rack_ok p"
  shows "gate_step\<^sup>*\<^sup>* (rack_gate p) (rack_gate (foldl rack_step p evs))
     \<and> (\<forall>ev. length (submissions (rack_step (foldl rack_step p evs) ev)) > length (submissions (foldl rack_step p evs))
          \<longrightarrow> rack_risks (foldl rack_step p evs) = {} \<or> box_open (foldl rack_step p evs))"
proof -
  have run: "rack_ok (foldl rack_step p evs) \<and> gate_step\<^sup>*\<^sup>* (rack_gate p) (rack_gate (foldl rack_step p evs))"
  proof (induction evs rule: rev_induct)
    case (snoc ev evs)
    then show ?case using rack_step_ok rack_step_refines by (auto intro: rtranclp.rtrancl_into_rtrancl)
  qed (simp add: assms)
  have "risks g = {} \<or> asking g" if "gate_step g g'" "sent g' > sent g" for g g'
    using that by (auto elim: gate_stepE)
  then have "rack_risks q = {} \<or> box_open q"
    if "rack_ok q" "length (submissions (rack_step q ev)) > length (submissions q)" for q ev
    using rack_step_refines [OF that(1), of ev] that(2) by (fastforce simp: rack_gate_def)
  then show ?thesis using run by blast
qed

definition demo_rack :: rack_page where
  "demo_rack = rack_ready \<lparr>data = [(''SITE_CODE_5'', ''NYC''), (''ROOM_5'', ''1''), (''SUB_ROOM_5'', ''''),
       (''RACK_ROW_5'', ''A''), (''RACK_NAME_5'', ''r1'')], formOriginalData = [],
     scary = [\<lparr>checked = False, rmrack = True, demonitor = False\<rparr>], box_open = False, verifybox = [], submissions = []\<rparr>"

theorem rack_form_refines_witness:
  "gate_step\<^sup>*\<^sup>* (rack_gate demo_rack) (rack_gate (foldl rack_step demo_rack [Enter 1 ''2'', Submit, Yes]))
   \<and> map (\<lambda>s. s ! 1) (submissions (foldl rack_step demo_rack [Enter 1 ''2'', Submit, Yes])) = [(''ROOM_5'', ''2'')]"
proof -
  have "rack_ok demo_rack" by code_simp
  moreover have "map (\<lambda>s. s ! 1) (submissions (foldl rack_step demo_rack [Enter 1 ''2'', Submit, Yes])) = [(''ROOM_5'', ''2'')]"
    by code_simp
  ultimately show ?thesis using rack_form_refines by blast
qed

end
