(* ===== verification/Popups.thy ===== *)
theory Popups
  imports Dom
begin

text \<open>
  \<open>table-manip.js\<close>: tables that pop up while the pointer is over a button.  The global variable
  \<open>poppedup\<close> remembers the table that is shown.
\<close>

section \<open>Finding an element by name\<close>

text \<open>
  What the browser offers.  Without \<open>getElementById\<close> the code searches a list by name, but the answer
  is always taken from the list of images: with \<open>document.all\<close> that is another element.
\<close>

datatype browser = GetElementById | DocumentAll | DocumentImages | NoLookup

definition images :: "dom \<Rightarrow> elem list" where
  "images d = filter (\<lambda>e. tag e = ''img'') d"

fun index_named :: "string \<Rightarrow> elem list \<Rightarrow> nat option" where
  "index_named what [] = None"
| "index_named what (e # es) =
     (if attrs e ''name'' = Some what then Some 0 else map_option Suc (index_named what es))"

definition nth_opt :: "'a list \<Rightarrow> nat \<Rightarrow> 'a option" where
  "nth_opt xs i = (if i < length xs then Some (xs ! i) else None)"

definition findObj :: "browser \<Rightarrow> string \<Rightarrow> dom \<Rightarrow> elem option" where
  "findObj br what d =
     (case br of
        GetElementById \<Rightarrow> by_id d what
      | DocumentAll \<Rightarrow> Option.bind (index_named what d) (nth_opt (images d))
      | DocumentImages \<Rightarrow> Option.bind (index_named what (images d)) (nth_opt (images d))
      | NoLookup \<Rightarrow> None)"

section \<open>The handlers\<close>

text \<open>
  The layout is the browser's: for every element the offsets of the element and its offset parents, its
  size, and the width of an image.  Positions given to a pop-up are kept in \<open>placed\<close>.
\<close>

record geometry =
  offsets :: "nat \<Rightarrow> (int \<times> int) list"
  size_of :: "nat \<Rightarrow> int \<times> int"

record popup_page =
  pdoc :: dom
  poppedup :: "nat option"
  placed :: "nat \<rightharpoonup> int \<times> int"

definition offset_left :: "geometry \<Rightarrow> nat \<Rightarrow> int" where
  "offset_left g r = sum_list (map fst (offsets g r))"

definition offset_top :: "geometry \<Rightarrow> nat \<Rightarrow> int" where
  "offset_top g r = sum_list (map snd (offsets g r))"

definition changeNotify :: "browser \<Rightarrow> string \<Rightarrow> popup_page \<Rightarrow> popup_page" where
  "changeNotify br obj p =
     (case findObj br obj (pdoc p) of
        None \<Rightarrow> p | Some t \<Rightarrow> p\<lparr>pdoc := upd (ref t) (\<lambda>e. e\<lparr>val := ''Changed''\<rparr>) (pdoc p)\<rparr>)"

definition hide_el :: "nat \<Rightarrow> dom \<Rightarrow> dom" where
  "hide_el r d = upd r (\<lambda>e. e\<lparr>vis := ''hidden''\<rparr>) d"

definition show_el :: "nat \<Rightarrow> dom \<Rightarrow> dom" where
  "show_el r d = upd r (\<lambda>e. e\<lparr>vis := ''visible''\<rparr>) d"

text \<open>
  The picture of the button: \<open>imgid\<close> is \<open>None\<close> or empty when the caller gives none.  A name that is not
  found raises a \<open>TypeError\<close> before anything is changed.
\<close>

definition img_src :: "elem \<Rightarrow> string" where
  "img_src e = (case attrs e ''src'' of None \<Rightarrow> [] | Some s \<Rightarrow> s)"

definition swap_image ::
  "browser \<Rightarrow> string \<Rightarrow> string \<Rightarrow> string option \<Rightarrow> popup_page \<Rightarrow> (popup_page \<times> nat option) js" where
  "swap_image br from' to' imgid p =
     (case imgid of
        None \<Rightarrow> Inr (p, None)
      | Some i \<Rightarrow>
          if i = [] then Inr (p, None)
          else
            (case findObj br i (pdoc p) of
               None \<Rightarrow> Inl TypeError
             | Some img \<Rightarrow>
                 Inr (p\<lparr>pdoc := upd (ref img) (set_attr ''src'' (replace_first from' to' (img_src img))) (pdoc p)\<rparr>,
                   Some (ref img))))"

definition onlink ::
  "browser \<Rightarrow> geometry \<Rightarrow> nat \<Rightarrow> string \<Rightarrow> string \<Rightarrow> string option \<Rightarrow> popup_page \<Rightarrow> popup_page \<times> js_error option" where
  "onlink br g thing popovertd popmeup imgid p =
     (case swap_image br ''.jpg'' ''_hover.jpg'' imgid p of
        Inl x \<Rightarrow> (p, Some x)
      | Inr (p1, img) \<Rightarrow>
          let o' = findObj br popovertd (pdoc p1);
              p2 = (case poppedup p1 of
                      None \<Rightarrow> p1
                    | Some r \<Rightarrow> p1\<lparr>pdoc := hide_el r (pdoc p1), poppedup := None\<rparr>)
          in (case (o', findObj br popmeup (pdoc p2)) of
                (Some _, Some obj) \<Rightarrow>
                  let p3 = p2\<lparr>pdoc := show_el (ref obj) (pdoc p2), poppedup := Some (ref obj)\<rparr>
                  in (case img of
                        None \<Rightarrow> (p3, Some TypeError)
                      | Some i \<Rightarrow>
                          (p3\<lparr>placed := (placed p3)(ref obj \<mapsto> (fst (size_of g i), offset_top g thing))\<rparr>, None))
              | _ \<Rightarrow> (p2, None)))"

text \<open>The pointer's place is \<open>(clientX, clientY)\<close>.\<close>

definition offlink ::
  "browser \<Rightarrow> geometry \<Rightarrow> nat \<Rightarrow> int \<times> int \<Rightarrow> string \<Rightarrow> string option \<Rightarrow> popup_page \<Rightarrow> popup_page \<times> js_error option" where
  "offlink br g thing at popmeup imgid p =
     (case swap_image br ''_hover.jpg'' ''.jpg'' imgid p of
        Inl x \<Rightarrow> (p, Some x)
      | Inr (p1, None) \<Rightarrow> (p1, Some TypeError)
      | Inr (p1, Some i) \<Rightarrow>
          let left = fst (size_of g i);
              top = offset_top g thing;
              bottom = top + snd (size_of g thing)
          in if fst at \<le> left \<or> snd at \<le> top \<or> snd at \<ge> bottom
             then ((case findObj br popmeup (pdoc p1) of
                      None \<Rightarrow> p1 | Some obj \<Rightarrow> p1\<lparr>pdoc := hide_el (ref obj) (pdoc p1)\<rparr>)\<lparr>poppedup := None\<rparr>, None)
             else (p1, None))"

definition hidetable :: "browser \<Rightarrow> geometry \<Rightarrow> nat \<Rightarrow> string \<Rightarrow> int \<times> int \<Rightarrow> popup_page \<Rightarrow> popup_page" where
  "hidetable br g thing tblid at p =
     (case findObj br tblid (pdoc p) of
        None \<Rightarrow> p
      | Some tbl \<Rightarrow>
          let left = offset_left g (ref tbl);
              top = offset_top g (ref tbl);
              bottom = top + snd (size_of g (ref tbl));
              right = left + fst (size_of g (ref tbl))
          in if fst at \<le> left + 2 \<or> snd at \<le> top + 2 \<or> fst at \<ge> right - 2 \<or> snd at \<ge> bottom - 2
             then p\<lparr>pdoc := hide_el thing (pdoc p), poppedup := None\<rparr> else p)"

definition toggletable :: "browser \<Rightarrow> string \<Rightarrow> popup_page \<Rightarrow> popup_page" where
  "toggletable br objid p =
     (case findObj br objid (pdoc p) of
        None \<Rightarrow> p
      | Some obj \<Rightarrow>
          p\<lparr>pdoc := upd (ref obj) (\<lambda>e. e\<lparr>disp := (if disp e = [] then ''none'' else [])\<rparr>) (pdoc p)\<rparr>)"

section \<open>The pointer over a row of buttons\<close>

text \<open>
  A button: its element, the cell and the table it pops up, and its picture.  The pointer enters a
  button only when it is over no other, leaves the one it is over, and leaves a table that is shown.
\<close>

record pop_button =
  but :: nat
  cell :: string
  table :: string
  picture :: string

datatype move = Onto pop_button | Off "int \<times> int" | Out "int \<times> int"

type_synonym hover = "pop_button option \<times> popup_page"

definition move_step :: "browser \<Rightarrow> geometry \<Rightarrow> hover \<Rightarrow> move \<Rightarrow> hover" where
  "move_step br g s m =
     (case m of
        Onto b \<Rightarrow>
          (case fst s of
             None \<Rightarrow> (Some b, fst (onlink br g (but b) (cell b) (table b) (Some (picture b)) (snd s)))
           | Some _ \<Rightarrow> s)
      | Off at \<Rightarrow>
          (case fst s of
             None \<Rightarrow> s
           | Some b \<Rightarrow> (None, fst (offlink br g (but b) at (table b) (Some (picture b)) (snd s))))
      | Out at \<Rightarrow>
          (case Option.bind (poppedup (snd s)) (getr (pdoc (snd s))) of
             None \<Rightarrow> s
           | Some t \<Rightarrow>
               (case attrs t ''id'' of
                  None \<Rightarrow> s | Some i \<Rightarrow> (fst s, hidetable br g (ref t) i at (snd s)))))"


section \<open>At most one table is shown\<close>

lemma id_ref_ops [simp]:
  "id_ref (hide_el r d) i = id_ref d i" "id_ref (show_el r d) i = id_ref d i"
  "id_ref (upd r (set_attr ''src'' v) d) i = id_ref d i"
  unfolding hide_el_def show_el_def by (rule id_ref_upd; simp)+

lemma findObj_id: "map_option ref (findObj GetElementById i d) = id_ref d i"
  by (simp add: findObj_def id_ref_def)

text \<open>The tables with a name in \<open>K\<close> that are visible.\<close>

definition shown :: "string set \<Rightarrow> dom \<Rightarrow> nat set" where
  "shown K d = {ref e | e. e \<in> set d \<and> vis e = ''visible'' \<and> (\<exists>i \<in> K. attrs e ''id'' = Some i)}"

lemma shown_upd:
  assumes "\<And>e. ref (f e) = ref e" "\<And>e. attrs (f e) ''id'' = attrs e ''id''"
  shows "x \<in> shown K (upd r f d) \<longleftrightarrow>
     (\<exists>e \<in> set d. ref e = x \<and> vis (if x = r then f e else e) = ''visible'' \<and> (\<exists>i \<in> K. attrs e ''id'' = Some i))"
proof -
  define g where "g = (\<lambda>e. if ref e = r then f e else e)"
  have g: "ref (g e) = ref e" "attrs (g e) ''id'' = attrs e ''id''" for e
    using assms by (simp_all add: g_def)
  have "x \<in> shown K (upd r f d) \<longleftrightarrow>
      (\<exists>e \<in> set d. ref (g e) = x \<and> vis (g e) = ''visible'' \<and> (\<exists>i \<in> K. attrs (g e) ''id'' = Some i))"
    unfolding shown_def set_upd g_def by blast
  also have "\<dots> \<longleftrightarrow> (\<exists>e \<in> set d. ref e = x \<and> vis (g e) = ''visible'' \<and> (\<exists>i \<in> K. attrs e ''id'' = Some i))"
    by (simp only: g)
  also have "\<dots> \<longleftrightarrow> (\<exists>e \<in> set d. ref e = x \<and> vis (if x = r then f e else e) = ''visible'' \<and> (\<exists>i \<in> K. attrs e ''id'' = Some i))"
    by (rule bex_cong) (auto simp: g_def)
  finally show ?thesis .
qed

lemma shown_iff:
  "x \<in> shown K d \<longleftrightarrow> (\<exists>e \<in> set d. ref e = x \<and> vis e = ''visible'' \<and> (\<exists>i \<in> K. attrs e ''id'' = Some i))"
  by (auto simp: shown_def)

lemma shown_ops [simp]:
  "shown K (hide_el r d) = shown K d - {r}" "shown K (show_el r d) \<subseteq> insert r (shown K d)"
  "shown K (upd r (set_attr ''src'' v) d) = shown K d"
proof -
  have "x \<in> shown K (hide_el r d) \<longleftrightarrow> x \<in> shown K d - {r}" for x
    unfolding hide_el_def by (subst shown_upd) (auto simp: shown_iff)
  then show "shown K (hide_el r d) = shown K d - {r}" by blast
  have "x \<in> shown K (show_el r d) \<Longrightarrow> x \<in> insert r (shown K d)" for x
    unfolding show_el_def by (subst (asm) shown_upd) (auto simp: shown_iff split: if_splits)
  then show "shown K (show_el r d) \<subseteq> insert r (shown K d)" by blast
  have "vis (set_attr ''src'' v e) = vis e" for e by (simp add: set_attr_def)
  then have "x \<in> shown K (upd r (set_attr ''src'' v) d) \<longleftrightarrow> x \<in> shown K d" for x
    by (subst shown_upd) (auto simp: shown_iff)
  then show "shown K (upd r (set_attr ''src'' v) d) = shown K d" by blast
qed

definition pictures_ok :: "dom \<Rightarrow> move list \<Rightarrow> bool" where
  "pictures_ok d ms \<longleftrightarrow> (\<forall>b. Onto b \<in> set ms \<longrightarrow> picture b \<noteq> [] \<and> id_ref d (picture b) \<noteq> None)"

text \<open>
  The table remembered is the only one shown, and while the pointer is over a button it is that
  button's.
\<close>

definition hover_ok :: "string set \<Rightarrow> dom \<Rightarrow> hover \<Rightarrow> bool" where
  "hover_ok K d0 s \<longleftrightarrow>
     shown K (pdoc (snd s)) \<subseteq> set_option (poppedup (snd s))
     \<and> (\<forall>i. id_ref (pdoc (snd s)) i = id_ref d0 i)
     \<and> (\<forall>b. fst s = Some b \<longrightarrow> picture b \<noteq> [] \<and> id_ref d0 (picture b) \<noteq> None
          \<and> (poppedup (snd s) = None \<or> poppedup (snd s) = id_ref d0 (table b)))"

lemma swap_image_ok:
  assumes "i \<noteq> []" "id_ref (pdoc p) i \<noteq> None"
  shows "\<exists>p1 img. swap_image GetElementById u v (Some i) p = Inr (p1, Some img) \<and> poppedup p1 = poppedup p
     \<and> shown K (pdoc p1) = shown K (pdoc p) \<and> (\<forall>j. id_ref (pdoc p1) j = id_ref (pdoc p) j)"
proof -
  obtain e where "findObj GetElementById i (pdoc p) = Some e"
    using assms(2) findObj_id [of i "pdoc p"] by (cases "findObj GetElementById i (pdoc p)") auto
  then show ?thesis using assms(1) by (simp add: swap_image_def)
qed

lemma onlink_ok:
  assumes "shown K (pdoc p) \<subseteq> set_option (poppedup p)" "i \<noteq> []" "id_ref (pdoc p) i \<noteq> None"
  shows "let q = fst (onlink GetElementById g r c t (Some i) p) in
     shown K (pdoc q) \<subseteq> set_option (poppedup q) \<and> (\<forall>j. id_ref (pdoc q) j = id_ref (pdoc p) j)
     \<and> (poppedup q = None \<or> poppedup q = id_ref (pdoc p) t)"
proof -
  obtain p1 img where p1: "swap_image GetElementById ''.jpg'' ''_hover.jpg'' (Some i) p = Inr (p1, Some img)"
    "poppedup p1 = poppedup p" "shown K (pdoc p1) = shown K (pdoc p)" "\<forall>j. id_ref (pdoc p1) j = id_ref (pdoc p) j"
    using swap_image_ok [OF assms(2,3)] by blast
  define p2 where "p2 = (case poppedup p1 of None \<Rightarrow> p1
      | Some r \<Rightarrow> p1\<lparr>pdoc := hide_el r (pdoc p1), poppedup := None\<rparr>)"
  have p2: "shown K (pdoc p2) = {}" "poppedup p2 = None" "\<forall>j. id_ref (pdoc p2) j = id_ref (pdoc p) j"
    using p1 assms(1) by (auto simp: p2_def split: option.splits)
  have t: "map_option ref (findObj GetElementById t (pdoc p2)) = id_ref (pdoc p) t"
    using p2(3) by (simp add: findObj_id)
  have eq: "onlink GetElementById g r c t (Some i) p =
      (case (findObj GetElementById c (pdoc p1), findObj GetElementById t (pdoc p2)) of
         (Some _, Some obj) \<Rightarrow>
           (p2\<lparr>pdoc := show_el (ref obj) (pdoc p2), poppedup := Some (ref obj),
               placed := (placed p2)(ref obj \<mapsto> (fst (size_of g img), offset_top g r))\<rparr>, None)
       | _ \<Rightarrow> (p2, None))"
    unfolding onlink_def p1(1) by (auto simp: p2_def Let_def split: option.splits)
  show ?thesis
  proof (cases "findObj GetElementById c (pdoc p1) = None \<or> findObj GetElementById t (pdoc p2) = None")
    case True
    then have "onlink GetElementById g r c t (Some i) p = (p2, None)"
      unfolding eq by (auto split: option.splits)
    then show ?thesis using p2 by simp
  next
    case False
    then obtain x obj where o: "findObj GetElementById c (pdoc p1) = Some x" "findObj GetElementById t (pdoc p2) = Some obj"
      by auto
    have "id_ref (pdoc p) t = Some (ref obj)" using t o(2) by simp
    then show ?thesis using p2 shown_ops(2) [of K "ref obj" "pdoc p2"] by (simp add: eq o Let_def)
  qed
qed

lemma offlink_ok:
  assumes "shown K (pdoc p) \<subseteq> set_option (poppedup p)" "i \<noteq> []" "id_ref (pdoc p) i \<noteq> None"
    and "poppedup p = None \<or> poppedup p = id_ref (pdoc p) t"
  shows "let q = fst (offlink GetElementById g r at t (Some i) p) in
     shown K (pdoc q) \<subseteq> set_option (poppedup q) \<and> (\<forall>j. id_ref (pdoc q) j = id_ref (pdoc p) j)"
proof -
  obtain p1 img where p1: "swap_image GetElementById ''_hover.jpg'' ''.jpg'' (Some i) p = Inr (p1, Some img)"
    "poppedup p1 = poppedup p" "shown K (pdoc p1) = shown K (pdoc p)" "\<forall>j. id_ref (pdoc p1) j = id_ref (pdoc p) j"
    using swap_image_ok [OF assms(2,3)] by blast
  have t: "map_option ref (findObj GetElementById t (pdoc p1)) = id_ref (pdoc p) t"
    using p1(4) by (simp add: findObj_id)
  show ?thesis
  proof (cases "findObj GetElementById t (pdoc p1)")
    case None
    then have "shown K (pdoc p1) = {}" using p1 assms(1,4) t by auto
    then show ?thesis unfolding offlink_def p1(1) using p1 None by (simp add: Let_def)
  next
    case (Some a)
    then have "shown K (pdoc p1) \<subseteq> {ref a}" "shown K (pdoc p1) \<subseteq> set_option (poppedup p1)"
      using p1 assms(1,4) t by (auto simp flip: t)
    then show ?thesis unfolding offlink_def p1(1) using p1(4) Some by (auto simp: Let_def)
  qed
qed

lemma hidetable_ok:
  assumes "shown K (pdoc p) \<subseteq> set_option (poppedup p)" "poppedup p = Some r"
  shows "let q = hidetable GetElementById g r i at p in
     shown K (pdoc q) \<subseteq> set_option (poppedup q) \<and> (\<forall>j. id_ref (pdoc q) j = id_ref (pdoc p) j)
     \<and> (poppedup q = None \<or> poppedup q = poppedup p)"
  using assms by (auto simp: hidetable_def Let_def split: option.split)

lemma move_step_ok:
  assumes "hover_ok K d0 s" "pictures_ok d0 [m]"
  shows "hover_ok K d0 (move_step GetElementById g s m)"
proof (cases m)
  case (Onto b)
  show ?thesis
  proof (cases "fst s")
    case None
    have "picture b \<noteq> []" "id_ref (pdoc (snd s)) (picture b) \<noteq> None"
      using assms Onto by (auto simp: pictures_ok_def hover_ok_def)
    from onlink_ok [OF _ this, of K g "but b" "cell b" "table b"] show ?thesis
      using assms Onto None by (simp add: move_step_def hover_ok_def Let_def pictures_ok_def)
  next
    case (Some b')
    then show ?thesis using assms(1) by (simp add: move_step_def Onto)
  qed
next
  case (Off at)
  show ?thesis
  proof (cases "fst s")
    case None
    then show ?thesis using assms(1) by (simp add: move_step_def Off)
  next
    case (Some b)
    have "shown K (pdoc (snd s)) \<subseteq> set_option (poppedup (snd s))" "picture b \<noteq> []"
      "id_ref (pdoc (snd s)) (picture b) \<noteq> None"
      "poppedup (snd s) = None \<or> poppedup (snd s) = id_ref (pdoc (snd s)) (table b)"
      using assms(1) Some by (auto simp: hover_ok_def)
    from offlink_ok [OF this, of g "but b" at] show ?thesis
      using assms(1) Off Some by (simp add: move_step_def hover_ok_def Let_def)
  qed
next
  case (Out at)
  show ?thesis
  proof (cases "Option.bind (poppedup (snd s)) (getr (pdoc (snd s)))")
    case None
    then show ?thesis using assms(1) by (simp add: move_step_def Out)
  next
    case (Some t)
    then obtain r where r: "poppedup (snd s) = Some r" "getr (pdoc (snd s)) r = Some t"
      by (auto simp: bind_eq_Some_conv)
    have "ref t = r" using getr_Some [OF r(2)] by simp
    then show ?thesis
      using assms(1) hidetable_ok [of K "snd s" r g _ at] r Some
      by (cases "attrs t ''id''") (simp_all add: move_step_def Out hover_ok_def Let_def, metis)
  qed
qed

interpretation pointer: handled "move_step GetElementById g" "\<lambda>m. pictures_ok d [m]" "hover_ok K d"
  by unfold_locales (rule move_step_ok)

text \<open>
  C27: Wherever the pointer moves, entering and leaving buttons and the tables they pop up, at most one
  of the tables is visible, and it is the one \<open>poppedup\<close> remembers.
\<close>

theorem one_table_shown:
  assumes "shown K d \<subseteq> set_option (poppedup p)" "pdoc p = d" "pictures_ok d ms"
  shows "shown K (pdoc (snd (foldl (move_step GetElementById g) (None, p) ms)))
     \<subseteq> set_option (poppedup (snd (foldl (move_step GetElementById g) (None, p) ms)))"
proof -
  have "hover_ok K d (foldl (move_step GetElementById g) (None, p) ms)"
    using assms by (intro pointer.run_ok) (auto simp: hover_ok_def pictures_ok_def)
  then show ?thesis by (simp add: hover_ok_def)
qed

definition demo_popups :: popup_page where
  "demo_popups = \<lparr>pdoc = [(new_el ''img'' [(''id'', ''img1''), (''src'', ''a.jpg'')] [])\<lparr>ref := 1\<rparr>,
       (new_el ''td'' [(''id'', ''c1'')] [])\<lparr>ref := 2\<rparr>,
       (new_el ''table'' [(''id'', ''t1'')] [])\<lparr>ref := 3\<rparr>, (new_el ''table'' [(''id'', ''t2'')] [])\<lparr>ref := 4\<rparr>],
     poppedup = None, placed = Map.empty\<rparr>"

definition demo_moves :: "move list" where
  "demo_moves = [Onto \<lparr>but = 2, cell = ''c1'', table = ''t1'', picture = ''img1''\<rparr>, Off (50, 5),
     Onto \<lparr>but = 2, cell = ''c1'', table = ''t2'', picture = ''img1''\<rparr>]"

definition demo_geometry :: geometry where
  "demo_geometry = \<lparr>offsets = (\<lambda>_. [(0, 0)]), size_of = (\<lambda>_. (20, 10))\<rparr>"

theorem one_table_shown_witness:
  "shown {''t1'', ''t2''} (pdoc (snd (foldl (move_step GetElementById demo_geometry) (None, demo_popups) demo_moves))) \<subseteq> {4}"
proof -
  have "poppedup (snd (foldl (move_step GetElementById demo_geometry) (None, demo_popups) demo_moves)) = Some 4"
    by code_simp
  moreover have "pictures_ok (pdoc demo_popups) demo_moves"
    by (simp add: pictures_ok_def demo_moves_def demo_popups_def id_ref_def by_id_def new_el_def)
  moreover have "shown {''t1'', ''t2''} (pdoc demo_popups) \<subseteq> set_option (poppedup demo_popups)"
    by (auto simp: shown_def demo_popups_def new_el_def)
  ultimately show ?thesis
    using one_table_shown [of "{''t1'', ''t2''}" "pdoc demo_popups" demo_popups demo_moves demo_geometry] by simp
qed

section \<open>The picture comes back\<close>

lemma replace_first_none: "\<not> contains p s \<Longrightarrow> replace_first p r s = s"
  by (induction s) auto

lemma contains_split: "contains p s \<longleftrightarrow> (\<exists>u v. s = u @ p @ v)"
proof (induction s)
  case (Cons c s)
  have "contains p (c # s) \<longleftrightarrow> prefix p (c # s) \<or> (\<exists>u v. s = u @ p @ v)" using Cons by simp
  also have "\<dots> \<longleftrightarrow> (\<exists>u v. c # s = u @ p @ v)"
    by (auto simp: prefix_def Cons_eq_append_conv)
  finally show ?case .
qed auto

lemma replace_first_front: "p \<noteq> [] \<Longrightarrow> replace_first p r (p @ v) = r @ v"
  by (cases p) auto

text \<open>The first occurrence of \<open>a @ p\<close> after \<open>p\<close> was replaced by it, when \<open>a\<close>'s first letter is in no other place.\<close>

lemma replace_first_split:
  "contains p s \<Longrightarrow> p \<noteq> [] \<Longrightarrow> \<exists>u v. s = u @ p @ v \<and> replace_first p r s = u @ r @ v
     \<and> (\<forall>u' u''. u = u' @ u'' \<and> u'' \<noteq> [] \<longrightarrow> \<not> prefix p (u'' @ p @ v))"
proof (induction s)
  case (Cons c s)
  show ?case
  proof (cases "prefix p (c # s)")
    case True
    then obtain v where v: "c # s = p @ v" by (auto simp: prefix_def)
    have "replace_first p r (c # s) = r @ v"
      unfolding v by (rule replace_first_front [OF Cons.prems(2)])
    then show ?thesis using v by (intro exI [of _ "[]"] exI [of _ v]) simp
  next
    case False
    then obtain u v where uv: "s = u @ p @ v" "replace_first p r s = u @ r @ v"
      "\<forall>u' u''. u = u' @ u'' \<and> u'' \<noteq> [] \<longrightarrow> \<not> prefix p (u'' @ p @ v)"
      using Cons by auto
    have "\<not> prefix p (u'' @ p @ v)" if "c # u = u' @ u''" "u'' \<noteq> []" for u' u''
      using that uv False by (cases u') auto
    then show ?thesis using uv False by (intro exI [of _ "c # u"] exI [of _ v]) simp
  qed
qed simp

lemma replace_first_at:
  "(\<forall>u' u''. u = u' @ u'' \<and> u'' \<noteq> [] \<longrightarrow> \<not> prefix p (u'' @ p @ v)) \<Longrightarrow> p \<noteq> [] \<Longrightarrow>
     replace_first p r (u @ p @ v) = u @ r @ v"
proof (induction u)
  case Nil
  then show ?case by (simp add: replace_first_front)
next
  case (Cons c u)
  have "\<not> prefix p ((c # u) @ p @ v)" using Cons.prems(1) by (metis append_Nil list.distinct(1))
  moreover have "\<forall>u' u''. u = u' @ u'' \<and> u'' \<noteq> [] \<longrightarrow> \<not> prefix p (u'' @ p @ v)"
    using Cons.prems(1) by (metis append_Cons)
  ultimately show ?case using Cons.IH Cons.prems(2) by simp
qed

lemma hover_back:
  assumes "a \<noteq> []" "p \<noteq> []" "hd a \<notin> set (tl a @ p)"
  shows "replace_first (a @ p) p (replace_first p (a @ p) s) = s"
proof (cases "contains p s")
  case False
  have "\<not> contains (a @ p) s"
  proof
    assume "contains (a @ p) s"
    then obtain u v where "s = (u @ a) @ p @ v" by (auto simp: contains_split)
    then show False using False contains_split [of p s] by blast
  qed
  then show ?thesis using False by (simp add: replace_first_none)
next
  case True
  then obtain u v where uv: "s = u @ p @ v" "replace_first p (a @ p) s = u @ (a @ p) @ v"
    "\<forall>u' u''. u = u' @ u'' \<and> u'' \<noteq> [] \<longrightarrow> \<not> prefix p (u'' @ p @ v)"
    using replace_first_split [OF _ assms(2), of s "a @ p"] by blast
  have "\<not> prefix (a @ p) (u'' @ (a @ p) @ v)" if u: "u = u' @ u''" "u'' \<noteq> []" for u' u''
  proof
    assume pre: "prefix (a @ p) (u'' @ (a @ p) @ v)"
    show False
    proof (cases "length u'' < length (a @ p)")
      case True
      obtain w where w: "u'' @ (a @ p) @ v = (a @ p) @ w" using pre by (auto simp: prefix_def)
      have "(a @ p) ! length u'' = hd a"
      proof -
        have "(u'' @ (a @ p) @ v) ! length u'' = hd a" using assms(1) by (simp add: nth_append hd_conv_nth)
        then show ?thesis unfolding w using nth_append [of "a @ p" w "length u''"] True by simp
      qed
      moreover have "(a @ p) ! length u'' = (tl a @ p) ! (length u'' - 1)"
        using assms(1) u(2) by (cases a) (auto simp: nth_Cons split: nat.split)
      moreover have "length u'' - 1 < length (tl a @ p)" using True u(2) assms(1) by (cases u''; cases a) auto
      ultimately show False using assms(3) by (metis nth_mem)
    next
      case False
      then have "prefix (a @ p) u''" using pre by (metis linorder_not_less prefix_length_prefix prefixI)
      then obtain w where "u'' = a @ p @ w" by (auto simp: prefix_def)
      then have "u = (u' @ a) @ (p @ w)" "prefix p ((p @ w) @ p @ v)" using u(1) by auto
      then show False using uv(3) assms(2) by (metis append_is_Nil_conv)
    qed
  qed
  then have "replace_first (a @ p) p (u @ (a @ p) @ v) = u @ p @ v"
    using assms(1) by (intro replace_first_at) auto
  then show ?thesis using uv by simp
qed

end
