(* ===== verification/AppTree.thy ===== *)
theory AppTree
  imports StabCommon
begin

text \<open>
  \<open>app-utils.js\<close>: the tree of application roles, whose branches open and close and get new children.
  The left margin an element's style sets is kept as the attribute \<open>style.marginLeft\<close>.
\<close>

section \<open>Opening and closing\<close>

definition set_display :: "string \<Rightarrow> elem \<Rightarrow> elem" where
  "set_display v e = e\<lparr>disp := v\<rparr>"

definition AppTreeManip :: "string \<Rightarrow> string \<Rightarrow> dom \<Rightarrow> dom" where
  "AppTreeManip nodeid imgid d =
     (case by_id d nodeid of
        None \<Rightarrow> d
      | Some node \<Rightarrow>
          if disp node = ''none'' then swaparrows imgid Down (upd (ref node) (set_display []) d)
          else swaparrows imgid Up (upd (ref node) (set_display ''none'') d))"

text \<open>The branch a heading belongs to: its identifier without the ending.\<close>

definition branch_id :: "elem \<Rightarrow> string option" where
  "branch_id e =
     (let i = (case attrs e ''id'' of None \<Rightarrow> [] | Some x \<Rightarrow> x) in
      if tag e \<noteq> ''div'' then None
      else if class_name e = ''approle_root'' then Some (strip_suffix ''_root'' i)
      else if class_name e = ''approle_depth'' then Some (strip_suffix ''_depth'' i) else None)"

text \<open>One round of the loop; a branch that is not in the page raises a \<open>TypeError\<close>.\<close>

definition balance_one :: "string \<Rightarrow> arrow \<Rightarrow> dom \<Rightarrow> string \<Rightarrow> dom \<times> js_error option" where
  "balance_one shown' arrows d i =
     (case by_id d i of
        None \<Rightarrow> (d, Some TypeError)
      | Some v \<Rightarrow> (swaparrows (i @ ''_arrow'') arrows (upd (ref v) (set_display shown') d), None))"

definition BalanceTree :: "string \<Rightarrow> dom \<Rightarrow> dom \<times> js_error option" where
  "BalanceTree what d =
     (if what = ''collapse'' then js_run (balance_one ''none'' Up) d (List.map_filter branch_id d)
      else if what = ''expand'' then js_run (balance_one [] Down) d (List.map_filter branch_id d)
      else (d, None))"

section \<open>A new child\<close>

text \<open>
  \<open>Number(s)\<close> of digits, or of nothing, which is 0.  Anything else is \<open>NaN\<close> here (\<open>None\<close>); the
  margins of the page are whole numbers of pixels.
\<close>

definition js_Number :: "string \<Rightarrow> nat option" where
  "js_Number s = (if list_all is_digit s then Some (digits_val s) else None)"

definition margin_of :: "elem \<Rightarrow> string" where
  "margin_of e = (case attrs e ''style.marginLeft'' of None \<Rightarrow> [] | Some m \<Rightarrow> m)"

text \<open>A margin that is no number of pixels is ignored by the browser.\<close>

definition child_margin :: "elem \<Rightarrow> (string \<times> string) list" where
  "child_margin par =
     (case js_Number (strip_suffix ''px'' (margin_of par)) of
        None \<Rightarrow> [] | Some n \<Rightarrow> [(''style.marginLeft'', nat_str (n + 20) @ ''px'')])"

text \<open>
  The new element: a field and a link for a child of its own.  The link's handler is the function
  itself with the new element's identifier, which stands for it in \<open>onclick\<close>.
\<close>

definition new_child :: "string \<Rightarrow> elem \<Rightarrow> html" where
  "new_child divid par =
     el ''div'' ((''id'', ''newchild_'' @ divid) # child_margin par) [''approle_undecided'']
       [el ''input'' [(''id'', divid)] [] [],
        el_text ''a'' [(''href'', ''javascript:void(null);''), (''onclick'', ''newchild_'' @ divid)]
          [''approle_addchild''] ''(add)'']"

definition parent_of :: "dom \<Rightarrow> elem \<Rightarrow> elem option" where
  "parent_of d e = (case path e of [] \<Rightarrow> None | r # _ \<Rightarrow> getr d r)"

text \<open>
  Where the child goes: a branch of its own below an element that had none, or the branch of the
  element, which is opened.  \<open>Inr None\<close>: the element is none that gets children.
\<close>

definition child_place :: "elem \<Rightarrow> string \<Rightarrow> dom \<Rightarrow> (dom \<times> nat) option js" where
  "child_place par i d =
     (if class_name par = ''approle_undecided''
      then Inr (Some (append_to (ref par) [el ''div'' [] [''approle_depth''] []]
             (upd (ref par) (\<lambda>e. e\<lparr>cls := [''approle_depth'']\<rparr>) d), fresh_ref d))
      else if class_name par \<noteq> ''approle_depth'' \<and> class_name par \<noteq> ''approle_root'' then Inr None
      else
        (case by_id d (replace_tail ''_'' [] i) of
           None \<Rightarrow> Inl TypeError
         | Some v \<Rightarrow>
             Inr (Some
               (if disp v = ''none''
                then swaparrows (replace_tail ''_'' ''_arrow'' i) Down (upd (ref v) (set_display []) d)
                else d, ref v))))"

definition AddAppChild :: "string \<Rightarrow> page \<Rightarrow> page \<times> js_error option" where
  "AddAppChild i p =
     (case by_id (doc p) i of
        None \<Rightarrow> (p, None)
      | Some par \<Rightarrow>
          (case child_place par i (doc p) of
             Inl x \<Rightarrow> (p, Some x)
           | Inr None \<Rightarrow> (p, None)
           | Inr (Some (d1, r)) \<Rightarrow>
               (case Option.bind (getr d1 r) (\<lambda>v. map_option (\<lambda>q. (v, q)) (parent_of d1 v)) of
                  None \<Rightarrow> (p\<lparr>doc := d1\<rparr>, Some TypeError)
                | Some (v, q) \<Rightarrow>
                    let divid = (case attrs v ''id'' of None \<Rightarrow> [] | Some x \<Rightarrow> x) in
                    (p\<lparr>doc := append_to r [new_child divid q] d1,
                       alerts := alerts p @ (if prefix ''newchild'' i then [''wtfbbq?!''] else [])\<rparr>, None))))"


section \<open>The whole tree opens and closes\<close>

text \<open>The branch with an identifier is there and has a display.\<close>

definition branch_shown :: "string \<Rightarrow> string \<Rightarrow> dom \<Rightarrow> bool" where
  "branch_shown v i d \<longleftrightarrow> (\<exists>e. by_id d i = Some e \<and> disp e = v)"

lemma by_id_display: "by_id (upd r (set_display v) d) i = map_option (\<lambda>e. if ref e = r then set_display v e else e) (by_id d i)"
  by (rule by_id_upd) (simp_all add: set_display_def)

lemma by_id_swaparrows:
  "\<exists>f. (\<forall>e. disp (f e) = disp e \<and> ref (f e) = ref e) \<and> by_id (swaparrows g s d) i = map_option f (by_id d i)"
proof -
  have set: "by_id (upd r (set_attr ''src'' v) d) i
      = map_option (\<lambda>e. if ref e = r then set_attr ''src'' v e else e) (by_id d i)" for r v
    by (rule by_id_upd) simp_all
  have "\<exists>f. (\<forall>e. disp (f e) = disp e \<and> ref (f e) = ref e) \<and> by_id d i = map_option f (by_id d i)"
    by (intro exI [of _ id]) (simp add: option.map_id)
  moreover have "\<exists>f. (\<forall>e. disp (f e) = disp e \<and> ref (f e) = ref e)
      \<and> by_id (upd r (set_attr ''src'' v) d) i = map_option f (by_id d i)" for r v
    unfolding set by (intro exI [of _ "\<lambda>e. if ref e = r then set_attr ''src'' v e else e"]) (simp add: set_attr_def)
  ultimately show ?thesis by (auto simp: swaparrows_def split: option.split)
qed

lemma balance_one_spec:
  assumes "by_id d i \<noteq> None"
  shows "\<exists>d'. balance_one v a d i = (d', None) \<and> branch_shown v i d'
     \<and> (\<forall>j. branch_shown v j d \<longrightarrow> branch_shown v j d') \<and> (\<forall>j. by_id d j \<noteq> None \<longrightarrow> by_id d' j \<noteq> None)"
proof -
  obtain e where e: "by_id d i = Some e" using assms by blast
  define d1 where "d1 = upd (ref e) (set_display v) d"
  define d' where "d' = swaparrows (i @ ''_arrow'') a d1"
  have b: "balance_one v a d i = (d', None)" using e by (simp add: balance_one_def d'_def d1_def)
  have 1: "branch_shown v i d1" "\<And>j. branch_shown v j d \<Longrightarrow> branch_shown v j d1"
    "\<And>j. by_id d j \<noteq> None \<Longrightarrow> by_id d1 j \<noteq> None"
    unfolding branch_shown_def d1_def by_id_display using e by (force simp: set_display_def)+
  have 2: "branch_shown v j d'" if "branch_shown v j d1" for j
  proof -
    obtain f where f: "\<And>e. disp (f e) = disp e" "by_id d' j = map_option f (by_id d1 j)"
      using by_id_swaparrows unfolding d'_def by metis
    then show ?thesis using that by (auto simp: branch_shown_def)
  qed
  have 3: "by_id d' j \<noteq> None" if "by_id d1 j \<noteq> None" for j
  proof -
    obtain f where f: "\<And>e. disp (f e) = disp e" "by_id d' j = map_option f (by_id d1 j)"
      using by_id_swaparrows unfolding d'_def by metis
    then show ?thesis using that by simp
  qed
  show ?thesis using b 1 2 3 by blast
qed

lemma balance_all:
  assumes "\<forall>i \<in> set is. by_id d i \<noteq> None"
  shows "\<exists>d'. js_run (balance_one v a) d is = (d', None) \<and> (\<forall>i \<in> set is. branch_shown v i d')
     \<and> (\<forall>j. branch_shown v j d \<longrightarrow> branch_shown v j d')"
  using assms
proof (induction "is" arbitrary: d)
  case (Cons i "is")
  obtain d1 where d1: "balance_one v a d i = (d1, None)" "branch_shown v i d1"
    "\<forall>j. branch_shown v j d \<longrightarrow> branch_shown v j d1" "\<forall>j. by_id d j \<noteq> None \<longrightarrow> by_id d1 j \<noteq> None"
    using balance_one_spec Cons.prems by (metis list.set_intros(1))
  have "\<forall>i \<in> set is. by_id d1 i \<noteq> None" using Cons.prems d1(4) by simp
  then obtain d' where "js_run (balance_one v a) d1 is = (d', None)" "\<forall>i \<in> set is. branch_shown v i d'"
    "\<forall>j. branch_shown v j d1 \<longrightarrow> branch_shown v j d'"
    using Cons.IH by blast
  then show ?case using d1 by auto
qed simp

text \<open>
  Collapsing and expanding the whole tree ends with every branch closed, or every branch open,
  whatever branches were open before, as long as every heading has its branch.
\<close>

theorem balance_tree:
  assumes "\<forall>i \<in> set (List.map_filter branch_id d). by_id d i \<noteq> None"
    and "what = ''collapse'' \<and> v = ''none'' \<or> what = ''expand'' \<and> v = []"
  shows "\<exists>d'. BalanceTree what d = (d', None) \<and> (\<forall>i \<in> set (List.map_filter branch_id d). branch_shown v i d')"
  using assms(2)
proof
  assume "what = ''collapse'' \<and> v = ''none''"
  then show ?thesis using balance_all [OF assms(1), of v Up] by (auto simp: BalanceTree_def)
next
  assume "what = ''expand'' \<and> v = []"
  then show ?thesis using balance_all [OF assms(1), of v Down] by (auto simp: BalanceTree_def)
qed

section \<open>A new child gets one child only\<close>

text \<open>
  The code cannot add a second child to an element that was itself just added: after the first, its
  branch has no identifier, and looking for it raises a \<open>TypeError\<close>.  Nothing is added.
\<close>

theorem second_grandchild_fails:
  assumes "by_id (doc p) (''newchild_'' @ i) = Some par" "class_name par = ''approle_depth''"
    and "by_id (doc p) ''newchild'' = None"
  shows "AddAppChild (''newchild_'' @ i) p = (p, Some TypeError)"
proof -
  have "replace_tail ''_'' [] (''newchild_'' @ i) = ''newchild''" by simp
  then show ?thesis using assms by (simp add: AddAppChild_def child_place_def)
qed

definition demo_tree :: page where
  "demo_tree = \<lparr>doc = [(new_el ''div'' [(''id'', ''7_root'')] [''approle_root''])\<lparr>ref := 1\<rparr>,
     (new_el ''div'' [(''id'', ''7''), (''style.marginLeft'', ''20px'')] [])\<lparr>ref := 2, path := [1]\<rparr>],
     alerts = [], requests = [], location = []\<rparr>"

theorem balance_tree_witness:
  "\<exists>d'. BalanceTree ''collapse'' (doc demo_tree) = (d', None) \<and> branch_shown ''none'' ''7'' d'"
proof -
  have b: "List.map_filter branch_id (doc demo_tree) = [''7'']" by code_simp
  have "by_id (doc demo_tree) ''7'' \<noteq> None" by code_simp
  then show ?thesis using balance_tree [of "doc demo_tree" "''collapse''" "''none''"] unfolding b by simp
qed

theorem second_grandchild_fails_witness:
  "map_prod length (\<lambda>x. x)
     (map_prod doc (\<lambda>x. x) (AddAppChild ''newchild_7'' (fst (AddAppChild ''newchild_7'' (fst (AddAppChild ''7_root'' demo_tree))))))
   = (9, Some TypeError)"
proof -
  let ?p = "fst (AddAppChild ''newchild_7'' (fst (AddAppChild ''7_root'' demo_tree)))"
  have e: "map_option class_name (by_id (doc ?p) ''newchild_7'') = Some ''approle_depth''" by code_simp
  have n: "by_id (doc ?p) ''newchild'' = None" by code_simp
  have l: "length (doc ?p) = 9" by code_simp
  obtain par where "by_id (doc ?p) (''newchild_'' @ ''7'') = Some par" "class_name par = ''approle_depth''"
    using e by auto
  from second_grandchild_fails [OF this n] show ?thesis using l by simp
qed

end
