(* ===== verification/EditableText.thy ===== *)
theory EditableText
  imports Prelude
begin

text \<open>
  \<open>src/javascript/common.js\<close>: texts that become a field when they are clicked.  Setting them up puts a
  hidden field and a label into every \<open>span.editabletext\<close>; the pages set them up again whenever new
  rows arrive.
\<close>

section \<open>Spans\<close>

definition js_space :: "char \<Rightarrow> bool" where
  "js_space c \<longleftrightarrow> c \<in> {CHR '' '', CHR 0x09, CHR 0x0A, CHR 0x0B, CHR 0x0C, CHR 0x0D}"

text \<open>\<open>s.trim()\<close>.\<close>

definition trim :: "string \<Rightarrow> string" where
  "trim s = rev (dropWhile js_space (rev (dropWhile js_space s)))"

text \<open>
  A span with its identifier, its class (\<open>editabletext\<close> or \<open>hinttext\<close>) and whether it is displayed.
  It holds a text, or a field and a label.  \<open>live\<close> tells whether the handlers are attached: they are not
  on elements that were made from markup.  \<open>fattr\<close> is the field's \<open>value\<close> attribute, \<open>fval\<close> what it
  holds.
\<close>

datatype span_class = Editable | Hint

datatype span = Span (sid: "string option") (sclass: span_class) (sshown: bool) (sbody: body)
  and body = Text string | Field (fid: string) (fname: "string option") (fattr: string) (fval: string)
      (fshown: bool) (live: bool) (label: span)

text \<open>\<open>textContent\<close>: the texts in it; a field has none.\<close>

fun span_text :: "span \<Rightarrow> string" and body_text :: "body \<Rightarrow> string" where
  "span_text (Span i k s b) = body_text b"
| "body_text (Text t) = t"
| "body_text (Field i n a v s h l) = span_text l"

section \<open>Setting the fields up\<close>

text \<open>The identifier of a field; an absent one is the text \<open>undefined\<close>.\<close>

definition field_id :: "string option \<Rightarrow> string" where
  "field_id i =
     concat (map (\<lambda>c. if c = CHR '':'' then ''_C_'' else [c]) (''ED_'' @ (case i of None \<Rightarrow> ''undefined'' | Some x \<Rightarrow> x)))"

text \<open>
  The selector \<open>input#ID\<close> finds the element with that identifier when the characters of \<open>ID\<close> are those of
  a name.  A dot starts a class in a selector: the identifier of an IPv4 address is never found.  (Other
  special characters raise a syntax error; the pages have none.)
\<close>

definition name_char :: "char \<Rightarrow> bool" where
  "name_char c \<longleftrightarrow> is_digit c \<or> c \<in> {CHR ''_'', CHR ''-''}
     \<or> (let n = (of_char c :: nat) in 65 \<le> n \<and> n \<le> 90 \<or> 97 \<le> n \<and> n \<le> 122)"

fun has_field :: "string \<Rightarrow> span \<Rightarrow> bool" and body_has_field :: "string \<Rightarrow> body \<Rightarrow> bool" where
  "has_field f (Span i k s b) = body_has_field f b"
| "body_has_field f (Text t) = False"
| "body_has_field f (Field i n a v s h l) = (i = f \<or> has_field f l)"

definition found :: "string \<Rightarrow> body \<Rightarrow> bool" where
  "found f b \<longleftrightarrow> list_all name_char f \<and> body_has_field f b"

text \<open>
  The contents read back from their markup: the text trimmed, fields with the value of their attribute
  and without handlers.
\<close>

fun markup_span :: "span \<Rightarrow> span" and markup :: "body \<Rightarrow> body" where
  "markup_span (Span i k s b) = Span i k s (markup b)"
| "markup (Text t) = Text t"
| "markup (Field i n a v s h l) = Field i n a a s False (markup_span l)"

definition old_contents :: "body \<Rightarrow> body" where
  "old_contents b = (case b of Text t \<Rightarrow> Text (trim t) | Field i n a v s h l \<Rightarrow> markup b)"

definition new_label :: "body \<Rightarrow> span" where
  "new_label b =
     (if old_contents b = Text [] then Span None Hint True (Text ''Set Description'')
      else Span None Editable True (old_contents b))"

definition wrap :: "string option \<Rightarrow> body \<Rightarrow> body" where
  "wrap i b =
     Field (field_id i) i (body_text (old_contents b)) (body_text (old_contents b)) False True (new_label b)"

text \<open>
  The spans of class \<open>editabletext\<close> are collected before the first is set up: a label made now is not
  one of them, but the labels of an earlier round are.
\<close>

fun init_span :: "span \<Rightarrow> span" and init_body :: "body \<Rightarrow> body" where
  "init_span (Span i k s b) =
     (if k = Editable
      then (if found (field_id i) b then Span i k s (init_body b) else Span i k s (wrap i b))
      else Span i k s (init_body b))"
| "init_body (Text t) = Text t"
| "init_body (Field i n a v s h l) = Field i n a v s h (init_span l)"

definition jazzhands_common_init :: "span list \<Rightarrow> span list" where
  "jazzhands_common_init = map init_span"

section \<open>Editing\<close>

text \<open>
  A click on the text, and so on every span around it: each that has handlers hides its label and shows
  its field.
\<close>

definition hide_span :: "span \<Rightarrow> span" where
  "hide_span l = (case l of Span i k s b \<Rightarrow> Span i k False b)"

fun click_span :: "span \<Rightarrow> span" and click_body :: "body \<Rightarrow> body" where
  "click_span (Span i k s b) = Span i k s (click_body b)"
| "click_body (Text t) = Text t"
| "click_body (Field i n a v s h l) =
     (if h then Field i n a v True h (hide_span (click_span l)) else Field i n a v s h (click_span l))"

text \<open>The outer field is changed, and loses the focus.\<close>

definition type_span :: "string \<Rightarrow> span \<Rightarrow> span" where
  "type_span v sp =
     (case sp of Span i k s (Field fi n a _ True h l) \<Rightarrow> Span i k s (Field fi n a v True h l) | _ \<Rightarrow> sp)"

definition shown_label :: "string \<Rightarrow> span \<Rightarrow> span" where
  "shown_label v l =
     (if v = [] then Span (sid l) Hint True (Text ''Set Description'') else Span (sid l) Editable True (Text v))"

definition blur_span :: "span \<Rightarrow> span" where
  "blur_span sp =
     (case sp of
        Span i k s (Field fi n a v True True l) \<Rightarrow> Span i k s (Field fi n a v False True (shown_label v l))
      | _ \<Rightarrow> sp)"


section \<open>What the user sees is what is sent\<close>

text \<open>The name and value a span sends with its form, and the text it shows.\<close>

definition sends :: "span \<Rightarrow> (string option \<times> string) option" where
  "sends sp = (case sbody sp of Text t \<Rightarrow> None | Field i n a v s h l \<Rightarrow> Some (n, v))"

definition edit_span :: "span \<Rightarrow> string \<Rightarrow> span" where
  "edit_span sp v = blur_span (type_span v (click_span sp))"

definition field_ready :: "string option \<Rightarrow> span \<Rightarrow> bool" where
  "field_ready i sp \<longleftrightarrow>
     (case sbody sp of
        Text t \<Rightarrow> False
      | Field fi n a v s h l \<Rightarrow>
          n = i \<and> \<not> s \<and> h \<and> sshown l \<and> span_text l = (if v = [] then ''Set Description'' else v))"

lemma init_plain:
  "init_span (Span i Editable s (Text t)) =
     Span i Editable s (Field (field_id i) i (trim t) (trim t) False True
       (if trim t = [] then Span None Hint True (Text ''Set Description'') else Span None Editable True (Text (trim t))))"
  by (simp add: found_def wrap_def new_label_def old_contents_def)

lemma edit_span_ready:
  assumes "field_ready i sp"
  shows "field_ready i (edit_span sp v)" "sends (edit_span sp v) = Some (i, v)"
  using assms
  by (cases sp; cases "sbody sp";
      auto simp: field_ready_def edit_span_def type_span_def blur_span_def shown_label_def sends_def)+

text \<open>
  C40: A text that was set up once shows, after any number of edits, what was entered last (the hint when
  that is empty), with its field hidden again, and the field sends exactly that under the identifier of
  the text.
\<close>

theorem edits_shown_and_sent:
  assumes "sp = foldl edit_span (init_span (Span i Editable s (Text t))) vs"
  shows "sends sp = Some (i, last (trim t # vs))
     \<and> span_text sp = (if last (trim t # vs) = [] then ''Set Description'' else last (trim t # vs))
     \<and> field_ready i sp"
proof -
  have "sends sp = Some (i, last (trim t # vs)) \<and> field_ready i sp"
    unfolding assms
  proof (induction vs rule: rev_induct)
    case Nil
    show ?case unfolding foldl.simps init_plain by (simp add: sends_def field_ready_def)
  next
    case (snoc v vs)
    then show ?case using edit_span_ready by simp
  qed
  then show ?thesis by (cases sp) (auto simp: field_ready_def sends_def split: body.splits)
qed

theorem edits_shown_and_sent_witness:
  "sends (foldl edit_span (init_span (Span (Some ''desc_7'') Editable True (Text '' core ''))) [''edge'', ''''])
     = Some (Some ''desc_7'', '''')"
  using edits_shown_and_sent [OF refl, of "Some ''desc_7''" True "'' core ''" "[''edge'', '''']"] by simp

section \<open>Setting up again\<close>

lemma found_Field: "found f (Field f n a v s h l) \<longleftrightarrow> list_all name_char f"
  by (simp add: found_def)

text \<open>
  Setting the texts up a second time, as the arrival of a new row does, is not harmless.  A text
  whose identifier can be looked up keeps its value, but a label with a text gets a field of its own; one
  whose identifier cannot (that of an IPv4 address) gets a new field holding the label's text: a text that
  was empty is then sent as \<open>Set Description\<close>.
\<close>

theorem second_setup:
  "if list_all name_char (field_id i)
     then sends (init_span (init_span (Span i Editable True (Text t)))) = Some (i, trim t)
       \<and> (init_span (init_span (Span i Editable True (Text t))) = init_span (Span i Editable True (Text t)) \<longleftrightarrow> trim t = [])
     else sends (init_span (init_span (Span i Editable True (Text t))))
         = Some (i, if trim t = [] then ''Set Description'' else trim t)"
proof (cases "list_all name_char (field_id i)")
  case True
  have "init_span (Span i Editable True (Field (field_id i) i (trim t) (trim t) False True l))
      = Span i Editable True (Field (field_id i) i (trim t) (trim t) False True (init_span l))" for l
    using True by (simp add: found_Field)
  then show ?thesis using True unfolding init_plain by (simp add: sends_def found_def wrap_def)
next
  case False
  have o: "init_span (Span i Editable True (Text t)) = Span i Editable True (wrap i (Text t))"
    by (simp add: found_def)
  have "init_span (Span i Editable True (wrap i (Text t))) = Span i Editable True (wrap i (wrap i (Text t)))"
    using False by (simp add: found_def)
  moreover have "body_text (old_contents (wrap i (Text t))) = (if trim t = [] then ''Set Description'' else trim t)"
    by (simp add: wrap_def old_contents_def new_label_def)
  moreover have "sends (Span i Editable True (wrap i b)) = Some (i, body_text (old_contents b))" for b
    by (simp add: sends_def wrap_def)
  ultimately show ?thesis using False unfolding o by simp
qed

text \<open>The identifiers the pages write: of an IPv6 address, and of an IPv4 address.\<close>

lemma field_id_examples:
  "list_all name_char (field_id (Some ''desc_fe80::1''))" "\<not> list_all name_char (field_id (Some ''desc_10.0.0.5''))"
  by code_simp+

end
