(* ===== verification/Netblocks.thy ===== *)
theory Netblocks
  imports StabCommon EditableText
begin

text \<open>
  \<open>netblock.js\<close>: the list of the addresses of a netblock, to which rows for new addresses are added, the
  texts that set up DNS, the tree of netblocks, and the forms that add and remove a netblock.
\<close>

section \<open>Rows of addresses\<close>

text \<open>
  A text \<open>span.editdns\<close>: what it says, its class \<open>hint\<close>, and the field and drop-down it gets.
\<close>

record dns_text =
  says :: string
  hint :: bool
  inputs :: "string list"
  domains :: "(string \<times> string) list list"

record ip_row =
  rid :: string
  rshown :: bool
  descs :: "span list"
  dnss :: "dns_text list"

text \<open>
  The rows of the table in order.  \<open>newtr\<close> and \<open>ajaxrequest\<close> are global variables of the script: they
  name the row and the request of the last call.  \<open>calls\<close> are the requests made, each with the row and
  the gap its handler keeps; \<open>answers\<close> holds the answers that have arrived.  \<open>gaps\<close> are the numbers
  shown in the rows of gaps.
\<close>

record ip_page =
  rows :: "ip_row list"
  gaps :: "string \<rightharpoonup> int"
  newtr :: "string option"
  calls :: "(string \<times> string) list"
  answers :: "nat \<rightharpoonup> span list \<times> dns_text list"

definition ip_key :: "nat \<Rightarrow> string" where
  "ip_key n = ''newiptr_'' @ nat_str n"

definition ip_taken :: "ip_row list \<Rightarrow> nat \<Rightarrow> bool" where
  "ip_taken rs n \<longleftrightarrow> ip_key n \<in> rid ` set rs"

definition new_ip_row :: "nat \<Rightarrow> ip_row" where
  "new_ip_row n = \<lparr>rid = ip_key n, rshown = False, descs = [], dnss = []\<rparr>"

definition insert_row :: "string \<Rightarrow> ip_row \<Rightarrow> ip_row list \<Rightarrow> ip_row list" where
  "insert_row ptr r rs = takeWhile (\<lambda>x. rid x \<noteq> ptr) rs @ r # dropWhile (\<lambda>x. rid x \<noteq> ptr) rs"

text \<open>
  A click on ADD: a hidden row before the row of the gap, and a request for its contents.  A row that is
  not there raises a \<open>TypeError\<close>; the search for a number may in principle not end.
\<close>

definition AddIpSpace :: "string \<Rightarrow> string \<Rightarrow> ip_page \<Rightarrow> ip_page js option" where
  "AddIpSpace parent_tr_id gapid p =
     map_option
       (\<lambda>uniq.
          if parent_tr_id \<notin> rid ` set (rows p) then Inl TypeError
          else Inr (p\<lparr>rows := insert_row parent_tr_id (new_ip_row uniq) (rows p), newtr := Some (ip_key uniq),
                     calls := calls p @ [(parent_tr_id, gapid)]\<rparr>))
       (first_free (ip_taken (rows p)) 0)"

definition ip_url :: "nat \<Rightarrow> string" where
  "ip_url uniq = ''../device/device-ajax.pl?what=IpRow;uniqid='' @ nat_str uniq"

text \<open>The texts without contents become a hint.\<close>

definition setup_dns :: "dns_text \<Rightarrow> dns_text" where
  "setup_dns x =
     (if trim (says x) = [] \<and> inputs x = [] then x\<lparr>says := ''Setup DNS'', hint := True\<rparr> else x)"

definition configure_setupdns :: "ip_row list \<Rightarrow> ip_row list" where
  "configure_setupdns = map (\<lambda>r. r\<lparr>dnss := map setup_dns (dnss r)\<rparr>)"

definition init_rows :: "ip_row list \<Rightarrow> ip_row list" where
  "init_rows = map (\<lambda>r. r\<lparr>descs := jazzhands_common_init (descs r)\<rparr>)"

text \<open>
  The answer of request \<open>k\<close>: its handler looks at the state of the request that \<open>ajaxrequest\<close> names
  now, and goes on only when that one is complete; it fills the row that \<open>newtr\<close> names now.
\<close>

definition fill_row :: "string \<Rightarrow> span list \<times> dns_text list \<Rightarrow> ip_row list \<Rightarrow> ip_row list" where
  "fill_row i a = map (\<lambda>r. if rid r = i then r\<lparr>rshown := True, descs := fst a, dnss := snd a\<rparr> else r)"

definition hide_row :: "string \<Rightarrow> ip_row list \<Rightarrow> ip_row list" where
  "hide_row i = map (\<lambda>r. if rid r = i then r\<lparr>rshown := False\<rparr> else r)"

definition ip_answer :: "nat \<Rightarrow> span list \<times> dns_text list \<Rightarrow> ip_page \<Rightarrow> ip_page" where
  "ip_answer k a p =
     (let p1 = p\<lparr>answers := (answers p)(k \<mapsto> a)\<rparr> in
      case (answers p1 (length (calls p) - 1), newtr p) of
        (Some b, Some i) \<Rightarrow>
          let (ptr, gapid) = calls p ! k;
              rs = fill_row i b (rows p1);
              (rs', gs) =
                (case gaps p gapid of
                   None \<Rightarrow> (rs, gaps p)
                 | Some x \<Rightarrow> if x - 1 > 0 then (rs, (gaps p)(gapid \<mapsto> x - 1)) else (hide_row ptr rs, gaps p))
          in p1\<lparr>rows := configure_setupdns (init_rows rs'), gaps := gs\<rparr>
      | _ \<Rightarrow> p1)"

datatype ip_event = Add string string | Arrive nat "span list \<times> dns_text list"

definition ip_step :: "ip_page \<Rightarrow> ip_event \<Rightarrow> ip_page" where
  "ip_step p ev =
     (case ev of
        Add ptr g \<Rightarrow> (case AddIpSpace ptr g p of Some (Inr p') \<Rightarrow> p' | _ \<Rightarrow> p)
      | Arrive k a \<Rightarrow> if k < length (calls p) \<and> answers p k = None then ip_answer k a p else p)"

section \<open>Setting up DNS\<close>

text \<open>A click on a hint empties the text and asks for the domains; the answer brings the fields.\<close>

definition editdns_click :: "dns_text \<Rightarrow> dns_text \<times> string list" where
  "editdns_click x =
     (if hint x
      then (x\<lparr>hint := False, says := [], inputs := [], domains := []\<rparr>,
        [''../dns/dns-ajax.pl?MIME_TYPE=json;what=domains;type=service''])
      else (x, []))"

definition editdns_answer :: "string \<Rightarrow> (string \<times> string) list \<Rightarrow> dns_text \<Rightarrow> dns_text" where
  "editdns_answer trid options' x =
     x\<lparr>inputs := inputs x @ [''DNS_RECORD_ID_'' @ trid], domains := domains x @ [options']\<rparr>"

section \<open>The tree of netblocks\<close>

text \<open>The arrow of a list: its items appear or go, and the arrow turns.\<close>

definition netblkexpand_click :: "nat \<Rightarrow> dom \<Rightarrow> dom js" where
  "netblkexpand_click r d =
     (let img = find_in d r (\<lambda>e. tag e = ''img'') in
      case img of
        [] \<Rightarrow> Inl TypeError
      | i # _ \<Rightarrow>
          (case attrs i ''src'' of
             None \<Rightarrow> Inl TypeError
           | Some src \<Rightarrow>
               let d1 = (case Option.bind (getr d r) (closest d (\<lambda>e. tag e = ''ul'')) of
                           None \<Rightarrow> d
                         | Some u \<Rightarrow> upd_refs (children d (ref u) (\<lambda>e. tag e = ''li'')) (toggle_class ''irrelevant'') d)
               in swaparrows_jq img (if contains ''collapse'' src then Up else Down) d1))"

definition hierarchy :: "dom \<Rightarrow> nat \<Rightarrow> elem \<Rightarrow> bool" where
  "hierarchy d f e \<longleftrightarrow>
     (tag e = ''li'' \<or> tag e = ''ul'')
     \<and> (case path e of [] \<Rightarrow> False
        | q # _ \<Rightarrow> (case getr d q of None \<Rightarrow> False
                    | Some u \<Rightarrow> tag u = ''ul'' \<and> has ''nbhier'' u \<and> inside f u))"

definition expand_all :: "bool \<Rightarrow> nat \<Rightarrow> dom \<Rightarrow> dom js" where
  "expand_all open' r d =
     (case Option.bind (getr d r) (closest d (\<lambda>e. tag e = ''form'')) of
        None \<Rightarrow> Inr d
      | Some f \<Rightarrow>
          js_foldl (\<lambda>d i. swaparrows_jq [i] (if open' then Down else Up) d)
            (upd_where (hierarchy d (ref f)) (if open' then rm_class ''irrelevant'' else add_class ''irrelevant'') d)
            (find_in d (ref f) (\<lambda>e. tag e = ''img'' \<and> has ''netblkexpand'' e)))"

section \<open>Adding and removing a netblock\<close>

text \<open>What a script posts: the address and the fields of the form it makes.\<close>

type_synonym post = "string \<times> (string \<times> string) list"

definition rmnetblock_click :: "string option \<Rightarrow> string option \<Rightarrow> (string \<Rightarrow> bool) \<Rightarrow> string list \<times> post option" where
  "rmnetblock_click nblkid block confirmed =
     (case nblkid of
        None \<Rightarrow> ([''Error: No netblock ID found''], None)
      | Some i \<Rightarrow>
          if i = [] then ([''Error: No netblock ID found''], None)
          else
            let b = (case block of None \<Rightarrow> i | Some b \<Rightarrow> if b = [] then i else b);
                message = ''Are you sure you want to delete the netblock '' @ b @ ''?''
            in ([], if confirmed message then Some (''write/rmnetblock.pl'', [(''id'', i), (''areyousure'', ''y'')]) else None))"

text \<open>The dialog: whether it is open, its message and its three fields.\<close>

record dialog =
  opened :: bool
  error_text :: string
  ip :: string
  bits :: string
  description :: string

definition openAddNetblockModal :: "dialog \<Rightarrow> dialog" where
  "openAddNetblockModal g = g\<lparr>opened := True, error_text := [], ip := [], bits := [], description := []\<rparr>"

definition closeAddNetblockModal :: "dialog \<Rightarrow> dialog" where
  "closeAddNetblockModal g = g\<lparr>opened := False\<rparr>"

definition window_click :: "bool \<Rightarrow> dialog \<Rightarrow> dialog" where
  "window_click on_backdrop g = (if on_backdrop then closeAddNetblockModal g else g)"

text \<open>\<open>ip.match(/\/(\d+)$/)\<close>.\<close>

definition embedded_bits :: "string \<Rightarrow> string option" where
  "embedded_bits s =
     (let r = rev s; ds = takeWhile is_digit r; rest = dropWhile is_digit r in
      if ds \<noteq> [] \<and> rest \<noteq> [] \<and> hd rest = CHR ''/'' then Some (rev ds) else None)"

definition bits_missing :: string where
  "bits_missing = ''Bits value is required (either in IP field as /N or in Bits field)''"

definition submitAddNetblock :: "dialog \<Rightarrow> dialog \<times> post option" where
  "submitAddNetblock g =
     (let a = trim (ip g); b = trim (bits g); t = trim (description g); g1 = g\<lparr>error_text := []\<rparr>;
          send = (\<lambda>b. (g1, Some (''write/doadd.pl'', [(''ip'', a), (''bits'', b), (''description'', t)])))
      in if a = [] then (g1\<lparr>error_text := ''IP address is required''\<rparr>, None)
      else
        (case embedded_bits a of
           Some e \<Rightarrow> if b \<noteq> [] \<and> b \<noteq> e then (g1\<lparr>error_text := ''Bits do not match''\<rparr>, None) else send e
         | None \<Rightarrow> if b = [] then (g1\<lparr>error_text := bits_missing\<rparr>, None) else send b))"


section \<open>Rows that are added\<close>

lemma set_insert_row [simp]: "set (insert_row ptr r rs) = insert r (set rs)"
proof -
  have "set rs = set (takeWhile (\<lambda>x. rid x \<noteq> ptr) rs) \<union> set (dropWhile (\<lambda>x. rid x \<noteq> ptr) rs)"
    by (metis set_append takeWhile_dropWhile_id)
  then show ?thesis by (auto simp: insert_row_def)
qed

lemma length_insert_row [simp]: "length (insert_row ptr r rs) = Suc (length rs)"
  unfolding insert_row_def by (metis append_Cons length_append length_Cons add_Suc_right takeWhile_dropWhile_id)

lemma ip_key_inject [simp]: "ip_key m = ip_key n \<longleftrightarrow> m = n"
  by (simp add: ip_key_def)

interpretation iprows: numbered_rows ip_taken "\<lambda>rs n. insert_row ptr (new_ip_row n) rs" "\<lambda>rs. ptr \<in> rid ` set rs"
  for ptr
proof
  show "finite {n. ip_taken rs n}" for rs
  proof -
    have "ip_key ` {n. ip_taken rs n} \<subseteq> rid ` set rs" by (auto simp: ip_taken_def)
    then have "finite (ip_key ` {n. ip_taken rs n})" using finite_subset by blast
    moreover have "inj_on ip_key {n. ip_taken rs n}" by (simp add: inj_on_def)
    ultimately show ?thesis using finite_imageD by blast
  qed
qed (auto simp: ip_taken_def new_ip_row_def)

lemma AddIpSpace_cases:
  "\<exists>n. \<not> ip_taken (rows p) n \<and> AddIpSpace ptr g p = Some
     (if ptr \<notin> rid ` set (rows p) then Inl TypeError
      else Inr (p\<lparr>rows := insert_row ptr (new_ip_row n) (rows p), newtr := Some (ip_key n), calls := calls p @ [(ptr, g)]\<rparr>))"
  using iprows.search_returns [of 0 "rows p"] by (auto simp: AddIpSpace_def)

text \<open>What the handlers do to the identifiers and the visibility of the rows.\<close>

definition view :: "ip_row \<Rightarrow> string \<times> bool" where
  "view r = (rid r, rshown r)"

lemma view_configure [simp]:
  "map view (configure_setupdns rs) = map view rs" "map view (init_rows rs) = map view rs"
  by (simp_all add: configure_setupdns_def init_rows_def view_def)

definition fill_view :: "string \<Rightarrow> string \<times> bool \<Rightarrow> string \<times> bool" where
  "fill_view i v = (fst v, fst v = i \<or> snd v)"

definition hide_view :: "string \<Rightarrow> string \<times> bool \<Rightarrow> string \<times> bool" where
  "hide_view i v = (fst v, fst v \<noteq> i \<and> snd v)"

lemma view_fill [simp]: "map view (fill_row i a rs) = map (fill_view i) (map view rs)"
  "map view (hide_row i rs) = map (hide_view i) (map view rs)"
  by (auto simp: fill_row_def hide_row_def view_def fill_view_def hide_view_def)

lemma ip_answer_view:
  assumes "newtr p = Some i"
  shows "map view (rows (ip_answer k a p)) =
     (if ((answers p)(k \<mapsto> a)) (length (calls p) - 1) = None then map view (rows p)
      else if gaps p (snd (calls p ! k)) \<noteq> None \<and> \<not> the (gaps p (snd (calls p ! k))) - 1 > 0
      then map (hide_view (fst (calls p ! k))) (map (fill_view i) (map view (rows p)))
      else map (fill_view i) (map view (rows p)))"
  using assms
  by (cases "calls p ! k"; cases "gaps p (snd (calls p ! k))")
    (auto simp: ip_answer_def Let_def simp del: map_map split: option.splits)

lemma ip_answer_other [simp]:
  "newtr (ip_answer k a p) = newtr p" "calls (ip_answer k a p) = calls p"
  "answers (ip_answer k a p) = (answers p)(k \<mapsto> a)"
  by (auto simp: ip_answer_def Let_def split: option.splits prod.splits)

text \<open>The rows that were added, and whether they are shown: the state the next lemmas follow.\<close>

definition added_shown :: "ip_page \<Rightarrow> bool" where
  "added_shown p \<longleftrightarrow> (\<forall>r \<in> set (rows p). (\<exists>n. rid r = ip_key n) \<longrightarrow> rshown r)
     \<and> (\<forall>k \<ge> length (calls p). answers p k = None)"

lemma added_shown_view:
  "added_shown p \<longleftrightarrow> (\<forall>v \<in> set (map view (rows p)). (\<exists>n. fst v = ip_key n) \<longrightarrow> snd v)
     \<and> (\<forall>k \<ge> length (calls p). answers p k = None)"
  by (auto simp: added_shown_def view_def)

text \<open>One round: a click and its answer.\<close>

definition ip_round :: "ip_page \<Rightarrow> string \<times> string \<times> span list \<times> dns_text list \<Rightarrow> ip_page" where
  "ip_round p c = (case c of (ptr, g, a) \<Rightarrow> ip_step (ip_step p (Add ptr g)) (Arrive (length (calls p)) a))"

lemma map_either:
  assumes "ws = map f vs \<or> ws = map h (map f vs)" "\<And>v. fst (f v) = fst v" "\<And>v. fst (h v) = fst v"
  shows "\<forall>v \<in> set ws. \<exists>w \<in> set vs. v = f w \<or> v = h (f w)" "map fst ws = map fst vs"
proof -
  show "\<forall>v \<in> set ws. \<exists>w \<in> set vs. v = f w \<or> v = h (f w)" using assms(1) by auto
  show "map fst ws = map fst vs"
    using assms(1) by (elim disjE) (simp_all only: map_map comp_def assms(2,3))
qed

lemma view_changes: "fst (fill_view i v) = fst v" "fst (hide_view i v) = fst v"
  by (simp_all add: fill_view_def hide_view_def)

lemma ip_round_shown:
  assumes "added_shown p" "ptr \<in> rid ` set (rows p)" "\<And>n. ptr \<noteq> ip_key n"
  shows "added_shown (ip_round p (ptr, g, a)) \<and> length (rows (ip_round p (ptr, g, a))) = Suc (length (rows p))
     \<and> rid ` set (rows p) \<subseteq> rid ` set (rows (ip_round p (ptr, g, a)))"
proof -
  obtain n where n: "\<not> ip_taken (rows p) n" "AddIpSpace ptr g p = Some
      (Inr (p\<lparr>rows := insert_row ptr (new_ip_row n) (rows p), newtr := Some (ip_key n), calls := calls p @ [(ptr, g)]\<rparr>))"
    using AddIpSpace_cases [of p ptr g] assms(2) by auto
  define q where "q = p\<lparr>rows := insert_row ptr (new_ip_row n) (rows p), newtr := Some (ip_key n), calls := calls p @ [(ptr, g)]\<rparr>"
  define k where "k = length (calls p)"
  have fresh: "answers p k = None" using assms(1) by (simp add: added_shown_def k_def)
  have r: "ip_round p (ptr, g, a) = ip_answer k a q"
    using n(2) fresh by (simp add: ip_round_def ip_step_def q_def k_def)
  have nt: "newtr q = Some (ip_key n)" "calls q ! k = (ptr, g)" "length (calls q) - Suc 0 = k"
    by (simp_all add: q_def k_def)
  have vs: "set (map view (rows q)) = insert (ip_key n, False) (set (map view (rows p)))"
    by (simp add: q_def view_def new_ip_row_def)
  have "map view (rows (ip_answer k a q)) = map (fill_view (ip_key n)) (map view (rows q))
      \<or> map view (rows (ip_answer k a q)) = map (hide_view ptr) (map (fill_view (ip_key n)) (map view (rows q)))"
    by (simp add: ip_answer_view [OF nt(1)] nt(2,3) del: map_map)
  note e = map_either [OF this view_changes]
  note sub = e(1) and ids = e(2)
  have len: "length (rows (ip_answer k a q)) = length (rows q)" using ids map_eq_imp_length_eq by force
  have "snd v" if v: "v \<in> set (map view (rows (ip_answer k a q)))" "fst v = ip_key m" for v m
  proof -
    obtain w where w: "w \<in> set (map view (rows q))"
      "v = fill_view (ip_key n) w \<or> v = hide_view ptr (fill_view (ip_key n) w)"
      using sub v(1) by blast
    have "fst v = fst w" using w(2) by (auto simp: fill_view_def hide_view_def)
    then have "fst w = ip_key m" using v(2) by simp
    then have "w = (ip_key n, False) \<or> snd w"
      using w(1) vs assms(1) by (auto simp: added_shown_view)
    then have "snd (fill_view (ip_key n) w)" by (auto simp: fill_view_def)
    moreover have "fst v \<noteq> ptr" using v(2) assms(3) [of m] by simp
    ultimately show ?thesis using w(2) by (auto simp: hide_view_def)
  qed
  moreover have "\<forall>j \<ge> length (calls q). answers (ip_answer k a q) j = None"
    using assms(1) by (simp add: q_def k_def added_shown_def)
  ultimately have "added_shown (ip_answer k a q)" unfolding added_shown_view ip_answer_other(2) by blast
  moreover have "length (rows (ip_answer k a q)) = Suc (length (rows p))"
    using len by (simp add: q_def)
  moreover have "rid ` set (rows p) \<subseteq> rid ` set (rows (ip_answer k a q))"
  proof -
    have e: "map rid rs = map fst (map view rs)" for rs by (simp add: view_def comp_def)
    have "set (map rid (rows (ip_answer k a q))) = set (map rid (rows q))" using ids unfolding e by simp
    then show ?thesis by (auto simp: q_def)
  qed
  ultimately show ?thesis by (simp add: r)
qed

text \<open>
  C25: When every click for a new address is answered before the next one, each click brings a row, and
  every row that was ever added ends up shown.
\<close>

theorem answered_rows_shown:
  assumes "added_shown p" "\<forall>c \<in> set cs. fst c \<in> rid ` set (rows p) \<and> (\<forall>n. fst c \<noteq> ip_key n)"
  shows "added_shown (foldl ip_round p cs) \<and> length (rows (foldl ip_round p cs)) = length (rows p) + length cs"
  using assms
proof (induction cs arbitrary: p)
  case (Cons c cs)
  obtain ptr g a where c: "c = (ptr, g, a)" by (cases c) auto
  have r: "added_shown (ip_round p c)" "length (rows (ip_round p c)) = Suc (length (rows p))"
    "rid ` set (rows p) \<subseteq> rid ` set (rows (ip_round p c))"
    using ip_round_shown [OF Cons.prems(1), of ptr g a] Cons.prems(2) by (auto simp: c)
  have "\<forall>c' \<in> set cs. fst c' \<in> rid ` set (rows (ip_round p c)) \<and> (\<forall>n. fst c' \<noteq> ip_key n)"
    using Cons.prems(2) r(3) by (meson list.set_intros(2) subsetD)
  from Cons.IH [OF r(1) this] show ?case using r(2) by simp
qed simp

definition demo_ips :: ip_page where
  "demo_ips = \<lparr>rows = [\<lparr>rid = ''trgap_0'', rshown = True, descs = [], dnss = []\<rparr>], gaps = [''nbgap0'' \<mapsto> 5],
     newtr = None, calls = [], answers = Map.empty\<rparr>"

theorem answered_rows_shown_witness:
  "added_shown (foldl ip_round demo_ips [(''trgap_0'', ''nbgap0'', [], []), (''trgap_0'', ''nbgap0'', [], [])])
   \<and> length (rows (foldl ip_round demo_ips [(''trgap_0'', ''nbgap0'', [], []), (''trgap_0'', ''nbgap0'', [], [])])) = 3"
proof -
  have "added_shown demo_ips" by (simp add: added_shown_def demo_ips_def ip_key_def)
  moreover have "''trgap_0'' \<in> rid ` set (rows demo_ips)" by (simp add: demo_ips_def)
  moreover have "''trgap_0'' \<noteq> ip_key n" for n by (simp add: ip_key_def)
  ultimately show ?thesis
    using answered_rows_shown [of demo_ips "[(''trgap_0'', ''nbgap0'', [], []), (''trgap_0'', ''nbgap0'', [], [])]"]
    by (simp add: demo_ips_def)
qed

section \<open>A row that is lost\<close>

definition lost :: "nat \<Rightarrow> ip_page \<Rightarrow> bool" where
  "lost n p \<longleftrightarrow> ip_taken (rows p) n \<and> (\<forall>v \<in> set (map view (rows p)). fst v = ip_key n \<longrightarrow> \<not> snd v)
     \<and> newtr p \<noteq> None \<and> newtr p \<noteq> Some (ip_key n)"

lemma ip_taken_view: "ip_taken rs n \<longleftrightarrow> ip_key n \<in> fst ` set (map view rs)"
  by (force simp: ip_taken_def view_def)

lemma lost_step:
  assumes "lost n p"
  shows "lost n (ip_step p ev)"
proof (cases ev)
  case (Add ptr g)
  obtain m where m: "\<not> ip_taken (rows p) m" "AddIpSpace ptr g p = Some
     (if ptr \<notin> rid ` set (rows p) then Inl TypeError
      else Inr (p\<lparr>rows := insert_row ptr (new_ip_row m) (rows p), newtr := Some (ip_key m), calls := calls p @ [(ptr, g)]\<rparr>))"
    using AddIpSpace_cases [of p ptr g] by blast
  have "m \<noteq> n" using m(1) assms by (auto simp: lost_def)
  then show ?thesis
    using assms m(2) by (auto simp: ip_step_def Add lost_def view_def new_ip_row_def ip_taken_def)
next
  case (Arrive k a)
  obtain i where i: "newtr p = Some i" "i \<noteq> ip_key n" using assms by (auto simp: lost_def)
  let ?ws = "map view (rows (ip_answer k a p))" and ?vs = "map view (rows p)"
  have "?ws = ?vs \<or> (\<exists>h. (h = fill_view i \<or> h = hide_view (fst (calls p ! k)))
      \<and> (?ws = map (fill_view i) ?vs \<or> ?ws = map h (map (fill_view i) ?vs)))"
    unfolding ip_answer_view [OF i(1)] by auto
  then have "(\<forall>v \<in> set ?ws. \<exists>w \<in> set ?vs. fst v = fst w \<and> (fst w \<noteq> i \<and> snd v \<longrightarrow> snd w))
      \<and> map fst ?ws = map fst ?vs"
  proof
    assume "?ws = ?vs"
    then show ?thesis by auto
  next
    assume "\<exists>h. (h = fill_view i \<or> h = hide_view (fst (calls p ! k)))
      \<and> (?ws = map (fill_view i) ?vs \<or> ?ws = map h (map (fill_view i) ?vs))"
    then obtain h where h: "h = fill_view i \<or> h = hide_view (fst (calls p ! k))"
      "?ws = map (fill_view i) ?vs \<or> ?ws = map h (map (fill_view i) ?vs)" by blast
    have f: "fst (h v) = fst v" for v using h(1) view_changes by blast
    have sf: "snd (fill_view i w) \<Longrightarrow> fst w \<noteq> i \<Longrightarrow> snd w" for w by (simp add: fill_view_def)
    have sh: "snd (h (fill_view i w)) \<Longrightarrow> fst w \<noteq> i \<Longrightarrow> snd w" for w
      using h(1) by (auto simp: fill_view_def hide_view_def)
    note e = map_either [OF h(2) view_changes(1) f]
    have "\<exists>w \<in> set ?vs. fst x = fst w \<and> (fst w \<noteq> i \<and> snd x \<longrightarrow> snd w)" if x: "x \<in> set ?ws" for x
    proof -
      obtain w where w: "w \<in> set ?vs" "x = fill_view i w \<or> x = h (fill_view i w)" using e(1) x by blast
      have "fst x = fst w" using w(2) by (elim disjE) (simp_all only: f view_changes)
      moreover have "fst w \<noteq> i \<and> snd x \<longrightarrow> snd w" using w(2) sf sh by blast
      ultimately show ?thesis using w(1) by blast
    qed
    then show ?thesis using e(2) by blast
  qed
  then have v: "\<And>v. v \<in> set ?ws \<Longrightarrow> \<exists>w \<in> set ?vs. fst v = fst w \<and> (fst w \<noteq> i \<and> snd v \<longrightarrow> snd w)"
    and ids: "fst ` set ?ws = fst ` set ?vs"
    by (blast, metis list.set_map)
  have "ip_taken (rows (ip_answer k a p)) n"
    using assms unfolding lost_def ip_taken_view ids by simp
  moreover have "\<not> snd x" if x: "x \<in> set ?ws" "fst x = ip_key n" for x
  proof
    assume "snd x"
    obtain w where "w \<in> set ?vs" "fst x = fst w" "fst w \<noteq> i \<and> snd x \<longrightarrow> snd w" using v [OF x(1)] by blast
    then show False using assms x(2) i(2) \<open>snd x\<close> unfolding lost_def by metis
  qed
  ultimately show ?thesis using assms by (simp add: ip_step_def Arrive lost_def)
qed

interpretation lost_rows: handled ip_step "\<lambda>_. True" "lost n"
  by unfold_locales (rule lost_step)

text \<open>
  A click that comes before the answer to the previous one loses that one's row: the row stays
  hidden, whatever arrives and whatever is clicked afterwards.
\<close>

theorem early_click_loses_row:
  assumes "AddIpSpace ptr g p = Some (Inr p1)" "AddIpSpace ptr' g' p1 = Some (Inr p2)"
  shows "\<exists>i. newtr p1 = Some i \<and> i \<in> rid ` set (rows p2)
     \<and> (\<forall>r \<in> set (rows (foldl ip_step p2 evs)). rid r = i \<longrightarrow> \<not> rshown r)"
proof -
  obtain n where n: "\<not> ip_taken (rows p) n"
    "p1 = p\<lparr>rows := insert_row ptr (new_ip_row n) (rows p), newtr := Some (ip_key n), calls := calls p @ [(ptr, g)]\<rparr>"
    using AddIpSpace_cases [of p ptr g] assms(1) by (auto split: if_splits)
  obtain m where m: "\<not> ip_taken (rows p1) m"
    "p2 = p1\<lparr>rows := insert_row ptr' (new_ip_row m) (rows p1), newtr := Some (ip_key m), calls := calls p1 @ [(ptr', g')]\<rparr>"
    using AddIpSpace_cases [of p1 ptr' g'] assms(2) by (auto split: if_splits)
  have "m \<noteq> n" using m(1) n(2) by (auto simp: ip_taken_def new_ip_row_def)
  then have "lost n p2"
    using n m(2) by (force simp: lost_def ip_taken_def view_def new_ip_row_def)
  then have "lost n (foldl ip_step p2 evs)" by (rule lost_rows.run_ok) simp
  then have "\<forall>r \<in> set (rows (foldl ip_step p2 evs)). rid r = ip_key n \<longrightarrow> \<not> rshown r"
    by (auto simp: lost_def view_def)
  moreover have "newtr p1 = Some (ip_key n)" "ip_key n \<in> rid ` set (rows p2)"
    using n(2) m(2) by (simp_all add: new_ip_row_def)
  ultimately show ?thesis by blast
qed

theorem early_click_loses_row_witness:
  "\<exists>p1 p2 i. AddIpSpace ''trgap_0'' ''nbgap0'' demo_ips = Some (Inr p1)
     \<and> AddIpSpace ''trgap_0'' ''nbgap0'' p1 = Some (Inr p2) \<and> newtr p1 = Some i \<and> i \<in> rid ` set (rows p2)"
proof -
  obtain p1 where p1: "AddIpSpace ''trgap_0'' ''nbgap0'' demo_ips = Some (Inr p1)" "''trgap_0'' \<in> rid ` set (rows p1)"
    using AddIpSpace_cases [of demo_ips "''trgap_0''" "''nbgap0''"] by (auto simp: demo_ips_def)
  obtain p2 where p2: "AddIpSpace ''trgap_0'' ''nbgap0'' p1 = Some (Inr p2)"
    using AddIpSpace_cases [of p1 "''trgap_0''" "''nbgap0''"] p1(2) by auto
  show ?thesis using early_click_loses_row [OF p1(1) p2, of "[]"] p1(1) p2 by blast
qed

section \<open>The netblock that is posted\<close>

lemma embedded_bits_append:
  assumes "ds \<noteq> []" "\<forall>c \<in> set ds. is_digit c"
  shows "embedded_bits (a @ CHR ''/'' # ds) = Some ds"
proof -
  have n: "\<not> is_digit (CHR ''/'')" by code_simp
  have "takeWhile is_digit (rev ds @ CHR ''/'' # rev a) = rev ds"
    "dropWhile is_digit (rev ds @ CHR ''/'' # rev a) = CHR ''/'' # rev a"
    using assms(2) n by (simp_all add: takeWhile_append dropWhile_append)
  then show ?thesis using assms(1) n by (simp add: embedded_bits_def Let_def)
qed

lemma embedded_bits_Some:
  assumes "embedded_bits s = Some ds"
  shows "ds \<noteq> [] \<and> (\<forall>c \<in> set ds. is_digit c) \<and> (\<exists>a. s = a @ CHR ''/'' # ds)"
proof -
  let ?r = "rev s"
  have d: "ds = rev (takeWhile is_digit ?r)" "takeWhile is_digit ?r \<noteq> []" "dropWhile is_digit ?r \<noteq> []"
    "hd (dropWhile is_digit ?r) = CHR ''/''"
    using assms by (auto simp: embedded_bits_def Let_def split: if_splits)
  have "?r = takeWhile is_digit ?r @ CHR ''/'' # tl (dropWhile is_digit ?r)"
    using d(3,4) by (metis list.collapse takeWhile_dropWhile_id)
  then have "s = rev (tl (dropWhile is_digit ?r)) @ CHR ''/'' # ds"
    using d(1) by (metis append.assoc append_Cons append_Nil rev.simps(2) rev_append rev_rev_ident)
  moreover have "\<forall>c \<in> set ds. is_digit c" using d(1) by (auto dest: set_takeWhileD)
  ultimately show ?thesis using d(1,2) by auto
qed


end
