(* ===== verification/Collections.thy ===== *)
theory Collections
  imports Prelude
begin

text \<open>
  \<open>netblock-collection.js\<close>: picking a collection, whose drop-down is filled by the server, and the rows
  for new members, which are restored from the address after a failed update.
\<close>

section \<open>The parameters of the address\<close>

text \<open>
  \<open>hCGIParams\<close>: a name without \<open>=\<close> has the value \<open>undefined\<close> (\<open>None\<close>).  Nothing is decoded.
\<close>

type_synonym params = "(string \<times> string option) list"

definition param_pair :: "string \<Rightarrow> string \<times> string option" where
  "param_pair v = (let kv = split_on (CHR ''='') v in (hd kv, case tl kv of [] \<Rightarrow> None | x # _ \<Rightarrow> Some x))"

definition read_params :: "string \<Rightarrow> params" where
  "read_params search =
     map param_pair (split_on (CHR '';'') (if prefix ''?'' search then tl search else search))"

definition lookup :: "params \<Rightarrow> string \<Rightarrow> string option option" where
  "lookup ps k = map_of (rev ps) k"

text \<open>A value put into text: \<open>undefined\<close> becomes that word.\<close>

definition as_text :: "string option \<Rightarrow> string" where
  "as_text v = (case v of None \<Rightarrow> ''undefined'' | Some s \<Rightarrow> s)"

definition restored :: "params \<Rightarrow> string \<Rightarrow> string" where
  "restored ps k = (case lookup ps k of None \<Rightarrow> [] | Some v \<Rightarrow> as_text v)"

section \<open>Drop-downs\<close>

text \<open>
  The drop-downs that were made, with their options (value, text, selected); \<open>present\<close> tells which of
  them is in the page under an identifier.  An answer of the server goes to the drop-down it was asked
  for, in the page or not.
\<close>

type_synonym option3 = "string \<times> string \<times> bool"

record dropdown =
  ident :: string
  opts :: "option3 list"
  my_collection_dropdown :: string

datatype ask = Collections nat string | CollectionTypes nat

record member_row =
  row_ident :: string
  row_fields :: "(string \<times> string) list"
  removed :: bool
  highlighted :: bool

record col_page =
  store :: "nat \<rightharpoonup> dropdown"
  present :: "string \<rightharpoonup> nat"
  next_ref :: nat
  asks :: "ask list"
  cgi :: params
  iNumNetblockInputs :: nat
  iNumChildCollectionInputs :: nat
  members :: "member_row list"

definition set_opts :: "nat \<Rightarrow> option3 list \<Rightarrow> col_page \<Rightarrow> col_page" where
  "set_opts r os p =
     (case store p r of None \<Rightarrow> p | Some d \<Rightarrow> p\<lparr>store := (store p)(r \<mapsto> d\<lparr>opts := os\<rparr>)\<rparr>)"

definition new_dropdown :: "dropdown \<Rightarrow> col_page \<Rightarrow> nat \<times> col_page" where
  "new_dropdown d p =
     (next_ref p, p\<lparr>store := (store p)(next_ref p \<mapsto> d), present := (present p)(ident d \<mapsto> next_ref p),
        next_ref := Suc (next_ref p)\<rparr>)"

definition populate_collections_select :: "nat \<Rightarrow> string \<Rightarrow> col_page \<Rightarrow> col_page" where
  "populate_collections_select r ty p = p\<lparr>asks := asks p @ [Collections r ty]\<rparr>"

text \<open>
  Another type was chosen: its drop-down of collections goes, or is made or emptied, and the server is
  asked for the collections.
\<close>

definition update_collection_select :: "string \<Rightarrow> string \<Rightarrow> col_page \<Rightarrow> col_page" where
  "update_collection_select ty dropid p =
     (if ty = ''__unknown__'' then p\<lparr>present := (present p)(dropid := None)\<rparr>
      else
        let (r, p1) =
          (case present p dropid of
             None \<Rightarrow> new_dropdown \<lparr>ident = dropid, opts = [], my_collection_dropdown = []\<rparr> p
           | Some r \<Rightarrow> (r, p))
        in populate_collections_select r ty (set_opts r [(''Loading...'', ''Loading...'', False)] p1))"

text \<open>The answer: no collections leave only the first option.\<close>

definition collection_options :: "params \<Rightarrow> string \<Rightarrow> (string \<times> string) list option \<Rightarrow> option3 list" where
  "collection_options ps i data =
     ('''', ''Please Select'', False) #
       (case data of None \<Rightarrow> []
        | Some cs \<Rightarrow> map (\<lambda>(v, h). (v, h, (case lookup ps i of None \<Rightarrow> v = [] | Some x \<Rightarrow> x = Some v))) cs)"

definition collections_answer :: "nat \<Rightarrow> (string \<times> string) list option \<Rightarrow> col_page \<Rightarrow> col_page" where
  "collections_answer r data p =
     (case store p r of None \<Rightarrow> p | Some d \<Rightarrow> set_opts r (collection_options (cgi p) (ident d) data) p)"

definition populate_collection_types_select :: "nat \<Rightarrow> col_page \<Rightarrow> col_page" where
  "populate_collection_types_select r p = p\<lparr>asks := asks p @ [CollectionTypes r]\<rparr>"

text \<open>The types: the one in the address is selected, and its collections are asked for.\<close>

definition types_answer :: "nat \<Rightarrow> (string \<times> string) list \<Rightarrow> col_page \<Rightarrow> col_page" where
  "types_answer r types p =
     (case store p r of
        None \<Rightarrow> p
      | Some d \<Rightarrow>
          let wanted = (\<lambda>v. case lookup (cgi p) (ident d) of None \<Rightarrow> v = [] | Some x \<Rightarrow> x = Some v);
              p1 = set_opts r ((''__unknown__'', ''Please Select a Collection Type'', False)
                     # map (\<lambda>(v, h). (v, h, wanted v)) types) p
          in (case filter wanted (map fst types) of
                [] \<Rightarrow> p1
              | vs \<Rightarrow> update_collection_select (last vs) (my_collection_dropdown d) p1))"

section \<open>Rows for members\<close>

definition toggleRemoveHighlight :: "bool \<Rightarrow> member_row \<Rightarrow> member_row" where
  "toggleRemoveHighlight checked r = r\<lparr>removed := checked, highlighted := checked\<rparr>"

text \<open>\<open>list.insertBefore(row, other)\<close>: at the end when the other is not there.\<close>

definition before_row :: "string \<Rightarrow> member_row \<Rightarrow> member_row list \<Rightarrow> member_row list" where
  "before_row i r rs = takeWhile (\<lambda>x. row_ident x \<noteq> i) rs @ r # dropWhile (\<lambda>x. row_ident x \<noteq> i) rs"

definition netblock_row :: "params \<Rightarrow> nat \<Rightarrow> member_row" where
  "netblock_row ps n =
     (let s = nat_str n in
      \<lparr>row_ident = ''netblock-input-row'' @ s,
       row_fields = [(''rm_add_NETBLOCK'' @ s, ''on''), (''add_NETBLOCK'' @ s, restored ps (''add_NETBLOCK'' @ s)),
         (''rank_add_NETBLOCK'' @ s, restored ps (''rank_add_NETBLOCK'' @ s))],
       removed = False, highlighted = False\<rparr>)"

definition insert_netblock_input_row :: "col_page \<Rightarrow> col_page" where
  "insert_netblock_input_row p =
     (let n = Suc (iNumNetblockInputs p) in
      p\<lparr>iNumNetblockInputs := n, members := before_row ''netblock-input-row1'' (netblock_row (cgi p) n) (members p)\<rparr>)"

definition child_row :: "nat \<Rightarrow> member_row" where
  "child_row n =
     (let s = nat_str n in
      \<lparr>row_ident = ''child-collection-input-row'' @ s,
       row_fields = [(''rm_add_CHILD_COLLECTION'' @ s, ''on''), (''add_CHILD_COLLECTION'' @ s, ''__unknown__'')],
       removed = False, highlighted = False\<rparr>)"

text \<open>\<open>button_row\<close> is the identifier of the row the button stands in.\<close>

definition insert_child_collection_input_row :: "string \<Rightarrow> col_page \<Rightarrow> col_page" where
  "insert_child_collection_input_row button_row p =
     (let n = Suc (iNumChildCollectionInputs p); s = nat_str n;
          p1 = p\<lparr>iNumChildCollectionInputs := n, members := before_row button_row (child_row n) (members p)\<rparr>;
          (r, p2) = new_dropdown \<lparr>ident = ''add_CHILD_COLLECTION'' @ s,
             opts = [(''__unknown__'', ''Please Select a Collection Type'', False)],
             my_collection_dropdown = ''pick_NETBLOCK_COLLECTION_ID'' @ s\<rparr> p1
      in populate_collection_types_select r p2)"

text \<open>How many names of the address are \<open>PART\<close> followed by digits.\<close>

definition numbered_param :: "string \<Rightarrow> string \<Rightarrow> bool" where
  "numbered_param part k \<longleftrightarrow>
     prefix part k \<and> drop (length part) k \<noteq> [] \<and> list_all is_digit (drop (length part) k)"

definition count_params :: "string \<Rightarrow> params \<Rightarrow> nat" where
  "count_params part ps = length (filter (numbered_param part) (remdups (map fst ps)))"

definition restore_first :: "col_page \<Rightarrow> col_page" where
  "restore_first p =
     (case lookup (cgi p) ''add_NETBLOCK1'' of
        None \<Rightarrow> p
      | Some v \<Rightarrow>
          p\<lparr>members := map (\<lambda>r. r\<lparr>row_fields := map (\<lambda>f. if fst f = ''add_NETBLOCK1'' then (fst f, as_text v) else f)
            (row_fields r)\<rparr>) (members p)\<rparr>)"

definition collection_ready :: "bool \<Rightarrow> string option \<Rightarrow> col_page \<Rightarrow> col_page" where
  "collection_ready has_netblock_button child_button p =
     (let p1 = (if has_netblock_button
                then (insert_netblock_input_row ^^ (count_params ''add_NETBLOCK'' (cgi p) - 1)) (restore_first p)
                else p)
      in case child_button of
           None \<Rightarrow> p1
         | Some b \<Rightarrow> (insert_child_collection_input_row b ^^ count_params ''add_CHILD_COLLECTION'' (cgi p)) p1)"

section \<open>Picking a collection\<close>

text \<open>
  The page for picking: the type chosen, the box of details, the drop-down (\<open>None\<close> when there is none),
  its container, and the types the server was asked for.
\<close>

record pick_page =
  coltype :: string
  box_hidden :: bool
  colbox :: "(string \<times> string) list option"
  container_shown :: bool
  asked :: "string list"

definition build_collection_drop :: "(string \<times> string) list option \<Rightarrow> pick_page \<Rightarrow> pick_page" where
  "build_collection_drop resp p =
     (case resp of
        None \<Rightarrow> p\<lparr>colbox := None, container_shown := False\<rparr>
      | Some cs \<Rightarrow>
          p\<lparr>colbox := (if cs = [] then None else Some (('''', ''Please Select'') # cs)), container_shown := True\<rparr>)"

definition change_collection_select :: "pick_page \<Rightarrow> pick_page" where
  "change_collection_select p =
     (if coltype p \<noteq> ''__unknown__'' then p\<lparr>asked := asked p @ [coltype p], box_hidden := False\<rparr>
      else p\<lparr>box_hidden := True, colbox := None\<rparr>)"

definition pick_ready :: "pick_page \<Rightarrow> pick_page" where
  "pick_ready p = p\<lparr>coltype := ''__unknown__'', colbox := None\<rparr>"

datatype pick_event = Choose string | Answer nat

text \<open>\<open>server\<close> gives the collections of a type.\<close>

definition pick_step :: "(string \<Rightarrow> (string \<times> string) list option) \<Rightarrow> pick_page \<Rightarrow> pick_event \<Rightarrow> pick_page" where
  "pick_step server p ev =
     (case ev of
        Choose ty \<Rightarrow> change_collection_select (p\<lparr>coltype := ty\<rparr>)
      | Answer k \<Rightarrow> if k < length (asked p) then build_collection_drop (server (asked p ! k)) p else p)"


section \<open>The drop-down follows the last answer\<close>

text \<open>
  When two types are chosen one after the other, answers in the order of the choices leave the
  collections of the second; answers in the other order leave those of the first, although the second is
  the one chosen.
\<close>

theorem collections_follow_last_answer:
  assumes "asked p = []" "a \<noteq> ''__unknown__''" "b \<noteq> ''__unknown__''" "server a = Some (x # xs)" "server b = Some (y # ys)"
  shows "let q = foldl (pick_step server) p [Choose a, Choose b, Answer 0, Answer 1];
          q' = foldl (pick_step server) p [Choose a, Choose b, Answer 1, Answer 0]
     in coltype q = b \<and> colbox q = Some (('''', ''Please Select'') # y # ys)
      \<and> coltype q' = b \<and> colbox q' = Some (('''', ''Please Select'') # x # xs)"
  using assms by (simp add: pick_step_def change_collection_select_def build_collection_drop_def)

section \<open>A failed update keeps what was entered\<close>

lemma set_before_row [simp]: "set (before_row i r rs) = insert r (set rs)"
proof -
  have "set rs = set (takeWhile (\<lambda>x. row_ident x \<noteq> i) rs) \<union> set (dropWhile (\<lambda>x. row_ident x \<noteq> i) rs)"
    by (metis set_append takeWhile_dropWhile_id)
  then show ?thesis by (auto simp: before_row_def)
qed

lemma insert_rows:
  "cgi ((insert_netblock_input_row ^^ k) p) = cgi p
   \<and> iNumNetblockInputs ((insert_netblock_input_row ^^ k) p) = iNumNetblockInputs p + k
   \<and> set (members ((insert_netblock_input_row ^^ k) p))
      = set (members p) \<union> netblock_row (cgi p) ` {iNumNetblockInputs p <.. iNumNetblockInputs p + k}"
proof (induction k)
  case (Suc k)
  have "{iNumNetblockInputs p <.. Suc (iNumNetblockInputs p + k)}
      = insert (Suc (iNumNetblockInputs p + k)) {iNumNetblockInputs p <.. iNumNetblockInputs p + k}" by auto
  then show ?case using Suc by (simp add: insert_netblock_input_row_def Let_def)
qed simp

lemma count_params_card:
  assumes "{k \<in> fst ` set ps. numbered_param part k} = (\<lambda>i. part @ nat_str i) ` {1..n}"
  shows "count_params part ps = n"
proof -
  have "count_params part ps = card (set (filter (numbered_param part) (remdups (map fst ps))))"
    unfolding count_params_def by (simp only: distinct_card distinct_filter distinct_remdups)
  also have "set (filter (numbered_param part) (remdups (map fst ps))) = (\<lambda>i. part @ nat_str i) ` {1..n}"
    unfolding assms [symmetric] by auto
  also have "card \<dots> = n" by (subst card_image) (simp_all add: inj_on_def)
  finally show ?thesis .
qed


definition demo_collection :: col_page where
  "demo_collection = \<lparr>store = Map.empty, present = Map.empty, next_ref = 0, asks = [],
     cgi = read_params ''?add_NETBLOCK1=10;add_NETBLOCK2=11'', iNumNetblockInputs = 1, iNumChildCollectionInputs = 0,
     members = [\<lparr>row_ident = ''netblock-input-row1'', row_fields = [(''add_NETBLOCK1'', '''')], removed = False,
       highlighted = False\<rparr>]\<rparr>"


theorem collections_follow_last_answer_witness:
  "colbox (foldl (pick_step (\<lambda>ty. Some [(ty, ty)])) \<lparr>coltype = ''__unknown__'', box_hidden = True, colbox = None,
       container_shown = False, asked = []\<rparr> [Choose ''a'', Choose ''b'', Answer 1, Answer 0])
     = Some [('''', ''Please Select''), (''a'', ''a'')]"
  using collections_follow_last_answer [of "\<lparr>coltype = ''__unknown__'', box_hidden = True, colbox = None,
       container_shown = False, asked = []\<rparr>" "''a''" "''b''" "\<lambda>ty. Some [(ty, ty)]" "(''a'', ''a'')" "[]" "(''b'', ''b'')" "[]"]
  by (simp add: Let_def)

end
