(* ===== verification/AccountCollections.thy ===== *)
theory AccountCollections
  imports Prelude
begin

text \<open>
  \<open>account-collection.js\<close>: the pop-up with the members of a collection, the drop-down of the collections
  of a type, and the list of the accounts of a collection, to which accounts are added and from which
  they are removed.
\<close>

section \<open>The members of a collection\<close>

text \<open>
  A pop-up: its identifier, whether it is hidden, its contents (the list of names, absent when there are
  none, before the link that closes it), the spinner, and the requests made for it.
\<close>

record expandview =
  view_id :: string
  irrelevant :: bool
  names :: "string list option"
  closer :: bool
  spinning :: bool
  expand_asked :: "string list"

definition build_expandlist_box :: "string list \<Rightarrow> expandview \<Rightarrow> expandview" where
  "build_expandlist_box accounts v = v\<lparr>names := (if accounts = [] then None else Some accounts), closer := True\<rparr>"

definition expand_collection :: "expandview \<Rightarrow> expandview" where
  "expand_collection v =
     (if irrelevant v
      then v\<lparr>spinning := True, expand_asked := expand_asked v @ [''acctcol-ajax.pl?what=ExpandMembers;id='' @ view_id v]\<rparr>
      else v\<lparr>irrelevant := True\<rparr>)"

definition expand_answer :: "string list \<Rightarrow> expandview \<Rightarrow> expandview" where
  "expand_answer accounts v = (build_expandlist_box accounts v)\<lparr>irrelevant := False, spinning := False\<rparr>"

section \<open>The collections of a type\<close>

text \<open>\<open>coltype\<close> is \<open>None\<close> when the page has no drop-down of types.\<close>

record ac_page =
  coltype :: "string option"
  box_hidden :: bool
  colbox :: "(string \<times> string) list option"
  busy :: bool
  asked :: "string list"

definition build_collection_drop_from_type :: "(string \<times> string) list \<Rightarrow> ac_page \<Rightarrow> ac_page" where
  "build_collection_drop_from_type resp p =
     (let os = filter (\<lambda>o'. fst o' \<noteq> []) resp in p\<lparr>colbox := (if os = [] then None else Some os)\<rparr>)"

definition change_collection_select_ac :: "ac_page \<Rightarrow> ac_page" where
  "change_collection_select_ac p =
     (if coltype p \<noteq> Some ''__unknown__''
      then p\<lparr>busy := True, colbox := None, box_hidden := True,
             asked := asked p @ [case coltype p of None \<Rightarrow> ''undefined'' | Some t \<Rightarrow> t]\<rparr>
      else p\<lparr>box_hidden := True, colbox := None\<rparr>)"

definition collections_answer_ac :: "(string \<times> string) list \<Rightarrow> ac_page \<Rightarrow> ac_page" where
  "collections_answer_ac resp p = (build_collection_drop_from_type resp p)\<lparr>box_hidden := False, busy := False\<rparr>"

definition ac_ready :: "ac_page \<Rightarrow> ac_page" where
  "ac_ready p =
     (case coltype p of
        None \<Rightarrow> change_collection_select_ac (p\<lparr>colbox := None\<rparr>)
      | Some _ \<Rightarrow> p\<lparr>coltype := Some ''__unknown__'', colbox := None\<rparr>)"

section \<open>The accounts\<close>

text \<open>
  A row of the list: a new one has the number in its names; an account that is there already has none.
  \<open>marked\<close> is the class \<open>rmrow\<close> of the row, \<open>deleted\<close> its checkbox.
\<close>

record account_row =
  number :: "nat option"
  marked :: bool
  deleted :: bool
  account_id :: string
  login :: string
  completed :: bool

definition row_names :: "nat \<Rightarrow> string list" where
  "row_names n =
     [''Del_ACCOUNT_ID_new_'' @ nat_str n, ''ACCOUNT_ID_new_'' @ nat_str n, ''LOGIN_new'' @ nat_str n]"

definition row_taken :: "account_row list \<Rightarrow> nat \<Rightarrow> bool" where
  "row_taken rs n \<longleftrightarrow> (\<exists>r \<in> set rs. number r = Some n)"

definition account_row_new :: "nat \<Rightarrow> account_row" where
  "account_row_new n =
     \<lparr>number = Some n, marked = False, deleted = False, account_id = [], login = [], completed = False\<rparr>"

text \<open>The autocompletion is attached to every field; the rows of the page that have none stay as they are.\<close>

definition configure_account_collection_autocomplete :: "account_row list \<Rightarrow> account_row list" where
  "configure_account_collection_autocomplete = map (\<lambda>r. if number r \<noteq> None then r\<lparr>completed := True\<rparr> else r)"

definition add_account :: "account_row list \<Rightarrow> account_row list option" where
  "add_account rs =
     map_option (\<lambda>n. configure_account_collection_autocomplete (rs @ [account_row_new n])) (first_free (row_taken rs) 0)"

definition rmrow :: "nat \<Rightarrow> account_row list \<Rightarrow> account_row list" where
  "rmrow i rs =
     (if i < length rs
      then (if number (rs ! i) \<noteq> None then take i rs @ drop (Suc i) rs
            else rs[i := (rs ! i)\<lparr>marked := \<not> marked (rs ! i), deleted := \<not> deleted (rs ! i)\<rparr>])
      else rs)"

definition account_search :: "nat \<Rightarrow> account_row list \<Rightarrow> account_row list" where
  "account_search i rs =
     (if i < length rs \<and> completed (rs ! i) then rs[i := (rs ! i)\<lparr>account_id := []\<rparr>] else rs)"

definition account_select :: "nat \<Rightarrow> string \<Rightarrow> string \<Rightarrow> account_row list \<Rightarrow> account_row list" where
  "account_select i value' data rs =
     (if i < length rs \<and> completed (rs ! i) then rs[i := (rs ! i)\<lparr>account_id := data, login := value'\<rparr>] else rs)"

datatype account_event = AddAccount | RmRow nat | Search nat | Select nat string string

definition account_step :: "account_row list \<Rightarrow> account_event \<Rightarrow> account_row list option" where
  "account_step rs ev =
     (case ev of
        AddAccount \<Rightarrow> add_account rs
      | RmRow i \<Rightarrow> Some (rmrow i rs)
      | Search i \<Rightarrow> Some (account_search i rs)
      | Select i v d \<Rightarrow> Some (account_select i v d rs))"

fun account_run :: "account_event list \<Rightarrow> account_row list \<Rightarrow> account_row list option" where
  "account_run [] rs = Some rs"
| "account_run (ev # evs) rs = Option.bind (account_step rs ev) (account_run evs)"


section \<open>The list stays well formed\<close>

text \<open>
  No two new rows share a number, only rows that are not new are marked, and the mark is the checkbox.
\<close>

definition rows_ok :: "account_row list \<Rightarrow> bool" where
  "rows_ok rs \<longleftrightarrow> distinct (List.map_filter number rs)
     \<and> (\<forall>r \<in> set rs. marked r = deleted r \<and> (marked r \<longrightarrow> number r = None))"

definition distinct_names :: "account_row list \<Rightarrow> bool" where
  "distinct_names rs \<longleftrightarrow> distinct (concat (map row_names (List.map_filter number rs)))"

lemma map_filter_set: "set (List.map_filter f xs) = {y. \<exists>x \<in> set xs. f x = Some y}"
  by (auto simp: List.map_filter_def image_iff) force

lemma map_filter_number:
  "(\<And>r. number (f r) = number r) \<Longrightarrow> List.map_filter number (map f rs) = List.map_filter number rs"
  by (induction rs) (simp_all add: List.map_filter_simps split: option.split)

lemma map_filter_append: "List.map_filter f (xs @ ys) = List.map_filter f xs @ List.map_filter f ys"
  by (simp add: List.map_filter_def)

lemma map_filter_update:
  "i < length rs \<Longrightarrow> number r = number (rs ! i) \<Longrightarrow> List.map_filter number (rs[i := r]) = List.map_filter number rs"
  by (induction rs arbitrary: i) (auto simp: List.map_filter_simps nth_Cons split: option.split nat.split)

interpretation accounts: numbered_rows row_taken
  "\<lambda>rs n. configure_account_collection_autocomplete (rs @ [account_row_new n])" "\<lambda>_. True"
proof
  show "finite {n. row_taken rs n}" for rs
  proof -
    have "{n. row_taken rs n} = set (List.map_filter number rs)" by (auto simp: row_taken_def map_filter_set)
    then show ?thesis by simp
  qed
  show "row_taken (configure_account_collection_autocomplete (rs @ [account_row_new n])) k \<longleftrightarrow> k = n \<or> row_taken rs k"
    for rs n k
  proof -
    have "row_taken (map f xs) k = row_taken xs k" if "\<And>r. number (f r) = number r" for f xs
      using that by (auto simp: row_taken_def)
    from this [of "\<lambda>r. if number r \<noteq> None then r\<lparr>completed := True\<rparr> else r"] show ?thesis
      unfolding configure_account_collection_autocomplete_def by (auto simp: row_taken_def account_row_new_def)
  qed
qed simp

lemma add_account_ok:
  assumes "rows_ok rs"
  shows "\<exists>rs'. add_account rs = Some rs' \<and> rows_ok rs'"
proof -
  obtain n where n: "first_free (row_taken rs) 0 = Some n" "\<not> row_taken rs n"
    using accounts.search_returns [of 0 rs] by blast
  let ?rs = "configure_account_collection_autocomplete (rs @ [account_row_new n])"
  have "List.map_filter number ?rs = List.map_filter number rs @ [n]"
    unfolding configure_account_collection_autocomplete_def
    by (subst map_filter_number) (simp_all add: map_filter_append account_row_new_def List.map_filter_simps)
  moreover have "n \<notin> set (List.map_filter number rs)" using n(2) by (auto simp: map_filter_set row_taken_def)
  ultimately have "rows_ok ?rs" using assms
    by (auto simp: rows_ok_def configure_account_collection_autocomplete_def account_row_new_def)
  then show ?thesis using n(1) by (simp add: add_account_def)
qed

lemma rmrow_ok: "rows_ok rs \<Longrightarrow> rows_ok (rmrow i rs)"
proof (cases "i < length rs")
  case True
  assume ok: "rows_ok rs"
  have rs: "rs = take i rs @ rs ! i # drop (Suc i) rs" using True by (simp add: id_take_nth_drop)
  show ?thesis
  proof (cases "number (rs ! i)")
    case None
    let ?r = "(rs ! i)\<lparr>marked := \<not> marked (rs ! i), deleted := \<not> deleted (rs ! i)\<rparr>"
    have "List.map_filter number (rs[i := ?r]) = List.map_filter number rs"
      using True by (intro map_filter_update) simp_all
    moreover have "\<forall>r \<in> set (rs[i := ?r]). marked r = deleted r \<and> (marked r \<longrightarrow> number r = None)"
      using ok True None by (intro all_update) (auto simp: rows_ok_def)
    ultimately show ?thesis using ok True None by (simp add: rmrow_def rows_ok_def)
  next
    case (Some n)
    have "List.map_filter number rs = List.map_filter number (take i rs) @ n # List.map_filter number (drop (Suc i) rs)"
      using Some by (subst rs) (simp add: map_filter_append List.map_filter_simps)
    moreover have "set (take i rs @ drop (Suc i) rs) \<subseteq> set rs" using set_take_subset set_drop_subset by force
    ultimately show ?thesis using ok True Some
      by (auto simp: rmrow_def rows_ok_def map_filter_append)
  qed
qed (simp add: rmrow_def)

lemma account_edit_ok:
  "rows_ok rs \<Longrightarrow> rows_ok (account_search i rs)" "rows_ok rs \<Longrightarrow> rows_ok (account_select i v d rs)"
proof -
  assume ok: "rows_ok rs"
  have "rows_ok (rs[i := r])"
    if "i < length rs" "number r = number (rs ! i)" "marked r = marked (rs ! i)" "deleted r = deleted (rs ! i)" for r
  proof -
    have "rs ! i \<in> set rs" using that(1) by simp
    then have "\<forall>x \<in> set (rs[i := r]). marked x = deleted x \<and> (marked x \<longrightarrow> number x = None)"
      using ok that(2-4) by (intro all_update) (auto simp: rows_ok_def)
    then show ?thesis using ok map_filter_update [OF that(1,2)] by (simp add: rows_ok_def)
  qed
  then show "rows_ok (account_search i rs)" "rows_ok (account_select i v d rs)"
    using ok by (simp_all add: account_search_def account_select_def)
qed

lemma rows_ok_names: "rows_ok rs \<Longrightarrow> distinct_names rs"
proof -
  assume "rows_ok rs"
  then have d: "distinct (List.map_filter number rs)" by (simp add: rows_ok_def)
  have "distinct (concat (map row_names ns))" if "distinct ns" for ns
    using that
  proof (induction ns)
    case (Cons n ns)
    have "set (row_names n) \<inter> set (row_names m) = {}" if "m \<noteq> n" for m
      using that by (auto simp: row_names_def)
    moreover have "\<forall>m \<in> set ns. m \<noteq> n" using Cons.prems by auto
    ultimately have "\<forall>m \<in> set ns. set (row_names n) \<inter> set (row_names m) = {}" by blast
    then have "set (row_names n) \<inter> set (concat (map row_names ns)) = {}" by auto
    moreover have "distinct (row_names n)" by (simp add: row_names_def)
    ultimately show ?case using Cons by simp
  qed simp
  then show ?thesis using d by (simp add: distinct_names_def)
qed

text \<open>
  C19: Whatever accounts are added, marked, removed and completed, every step returns, the fields of no
  two new accounts share a name, and an account is marked for removal exactly when its checkbox is ticked.
\<close>

theorem account_list_well_formed:
  assumes "rows_ok rs"
  shows "\<exists>rs'. account_run evs rs = Some rs' \<and> distinct_names rs'
     \<and> (\<forall>r \<in> set rs'. marked r = deleted r \<and> (marked r \<longrightarrow> number r = None))"
proof -
  have "\<exists>rs'. account_run evs rs = Some rs' \<and> rows_ok rs'"
    using assms
  proof (induction evs arbitrary: rs)
    case (Cons ev evs)
    have "\<exists>rs1. account_step rs ev = Some rs1 \<and> rows_ok rs1"
      using add_account_ok [OF Cons.prems] rmrow_ok [OF Cons.prems] account_edit_ok [OF Cons.prems]
      by (cases ev) (simp_all add: account_step_def)
    then show ?case using Cons.IH by auto
  qed simp
  then show ?thesis using rows_ok_names by (auto simp: rows_ok_def)
qed

definition demo_accounts :: "account_row list" where
  "demo_accounts = [\<lparr>number = None, marked = False, deleted = False, account_id = ''7'', login = ''kov'', completed = False\<rparr>]"

theorem account_list_well_formed_witness:
  "\<exists>rs'. account_run [AddAccount, AddAccount, RmRow 0, RmRow 1, AddAccount] demo_accounts = Some rs' \<and> distinct_names rs'"
proof -
  have "rows_ok demo_accounts" by (simp add: rows_ok_def demo_accounts_def List.map_filter_simps)
  from account_list_well_formed [OF this] show ?thesis by blast
qed

end
