(* ===== verification/Ports.thy ===== *)
theory Ports
  imports Prelude
begin

text \<open>
  \<open>device-utils.js\<close>: the links and port drop-downs of the device page.  All requests for ports share the
  global variable \<open>request\<close>: when a request's state changes, its handler looks at the state and the text
  of the request that was made last.
\<close>

section \<open>The page\<close>

text \<open>
  A box that holds a drop-down of ports: its contents, whether it is displayed, and the spinners next to
  it.  A link's address is absent while it leads nowhere; \<open>patches\<close> are the elements of patch panels.
\<close>

record port_box =
  contents :: string
  displayed :: bool
  spinners :: nat

text \<open>
  The requests in the order they were made: of a physical port with its box, or of a power port.
  \<open>texts\<close> are the answers that have arrived; \<open>power_portboxname\<close> is the box of the last power request.
\<close>

datatype port_call = Physical string | Power

record port_page =
  boxes :: "string \<rightharpoonup> port_box"
  links :: "string \<rightharpoonup> string"
  entries :: "string \<rightharpoonup> string"
  patches :: "string set"
  made :: "port_call list"
  urls :: "string list"
  texts :: "nat \<rightharpoonup> string"
  power_portboxname :: "string option"

definition set_link :: "string \<Rightarrow> string \<Rightarrow> port_page \<Rightarrow> port_page" where
  "set_link l h p = (if links p l = None then p else p\<lparr>links := (links p)(l \<mapsto> h)\<rparr>)"

definition filled :: "port_page \<Rightarrow> string \<Rightarrow> bool" where
  "filled p f \<longleftrightarrow> (case entries p f of None \<Rightarrow> False | Some v \<Rightarrow> v \<noteq> [])"

definition value_text :: "port_page \<Rightarrow> string \<Rightarrow> string" where
  "value_text p f = (case entries p f of None \<Rightarrow> [] | Some v \<Rightarrow> v)"

definition clear_value :: "string \<Rightarrow> port_page \<Rightarrow> port_page" where
  "clear_value f p = p\<lparr>entries := (entries p)(f \<mapsto> [])\<rparr>"

section \<open>Links\<close>

definition no_link :: string where
  "no_link = ''javascript:void(null);''"

text \<open>An emptied name of the parent device empties its identifier; the link follows the identifier.\<close>

definition updateDeviceParentLink :: "string \<Rightarrow> string \<Rightarrow> port_page \<Rightarrow> port_page" where
  "updateDeviceParentLink devid paridfld p =
     (let name' = ''PARENT_DEVICE_NAME_'' @ devid;
          p1 = (if entries p name' \<noteq> None \<and> \<not> filled p name' then clear_value paridfld p else p)
      in set_link (''parent_link_'' @ devid)
           (if filled p1 paridfld then ''device.pl?devid='' @ value_text p1 paridfld else no_link) p1)"

definition setDevLinkRedir :: "string option \<Rightarrow> string \<Rightarrow> string option \<Rightarrow> port_page \<Rightarrow> port_page" where
  "setDevLinkRedir dropfield redirlink root p =
     (case dropfield of
        None \<Rightarrow> p
      | Some f \<Rightarrow>
          set_link redirlink
            (if filled p f
             then (case root of None \<Rightarrow> ''./'' | Some r \<Rightarrow> r) @ ''type/?DEVICE_TYPE_ID='' @ value_text p f
             else no_link) p)"

definition cleanup_patchpanel_links :: "string \<Rightarrow> port_page \<Rightarrow> port_page" where
  "cleanup_patchpanel_links pportid p =
     (if pportid = [] then p
      else p\<lparr>patches := patches p - {''pplink_a_'' @ pportid, ''PC_popup_'' @ pportid}\<rparr>)"

section \<open>Requests\<close>

text \<open>
  The device chosen for a port: an empty name clears its identifier.  Then the link is set, the box is
  hidden behind a spinner and its ports are requested.
\<close>

definition ports_url :: "string \<Rightarrow> string \<Rightarrow> string option \<Rightarrow> string \<Rightarrow> string" where
  "ports_url type side device physportid =
     ''device-ajax.pl?what=Ports'' @ (if type = [] then [] else '';type='' @ type)
       @ (if side = ''undefined'' then [] else '';side='' @ side)
       @ (case device of None \<Rightarrow> [] | Some d \<Rightarrow> '';DEVICE_ID='' @ d)
       @ '';PHYSICAL_PORT_ID='' @ physportid"

definition showPhysical_ports ::
  "string \<Rightarrow> string \<Rightarrow> string \<Rightarrow> string \<Rightarrow> string \<Rightarrow> string \<Rightarrow> port_page \<Rightarrow> port_page js" where
  "showPhysical_ports devidfld devnamfld physportid portboxname type side p =
     (let empty = \<not> filled p devnamfld;
          p1 = (if empty then clear_value devidfld p else p);
          device = (if empty then None else Some (value_text p1 devidfld));
          p2 = set_link (type @ ''_devlink_'' @ physportid)
                 (if \<not> empty \<and> filled p1 devidfld
                  then ''device.pl?devid='' @ value_text p1 devidfld @ '';__default_tab__=Switchport'' else ''#'') p1
      in case boxes p2 portboxname of
           None \<Rightarrow> Inl TypeError
         | Some b \<Rightarrow>
             Inr (cleanup_patchpanel_links physportid
               (p2\<lparr>boxes := (boxes p2)(portboxname \<mapsto> b\<lparr>displayed := False, spinners := Suc (spinners b)\<rparr>),
                  made := made p2 @ [Physical portboxname],
                  urls := urls p2 @ [ports_url type side device physportid]\<rparr>)))"

definition showPowerPorts :: "string \<Rightarrow> string \<Rightarrow> string \<Rightarrow> string \<Rightarrow> string \<Rightarrow> port_page \<Rightarrow> port_page js" where
  "showPowerPorts devdropid devnameid portboxid piport devlinkid p =
     (if links p devlinkid \<noteq> None \<and> entries p devdropid = None then Inl TypeError
      else
        let p1 = set_link devlinkid
              (if filled p devdropid then ''./device.pl?devid='' @ value_text p devdropid @ '';__default_tab__=Power''
               else no_link) p;
            empty = \<not> filled p1 devnameid
        in if empty \<and> entries p1 devdropid = None then Inl TypeError
        else
          let p2 = (if empty then clear_value devdropid p1 else p1) in
          Inr (p2\<lparr>power_portboxname := Some portboxid, made := made p2 @ [Power],
               urls := urls p2 @ [''device-ajax.pl?what=PowerPorts''
                 @ (if empty \<or> entries p2 devdropid = None then [] else '';DEVICE_ID='' @ value_text p2 devdropid)
                 @ '';POWER_INTERFACE_PORT='' @ piport]\<rparr>))"

text \<open>The handlers, run when the last request is complete and \<open>t\<close> is its text.\<close>

definition updatePort :: "string \<Rightarrow> string \<Rightarrow> port_page \<Rightarrow> port_page" where
  "updatePort portboxname t p =
     (case boxes p portboxname of
        None \<Rightarrow> p
      | Some b \<Rightarrow>
          p\<lparr>boxes := (boxes p)(portboxname \<mapsto> b\<lparr>contents := t, displayed := True, spinners := spinners b - 1\<rparr>)\<rparr>)"

definition updatePowerPort :: "string \<Rightarrow> port_page \<Rightarrow> port_page js" where
  "updatePowerPort t p =
     (case Option.bind (power_portboxname p) (boxes p) of
        None \<Rightarrow> Inl TypeError
      | Some b \<Rightarrow> Inr (p\<lparr>boxes := (boxes p)(the (power_portboxname p) \<mapsto> b\<lparr>contents := t\<rparr>), power_portboxname := None\<rparr>))"

definition port_answer :: "nat \<Rightarrow> string \<Rightarrow> port_page \<Rightarrow> port_page js" where
  "port_answer k t p =
     (let p1 = p\<lparr>texts := (texts p)(k \<mapsto> t)\<rparr> in
      case texts p1 (length (made p1) - 1) of
        None \<Rightarrow> Inr p1
      | Some t' \<Rightarrow>
          (case made p1 ! k of Physical b \<Rightarrow> Inr (updatePort b t' p1) | Power \<Rightarrow> updatePowerPort t' p1))"


section \<open>One request at a time\<close>

lemma set_link_simps [simp]:
  "boxes (set_link l h p) = boxes p" "made (set_link l h p) = made p" "texts (set_link l h p) = texts p"
  "entries (set_link l h p) = entries p" "urls (set_link l h p) = urls p"
  by (simp_all add: set_link_def)

lemma clear_value_simps [simp]:
  "boxes (clear_value f p) = boxes p" "made (clear_value f p) = made p" "texts (clear_value f p) = texts p"
  "links (clear_value f p) = links p"
  by (simp_all add: clear_value_def)

lemma cleanup_simps [simp]:
  "boxes (cleanup_patchpanel_links i p) = boxes p" "made (cleanup_patchpanel_links i p) = made p"
  "texts (cleanup_patchpanel_links i p) = texts p"
  by (simp_all add: cleanup_patchpanel_links_def)

lemma showPhysical_ports_spec:
  assumes "boxes p b = Some bx"
  shows "\<exists>q. showPhysical_ports i n pp b ty s p = Inr q
     \<and> boxes q = (boxes p)(b \<mapsto> bx\<lparr>displayed := False, spinners := Suc (spinners bx)\<rparr>)
     \<and> made q = made p @ [Physical b] \<and> texts q = texts p"
  using assms by (simp add: showPhysical_ports_def Let_def)

text \<open>
  A request for the ports of a box that is answered before the next one is made puts its own ports
  into the box, which is displayed again without a spinner more than before.
\<close>

theorem single_port_request:
  assumes "boxes p b = Some bx" "showPhysical_ports i n pp b ty s p = Inr q"
  shows "\<exists>r. port_answer (length (made p)) t q = Inr r \<and> boxes r = (boxes p)(b \<mapsto> bx\<lparr>contents := t, displayed := True\<rparr>)"
proof -
  have "boxes q = (boxes p)(b \<mapsto> bx\<lparr>displayed := False, spinners := Suc (spinners bx)\<rparr>)"
    "made q = made p @ [Physical b]"
    using showPhysical_ports_spec [OF assms(1)] assms(2) by (metis sum.inject(2))+
  then show ?thesis by (simp add: port_answer_def updatePort_def Let_def)
qed

text \<open>
  Two requests for different boxes that overlap never fill the first box with its ports.  If the
  first answer comes first, its box stays hidden behind the spinner; if it comes second, the box shows the
  ports of the other request.
\<close>

theorem overlapping_port_requests:
  assumes "boxes p b = Some bx" "boxes p c = Some cx" "b \<noteq> c" "\<forall>k \<ge> length (made p). texts p k = None"
    and "showPhysical_ports i n pp b ty s p = Inr q" "showPhysical_ports i' n' pp' c ty' s' q = Inr q'"
  shows "(\<exists>r r'. port_answer (length (made p)) t q' = Inr r \<and> port_answer (Suc (length (made p))) t' r = Inr r'
       \<and> map_option displayed (boxes r' b) = Some False \<and> map_option contents (boxes r' b) = Some (contents bx)
       \<and> boxes r' c = Some (cx\<lparr>contents := t', displayed := True\<rparr>))
   \<and> (\<exists>r r'. port_answer (Suc (length (made p))) t' q' = Inr r \<and> port_answer (length (made p)) t r = Inr r'
       \<and> boxes r' b = Some (bx\<lparr>contents := t', displayed := True\<rparr>)
       \<and> boxes r' c = Some (cx\<lparr>contents := t', displayed := True\<rparr>))"
proof -
  let ?bx = "bx\<lparr>displayed := False, spinners := Suc (spinners bx)\<rparr>"
  let ?cx = "cx\<lparr>displayed := False, spinners := Suc (spinners cx)\<rparr>"
  have q: "boxes q = (boxes p)(b \<mapsto> ?bx)" "made q = made p @ [Physical b]" "texts q = texts p"
    using showPhysical_ports_spec [OF assms(1)] assms(5) by (metis sum.inject(2))+
  have "boxes q c = Some cx" using q(1) assms(2,3) by simp
  then have q': "boxes q' = (boxes q)(c \<mapsto> ?cx)" "made q' = made q @ [Physical c]" "texts q' = texts q"
    using showPhysical_ports_spec assms(6) by (metis sum.inject(2))+
  define N where "N = length (made p)"
  have m: "made q' = made p @ [Physical b, Physical c]" "made q' ! N = Physical b" "made q' ! Suc N = Physical c"
    "length (made q') - 1 = Suc N"
    by (simp_all add: q' q N_def nth_append)
  have tx: "texts q' N = None" "texts q' (Suc N) = None" using assms(4) by (simp_all add: q' q N_def)
  have bs: "boxes q' b = Some ?bx" "boxes q' c = Some ?cx" using assms(3) by (simp_all add: q' q)
  have 1: "port_answer N t q' = Inr (q'\<lparr>texts := (texts q')(N \<mapsto> t)\<rparr>)"
    using m tx by (simp add: port_answer_def Let_def)
  have 2: "port_answer (Suc N) t' (q'\<lparr>texts := (texts q')(N \<mapsto> t)\<rparr>)
      = Inr (updatePort c t' (q'\<lparr>texts := (texts q')(N \<mapsto> t, Suc N \<mapsto> t')\<rparr>))"
    using m by (simp add: port_answer_def Let_def)
  have 3: "port_answer (Suc N) t' q' = Inr (updatePort c t' (q'\<lparr>texts := (texts q')(Suc N \<mapsto> t')\<rparr>))"
    using m by (simp add: port_answer_def Let_def)
  let ?r = "updatePort c t' (q'\<lparr>texts := (texts q')(Suc N \<mapsto> t')\<rparr>)"
  have r: "made ?r = made q'" "texts ?r = (texts q')(Suc N \<mapsto> t')"
    using bs by (simp_all add: updatePort_def)
  have 4: "port_answer N t ?r = Inr (updatePort b t' (?r\<lparr>texts := (texts q')(Suc N \<mapsto> t', N \<mapsto> t)\<rparr>))"
    unfolding port_answer_def Let_def using m by (simp add: r)
  have A: "map_option displayed (boxes (updatePort c t' (q'\<lparr>texts := (texts q')(N \<mapsto> t, Suc N \<mapsto> t')\<rparr>)) b) = Some False"
    "map_option contents (boxes (updatePort c t' (q'\<lparr>texts := (texts q')(N \<mapsto> t, Suc N \<mapsto> t')\<rparr>)) b) = Some (contents bx)"
    "boxes (updatePort c t' (q'\<lparr>texts := (texts q')(N \<mapsto> t, Suc N \<mapsto> t')\<rparr>)) c = Some (cx\<lparr>contents := t', displayed := True\<rparr>)"
    using bs assms(3) by (simp_all add: updatePort_def)
  have B: "boxes (updatePort b t' (?r\<lparr>texts := (texts q')(Suc N \<mapsto> t', N \<mapsto> t)\<rparr>)) b = Some (bx\<lparr>contents := t', displayed := True\<rparr>)"
    "boxes (updatePort b t' (?r\<lparr>texts := (texts q')(Suc N \<mapsto> t', N \<mapsto> t)\<rparr>)) c = Some (cx\<lparr>contents := t', displayed := True\<rparr>)"
    using bs assms(3) by (simp_all add: updatePort_def)
  show ?thesis using 1 2 3 4 A B unfolding N_def by blast
qed

text \<open>A page with two boxes.\<close>

definition demo_ports :: port_page where
  "demo_ports = \<lparr>boxes = [''p1'' \<mapsto> \<lparr>contents = ''old'', displayed = True, spinners = 0\<rparr>,
       ''p2'' \<mapsto> \<lparr>contents = ''old'', displayed = True, spinners = 0\<rparr>],
     links = Map.empty, entries = [''d1'' \<mapsto> ''7'', ''n1'' \<mapsto> ''sw1''], patches = {}, made = [], urls = [],
     texts = Map.empty, power_portboxname = None\<rparr>"

theorem single_port_request_witness:
  "\<exists>q r. showPhysical_ports ''d1'' ''n1'' ''5'' ''p1'' ''switchport'' ''undefined'' demo_ports = Inr q
     \<and> port_answer 0 ''ports'' q = Inr r \<and> map_option contents (boxes r ''p1'') = Some ''ports''"
proof -
  have b: "boxes demo_ports ''p1'' = Some \<lparr>contents = ''old'', displayed = True, spinners = 0\<rparr>"
    "length (made demo_ports) = 0"
    by (simp_all add: demo_ports_def)
  obtain q where q: "showPhysical_ports ''d1'' ''n1'' ''5'' ''p1'' ''switchport'' ''undefined'' demo_ports = Inr q"
    using showPhysical_ports_spec [OF b(1)] by blast
  from single_port_request [OF b(1) q, of "''ports''"] show ?thesis using q by (auto simp: b(2))
qed

theorem overlapping_port_requests_witness:
  "\<exists>q q' r r'. showPhysical_ports ''d1'' ''n1'' ''5'' ''p1'' ''switchport'' ''undefined'' demo_ports = Inr q
     \<and> showPhysical_ports ''d1'' ''n1'' ''6'' ''p2'' ''switchport'' ''undefined'' q = Inr q'
     \<and> port_answer 1 ''ports of 2'' q' = Inr r \<and> port_answer 0 ''ports of 1'' r = Inr r'
     \<and> map_option contents (boxes r' ''p1'') = Some ''ports of 2''"
proof -
  have b: "boxes demo_ports ''p1'' = Some \<lparr>contents = ''old'', displayed = True, spinners = 0\<rparr>"
    "boxes demo_ports ''p2'' = Some \<lparr>contents = ''old'', displayed = True, spinners = 0\<rparr>"
    "length (made demo_ports) = 0" "\<forall>k \<ge> length (made demo_ports). texts demo_ports k = None"
    by (simp_all add: demo_ports_def)
  obtain q where q: "showPhysical_ports ''d1'' ''n1'' ''5'' ''p1'' ''switchport'' ''undefined'' demo_ports = Inr q"
    "boxes q ''p2'' = boxes demo_ports ''p2''"
    using showPhysical_ports_spec [OF b(1), of "''d1''" "''n1''" "''5''" "''switchport''" "''undefined''"] by auto
  obtain q' where q': "showPhysical_ports ''d1'' ''n1'' ''6'' ''p2'' ''switchport'' ''undefined'' q = Inr q'"
    using showPhysical_ports_spec [of q "''p2''"] q(2) b(2) by metis
  have ne: "''p1'' \<noteq> ''p2''" by simp
  from overlapping_port_requests [OF b(1,2) ne b(4) q(1) q', of "''ports of 1''" "''ports of 2''"]
  show ?thesis using q(1) q' by (auto simp: b(3))
qed

end
