(* ===== verification/OtherEnd.thy ===== *)
theory OtherEnd
  imports Ports
begin

text \<open>
  \<open>ajaxsearch.js\<close>, the part for the other end of a port: a field with a pop-up that lists the devices
  matching what is typed.  Searches are delayed by a timer the fields share; their answers may come late.
\<close>

section \<open>The fields\<close>

text \<open>
  A pop-up: whether it is visible, the devices it lists (identifier and name), the one chosen, its
  buttons, and the note that devices are being fetched.
\<close>

record search_popup =
  visible :: bool
  listed :: "(string \<times> string) list"
  chosen :: "nat option"
  select_off :: bool
  disconnect_off :: bool
  loading :: bool

text \<open>
  A field: the arguments its handlers are called with (the field of the device's identifier, the port, the
  box of the ports, type and side), its attributes, whether it is marked as changed, and its pop-up once
  there is one.  The values of the fields are the \<open>entries\<close> of the page.
\<close>

record other_end =
  device_field :: string
  port_id :: string
  ports_box :: string
  port_type :: string
  port_side :: string
  original :: "string option"
  default_value :: string
  lastselected :: "string option"
  lastsearch :: string
  lastrequested :: "string option"
  changed :: bool
  popup :: "search_popup option"

text \<open>\<open>timer\<close> is the field whose search waits; \<open>searches\<close> are the requests made.\<close>

record oe_page =
  ports :: port_page
  ends :: "string \<rightharpoonup> other_end"
  timer :: "string option"
  searches :: "(string \<times> string) list"

definition name_value :: "oe_page \<Rightarrow> string \<Rightarrow> string" where
  "name_value p n = value_text (ports p) n"

definition set_value :: "string \<Rightarrow> string \<Rightarrow> oe_page \<Rightarrow> oe_page" where
  "set_value f v p = p\<lparr>ports := (ports p)\<lparr>entries := (entries (ports p))(f \<mapsto> v)\<rparr>\<rparr>"

definition set_end :: "string \<Rightarrow> other_end \<Rightarrow> oe_page \<Rightarrow> oe_page" where
  "set_end n e p = p\<lparr>ends := (ends p)(n \<mapsto> e)\<rparr>"

text \<open>The value that was selected and validated last, or the original one; \<open>null\<close> shows as nothing.\<close>

definition settled :: "other_end \<Rightarrow> string" where
  "settled e =
     (case lastselected e of
        Some v \<Rightarrow> v | None \<Rightarrow> (case original e of Some v \<Rightarrow> v | None \<Rightarrow> []))"

definition track :: "string \<Rightarrow> other_end \<Rightarrow> other_end" where
  "track v e = e\<lparr>changed := (v \<noteq> (case original e of Some x \<Rightarrow> x | None \<Rightarrow> default_value e))\<rparr>"

definition put_popup :: "(search_popup \<Rightarrow> search_popup) \<Rightarrow> other_end \<Rightarrow> other_end" where
  "put_popup f e = e\<lparr>popup := map_option f (popup e)\<rparr>"

definition hide :: "other_end \<Rightarrow> other_end" where
  "hide e = put_popup (\<lambda>u. u\<lparr>visible := False\<rparr>) e"

section \<open>Showing and hiding a pop-up\<close>

definition delayedGetMatchingDevices :: "string \<Rightarrow> oe_page \<Rightarrow> oe_page" where
  "delayedGetMatchingDevices n p = p\<lparr>timer := Some n\<rparr>"

text \<open>Every other pop-up is hidden and its field goes back to its settled value.\<close>

definition hide_others :: "string \<Rightarrow> oe_page \<Rightarrow> oe_page" where
  "hide_others n p =
     p\<lparr>ends := (\<lambda>m. case ends p m of
           None \<Rightarrow> None
         | Some e \<Rightarrow> if m \<noteq> n \<and> popup e \<noteq> None then Some (track (settled e) (hide e)) else Some e),
       ports := (ports p)\<lparr>entries := (\<lambda>f. case ends p f of
           None \<Rightarrow> entries (ports p) f
         | Some e \<Rightarrow> if f \<noteq> n \<and> popup e \<noteq> None then Some (settled e) else entries (ports p) f)\<rparr>\<rparr>"

definition new_popup :: "string \<Rightarrow> search_popup" where
  "new_popup v = \<lparr>visible = True, listed = [], chosen = None, select_off = True, disconnect_off = (v = []), loading = False\<rparr>"

definition showOtherEndDeviceSearchPopup :: "string \<Rightarrow> oe_page \<Rightarrow> oe_page" where
  "showOtherEndDeviceSearchPopup n p =
     (case ends p n of
        None \<Rightarrow> p
      | Some e \<Rightarrow>
          let p1 = hide_others n p in
          (case popup e of
             Some u \<Rightarrow> set_end n (put_popup (\<lambda>u. u\<lparr>visible := True\<rparr>) e) p1
           | None \<Rightarrow>
               delayedGetMatchingDevices n
                 (set_end n (e\<lparr>popup := Some (new_popup (name_value p n)), lastsearch := name_value p n\<rparr>) p1)))"

text \<open>Without a pop-up there is nothing to hide: the code raises a \<open>TypeError\<close> then.\<close>

definition hidePopup :: "string \<Rightarrow> oe_page \<Rightarrow> oe_page js" where
  "hidePopup n p =
     (case ends p n of
        None \<Rightarrow> Inl TypeError
      | Some e \<Rightarrow>
          if popup e = None then Inl TypeError
          else Inr (delayedGetMatchingDevices n (set_value n (settled e)
            (set_end n (track (settled e) (put_popup (\<lambda>u. u\<lparr>visible := False, loading := False\<rparr>) e)) p))))"

section \<open>Searching\<close>

text \<open>
  The timer fires: nothing is requested for the pattern that was requested last, and an empty pattern
  empties the list.
\<close>

definition getMatchingDevices :: "string \<Rightarrow> oe_page \<Rightarrow> oe_page" where
  "getMatchingDevices n p =
     (case ends p n of
        None \<Rightarrow> p
      | Some e \<Rightarrow>
          let v = name_value p n in
          if lastrequested e = Some v then p
          else if v = []
          then set_end n (put_popup (\<lambda>u. u\<lparr>listed := [], chosen := None, loading := False\<rparr>) (e\<lparr>lastsearch := []\<rparr>)) p
          else set_end n (put_popup (\<lambda>u. u\<lparr>loading := True\<rparr>) (e\<lparr>lastrequested := Some v\<rparr>))
            (p\<lparr>searches := searches p @ [(n, v)]\<rparr>))"

definition timer_fires :: "oe_page \<Rightarrow> oe_page" where
  "timer_fires p =
     (case timer p of None \<Rightarrow> p | Some n \<Rightarrow> getMatchingDevices n (p\<lparr>timer := None\<rparr>))"

text \<open>
  The address of the answer, as the browser writes it: some characters of the query are escaped, and
  there is no fragment.  The pattern is read back as what follows the last \<open>pattern=\<close>.
\<close>

definition hex_digit :: "nat \<Rightarrow> char" where
  "hex_digit n = (if n < 10 then char_of (48 + n) else char_of (55 + n))"

definition query_char :: "char \<Rightarrow> string" where
  "query_char c =
     (let n = (of_char c :: nat) in
      if n \<le> 32 \<or> n \<ge> 127 \<or> n \<in> {34, 39, 60, 62} then [CHR ''%'', hex_digit (n div 16), hex_digit (n mod 16)] else [c])"

definition responseURL :: "string \<Rightarrow> string" where
  "responseURL v = ''ajax-devsearch.pl?pattern='' @ concat (map query_char (takeWhile (\<lambda>c. c \<noteq> CHR ''#'') v))"

fun after_last :: "string \<Rightarrow> string \<Rightarrow> string option" where
  "after_last k [] = (if k = [] then Some [] else None)"
| "after_last k (c # cs) =
     (case after_last k cs of
        Some r \<Rightarrow> Some r
      | None \<Rightarrow> if prefix k (c # cs) then Some (drop (length k) (c # cs)) else None)"

definition response_pattern :: "string \<Rightarrow> string" where
  "response_pattern v = (case after_last ''pattern='' (responseURL v) of None \<Rightarrow> responseURL v | Some r \<Rightarrow> r)"

text \<open>An answer to another pattern than the one requested last is ignored.\<close>

definition updateOtherEndDeviceSearchPopup :: "nat \<Rightarrow> (string \<times> string) list \<Rightarrow> oe_page \<Rightarrow> oe_page" where
  "updateOtherEndDeviceSearchPopup k data p =
     (case ends p (fst (searches p ! k)) of
        None \<Rightarrow> p
      | Some e \<Rightarrow>
          let r = response_pattern (snd (searches p ! k)) in
          if lastrequested e \<noteq> Some r then p
          else set_end (fst (searches p ! k))
            (put_popup (\<lambda>u. u\<lparr>listed := data, chosen := None, select_off := True, loading := False\<rparr>) (e\<lparr>lastsearch := r\<rparr>)) p)"

section \<open>Choosing\<close>

definition choose_device :: "string \<Rightarrow> nat \<Rightarrow> oe_page \<Rightarrow> oe_page" where
  "choose_device n i p =
     (case ends p n of
        None \<Rightarrow> p
      | Some e \<Rightarrow>
          (case popup e of
             None \<Rightarrow> p
           | Some u \<Rightarrow>
               if i < length (listed u) then set_end n (put_popup (\<lambda>u. u\<lparr>chosen := Some i, select_off := False\<rparr>) e) p
               else p))"

text \<open>The end of the handler: the mark, the ports of the device, and the pop-up goes.\<close>

definition finish_update :: "string \<Rightarrow> other_end \<Rightarrow> oe_page \<Rightarrow> oe_page \<times> js_error option" where
  "finish_update n e p =
     (let p1 = set_end n (track (name_value p n) e) p in
      case showPhysical_ports (device_field e) n (port_id e) (ports_box e) (port_type e) (port_side e) (ports p1) of
        Inl x \<Rightarrow> (p1, Some x)
      | Inr q \<Rightarrow> (set_end n (hide (track (name_value p n) e)) (p1\<lparr>ports := q\<rparr>), None))"

definition updateOtherEnd :: "string \<Rightarrow> bool \<Rightarrow> oe_page \<Rightarrow> oe_page \<times> js_error option" where
  "updateOtherEnd n disconnect p =
     (case ends p n of
        None \<Rightarrow> (p, Some TypeError)
      | Some e \<Rightarrow>
          if disconnect
          then
            if name_value p n = [] then (p, None)
            else finish_update n
              (put_popup (\<lambda>u. u\<lparr>disconnect_off := True\<rparr>) (e\<lparr>lastselected := Some [], lastsearch := []\<rparr>))
              (set_value n [] (set_value (device_field e) [] p))
          else
            (case Option.bind (popup e) (\<lambda>u. map_option (\<lambda>i. listed u ! i) (chosen u)) of
               None \<Rightarrow> (p, None)
             | Some (i, t) \<Rightarrow>
                 finish_update n (put_popup (\<lambda>u. u\<lparr>disconnect_off := False\<rparr>) (e\<lparr>lastselected := Some t\<rparr>))
                   (set_value n t (set_value (device_field e) i p))))"

text \<open>A message at the pointer, until its time is over.\<close>

definition blink_message :: "string \<Rightarrow> nat \<Rightarrow> nat \<Rightarrow> (string \<times> nat) list \<Rightarrow> (string \<times> nat) list" where
  "blink_message m now duration ms = ms @ [(m, now + duration)]"

definition blink_over :: "nat \<Rightarrow> (string \<times> nat) list \<Rightarrow> (string \<times> nat) list" where
  "blink_over now ms = filter (\<lambda>m. now < snd m) ms"


section \<open>Late answers\<close>

definition answers :: "(string \<Rightarrow> (string \<times> string) list) \<Rightarrow> nat list \<Rightarrow> oe_page \<Rightarrow> oe_page" where
  "answers server ks p = foldl (\<lambda>p k. updateOtherEndDeviceSearchPopup k (server (snd (searches p ! k))) p) p ks"

text \<open>A pattern that the address gives back unchanged.\<close>

definition plain :: "string \<Rightarrow> bool" where
  "plain v \<longleftrightarrow> response_pattern v = v"

definition lists :: "string \<Rightarrow> oe_page \<Rightarrow> (string \<times> string) list option" where
  "lists n p = Option.bind (ends p n) (\<lambda>e. map_option listed (popup e))"

definition requested :: "string \<Rightarrow> oe_page \<Rightarrow> string option" where
  "requested n p = Option.bind (ends p n) lastrequested"

lemma answer_other:
  "searches (updateOtherEndDeviceSearchPopup k d p) = searches p"
  "requested n (updateOtherEndDeviceSearchPopup k d p) = requested n p"
  by (auto simp: updateOtherEndDeviceSearchPopup_def set_end_def requested_def put_popup_def Let_def split: option.split)

lemma answer_lists:
  assumes "requested n p = Some q" "lists n p \<noteq> None"
  shows "lists n (updateOtherEndDeviceSearchPopup k d p)
     = (if fst (searches p ! k) = n \<and> response_pattern (snd (searches p ! k)) = q then Some d else lists n p)"
  using assms
  by (auto simp: updateOtherEndDeviceSearchPopup_def set_end_def requested_def lists_def put_popup_def Let_def
      split: option.split)


text \<open>
  The answer to a pattern the address does not give back unchanged, one with a blank for instance, is
  taken for the answer to another pattern: what is listed stays as it was, and so does the note that the
  devices are being fetched.
\<close>

theorem escaped_pattern_never_listed:
  assumes "requested n p = Some q" "searches p ! k = (n, q)" "\<not> plain q"
  shows "updateOtherEndDeviceSearchPopup k data p = p"
  using assms
  by (auto simp: updateOtherEndDeviceSearchPopup_def requested_def plain_def Let_def split: option.split)

definition demo_end :: "string \<Rightarrow> other_end" where
  "demo_end n =
     \<lparr>device_field = n @ ''_id'', port_id = ''5'', ports_box = n @ ''_ports'', port_type = ''switchport'',
      port_side = ''undefined'', original = Some ''sw1'', default_value = ''sw1'', lastselected = None, lastsearch = [],
      lastrequested = None, changed = False, popup = None\<rparr>"

definition demo_ends :: oe_page where
  "demo_ends = \<lparr>ports = \<lparr>boxes = [''a_ports'' \<mapsto> \<lparr>contents = [], displayed = True, spinners = 0\<rparr>], links = Map.empty,
       entries = [''a'' \<mapsto> ''sw1'', ''a_id'' \<mapsto> ''7''], patches = {}, made = [], urls = [], texts = Map.empty,
       power_portboxname = None\<rparr>,
     ends = [''a'' \<mapsto> demo_end ''a''], timer = None, searches = []\<rparr>"

text \<open>The pattern \<open>sw\<close> is typed and requested, then \<open>sw2\<close>.\<close>

definition demo_typing :: oe_page where
  "demo_typing =
     timer_fires (delayedGetMatchingDevices ''a'' (set_value ''a'' ''sw2''
       (timer_fires (delayedGetMatchingDevices ''a'' (set_value ''a'' ''sw''
         (showOtherEndDeviceSearchPopup ''a'' demo_ends))))))"


theorem escaped_pattern_never_listed_witness:
  "updateOtherEndDeviceSearchPopup 0 [(''7'', ''sw 1'')]
     (timer_fires (set_value ''a'' ''sw 1'' (showOtherEndDeviceSearchPopup ''a'' demo_ends)))
   = timer_fires (set_value ''a'' ''sw 1'' (showOtherEndDeviceSearchPopup ''a'' demo_ends))"
proof -
  let ?p = "timer_fires (set_value ''a'' ''sw 1'' (showOtherEndDeviceSearchPopup ''a'' demo_ends))"
  have "requested ''a'' ?p = Some ''sw 1''" "searches ?p ! 0 = (''a'', ''sw 1'')" "\<not> plain ''sw 1''" by code_simp+
  then show ?thesis by (rule escaped_pattern_never_listed)
qed

section \<open>The name and the identifier belong together\<close>

datatype oe_event = Click string | Typed string string | Cancel string | Fire | Arrive nat
  | Pick string nat | Connect string | Disconnect string | PortsArrive nat string

definition oe_step :: "(string \<Rightarrow> (string \<times> string) list) \<Rightarrow> oe_page \<Rightarrow> oe_event \<Rightarrow> oe_page" where
  "oe_step server p ev =
     (case ev of
        Click n \<Rightarrow> showOtherEndDeviceSearchPopup n p
      | Typed n v \<Rightarrow>
          if ends p n = None then p
          else delayedGetMatchingDevices n (showOtherEndDeviceSearchPopup n (set_value n v p))
      | Cancel n \<Rightarrow> (case hidePopup n p of Inl x \<Rightarrow> p | Inr q \<Rightarrow> q)
      | Fire \<Rightarrow> timer_fires p
      | Arrive k \<Rightarrow>
          if k < length (searches p)
          then updateOtherEndDeviceSearchPopup k (server (snd (searches p ! k))) p else p
      | Pick n i \<Rightarrow> choose_device n i p
      | Connect n \<Rightarrow> fst (updateOtherEnd n False p)
      | Disconnect n \<Rightarrow> fst (updateOtherEnd n True p)
      | PortsArrive k t \<Rightarrow> (case port_answer k t (ports p) of Inl x \<Rightarrow> p | Inr q \<Rightarrow> p\<lparr>ports := q\<rparr>))"

text \<open>
  The pairs of identifier and name that may be submitted: the original one, none, and those the server
  listed for some pattern.
\<close>

definition pair_ok :: "(string \<Rightarrow> (string \<times> string) list) \<Rightarrow> string \<times> string \<Rightarrow> string \<times> string \<Rightarrow> bool" where
  "pair_ok server orig x \<longleftrightarrow> x = orig \<or> x = ([], []) \<or> (\<exists>q. x \<in> set (server q))"

definition popup_closed :: "other_end \<Rightarrow> bool" where
  "popup_closed e \<longleftrightarrow> (case popup e of None \<Rightarrow> True | Some u \<Rightarrow> \<not> visible u)"

definition listed_ok :: "(string \<Rightarrow> (string \<times> string) list) \<Rightarrow> other_end \<Rightarrow> bool" where
  "listed_ok server e \<longleftrightarrow>
     (case popup e of
        None \<Rightarrow> True
      | Some u \<Rightarrow> (\<forall>x \<in> set (listed u). \<exists>q. x \<in> set (server q))
          \<and> (case chosen u of None \<Rightarrow> True | Some i \<Rightarrow> i < length (listed u)))"

definition field_ok ::
  "(string \<Rightarrow> (string \<times> string) list) \<Rightarrow> string \<times> string \<Rightarrow> string \<Rightarrow> string \<Rightarrow> other_end \<Rightarrow> bool" where
  "field_ok server orig i v e \<longleftrightarrow>
     pair_ok server orig (i, settled e) \<and> (popup_closed e \<longrightarrow> v = settled e)
     \<and> listed_ok server e"

text \<open>
  The page as the server lays it out: the fields \<open>ns\<close>, each with a field for its identifier (\<open>dv\<close>) that is
  no other field's and no name field.
\<close>

definition oe_ok ::
  "(string \<Rightarrow> (string \<times> string) list) \<Rightarrow> (string \<Rightarrow> string \<times> string) \<Rightarrow> string set \<Rightarrow> (string \<Rightarrow> string) \<Rightarrow> oe_page \<Rightarrow> bool" where
  "oe_ok server orig ns dv p \<longleftrightarrow> inj_on dv ns \<and> dv ` ns \<inter> ns = {} \<and> dom (ends p) = ns
     \<and> (\<forall>n e. ends p n = Some e \<longrightarrow> device_field e = dv n
          \<and> field_ok server (orig n) (value_text (ports p) (dv n)) (name_value p n) e)"

text \<open>The settled value and the pop-up are all that counts of a field.\<close>

lemma settled_simps [simp]:
  "settled (put_popup f e) = settled e" "settled (e\<lparr>popup := u\<rparr>) = settled e" "settled (e\<lparr>lastsearch := s\<rparr>) = settled e"
  "settled (e\<lparr>lastrequested := r\<rparr>) = settled e" "settled (track v e) = settled e" "settled (hide e) = settled e"
  "settled (e\<lparr>lastselected := Some t\<rparr>) = t"
  by (simp_all add: settled_def put_popup_def track_def hide_def cong: option.case_cong)

lemma popup_simps [simp]:
  "popup (put_popup f e) = map_option f (popup e)" "popup (track v e) = popup e"
  "popup (hide e) = map_option (\<lambda>u. u\<lparr>visible := False\<rparr>) (popup e)"
  "device_field (put_popup f e) = device_field e" "device_field (track v e) = device_field e"
  "device_field (hide e) = device_field e"
  by (simp_all add: put_popup_def track_def hide_def)

lemma listed_ok_simps [simp]:
  "listed_ok server (track v e) = listed_ok server e"
  "listed_ok server (e\<lparr>lastselected := ls\<rparr>) = listed_ok server e"
  "listed_ok server (e\<lparr>lastsearch := s\<rparr>) = listed_ok server e"
  "listed_ok server (e\<lparr>lastrequested := r\<rparr>) = listed_ok server e"
  by (simp_all add: listed_ok_def)

lemma listed_ok_put [simp]:
  "(\<And>u. listed (f u) = listed u) \<Longrightarrow> (\<And>u. chosen (f u) = chosen u)
     \<Longrightarrow> listed_ok server (put_popup f e) = listed_ok server e"
  by (cases "popup e") (simp_all add: listed_ok_def split: option.split)

lemma listed_ok_empty [simp]:
  "listed u = [] \<Longrightarrow> chosen u = None \<Longrightarrow> listed_ok server (e\<lparr>popup := Some u\<rparr>)"
  "(\<And>u. listed (f u) = []) \<Longrightarrow> (\<And>u. chosen (f u) = None) \<Longrightarrow> listed_ok server (put_popup f e)"
  by (simp_all add: listed_ok_def split: option.split)

lemma listed_ok_hide [simp]: "listed_ok server e \<Longrightarrow> listed_ok server (hide e)"
  by (simp add: hide_def)

lemma value_text_upd [simp]:
  "value_text (p\<lparr>entries := m\<rparr>) f = (case m f of None \<Rightarrow> [] | Some v \<Rightarrow> v)"
  by (simp add: value_text_def)

lemma set_simps [simp]:
  "ends (set_value f v p) = ends p" "ends (set_end n e p) = (ends p)(n \<mapsto> e)"
  "ports (set_end n e p) = ports p" "searches (set_end n e p) = searches p"
  "entries (ports (set_value f v p)) = (entries (ports p))(f \<mapsto> v)"
  by (simp_all add: set_value_def set_end_def)

lemma field_ok_hide:
  "field_ok server orig i v e \<Longrightarrow> field_ok server orig i (settled e) (track w (hide e))"
  by (simp add: field_ok_def popup_closed_def)

lemma oe_ok_upd:
  assumes "oe_ok server orig ns dv p" "n \<in> ns" "ends q = (ends p)(n \<mapsto> e)" "device_field e = dv n"
    and "\<And>f. f \<noteq> n \<Longrightarrow> f \<noteq> dv n \<Longrightarrow> entries (ports q) f = entries (ports p) f"
    and "field_ok server (orig n) (value_text (ports q) (dv n)) (name_value q n) e"
  shows "oe_ok server orig ns dv q"
proof -
  have l: "inj_on dv ns" "dv ` ns \<inter> ns = {}" "dom (ends p) = ns" using assms(1) by (simp_all add: oe_ok_def)
  have d: "dom (ends q) = ns" using assms(2,3) l(3) by auto
  have "device_field e' = dv m \<and> field_ok server (orig m) (value_text (ports q) (dv m)) (name_value q m) e'"
    if m: "ends q m = Some e'" for m e'
  proof (cases "m = n")
    case True
    then show ?thesis using m assms(3,4,6) by simp
  next
    case False
    have mn: "m \<in> ns" using m d by auto
    have pm: "ends p m = Some e'" using m False assms(3) by simp
    have "dv m \<noteq> n" "m \<noteq> dv n" "dv m \<noteq> dv n"
      using l(1,2) mn assms(2) False by (auto dest: inj_onD)
    then have "entries (ports q) m = entries (ports p) m" "entries (ports q) (dv m) = entries (ports p) (dv m)"
      using assms(5) False by simp_all
    then show ?thesis using assms(1) pm by (simp add: oe_ok_def name_value_def value_text_def)
  qed
  then show ?thesis using l d by (simp add: oe_ok_def)
qed

lemma oe_ok_same:
  "oe_ok server orig ns dv p \<Longrightarrow> ends q = ends p \<Longrightarrow> entries (ports q) = entries (ports p) \<Longrightarrow> oe_ok server orig ns dv q"
  by (simp add: oe_ok_def name_value_def value_text_def)

lemma oe_ok_field:
  assumes "oe_ok server orig ns dv p" "ends p n = Some e"
  shows "n \<in> ns" "device_field e = dv n" "field_ok server (orig n) (value_text (ports p) (dv n)) (name_value p n) e"
    "dv n \<noteq> n"
proof -
  show n: "n \<in> ns" "device_field e = dv n" "field_ok server (orig n) (value_text (ports p) (dv n)) (name_value p n) e"
    using assms by (auto simp: oe_ok_def)
  have "dv n \<in> dv ` ns" using n(1) by blast
  then show "dv n \<noteq> n" using assms(1) n(1) unfolding oe_ok_def by (metis IntI emptyE)
qed

lemma hide_others_ok:
  assumes "oe_ok server orig ns dv p"
  shows "oe_ok server orig ns dv (hide_others n p)"
proof -
  have l: "inj_on dv ns" "dv ` ns \<inter> ns = {}" "dom (ends p) = ns" using assms by (simp_all add: oe_ok_def)
  have d: "dom (ends (hide_others n p)) = ns" using l(3) by (auto simp: hide_others_def split: option.splits)
  have "device_field e' = dv m
      \<and> field_ok server (orig m) (value_text (ports (hide_others n p)) (dv m)) (name_value (hide_others n p) m) e'"
    if m: "ends (hide_others n p) m = Some e'" for m e'
  proof -
    obtain e where e: "ends p m = Some e"
      "e' = (if m \<noteq> n \<and> popup e \<noteq> None then track (settled e) (hide e) else e)"
      using m by (auto simp: hide_others_def split: option.splits if_splits)
    note f = oe_ok_field [OF assms e(1)]
    have "dv m \<notin> ns" using f(1) l(2) by auto
    then have "ends p (dv m) = None" using l(3) by auto
    then have i: "value_text (ports (hide_others n p)) (dv m) = value_text (ports p) (dv m)"
      by (simp add: hide_others_def) (simp add: value_text_def)
    have v: "name_value (hide_others n p) m = (if m \<noteq> n \<and> popup e \<noteq> None then settled e else name_value p m)"
      using e(1) by (simp add: hide_others_def name_value_def) (simp add: value_text_def)
    show ?thesis
    proof (cases "m \<noteq> n \<and> popup e \<noteq> None")
      case True
      then show ?thesis using f(2) field_ok_hide [OF f(3)] by (simp add: i v e(2))
    next
      case False
      then have "e' = e" "name_value (hide_others n p) m = name_value p m" using e(2) v by auto
      then show ?thesis using f(2,3) by (simp add: i)
    qed
  qed
  then show ?thesis using l d by (simp add: oe_ok_def)
qed

lemma show_ok:
  assumes "oe_ok server orig ns dv p"
  shows "oe_ok server orig ns dv (showOtherEndDeviceSearchPopup n p)"
proof (cases "ends p n")
  case None
  then show ?thesis using assms by (simp add: showOtherEndDeviceSearchPopup_def)
next
  case (Some e)
  let ?p = "hide_others n p"
  have h: "oe_ok server orig ns dv ?p" by (rule hide_others_ok [OF assms])
  have e: "ends ?p n = Some e" using Some by (simp add: hide_others_def)
  note f = oe_ok_field [OF h e]
  have put: "oe_ok server orig ns dv (set_end n e' ?p)"
    if "device_field e' = dv n" "settled e' = settled e" "\<not> popup_closed e'"
      "listed_ok server e'" for e'
    using that f
    by (intro oe_ok_upd [OF h f(1), where e = e']) (auto simp: field_ok_def name_value_def)
  show ?thesis
  proof (cases "popup e")
    case None
    have "oe_ok server orig ns dv (set_end n (e\<lparr>popup := Some (new_popup (name_value p n)), lastsearch := name_value p n\<rparr>) ?p)"
      using f by (intro put) (simp_all add: popup_closed_def new_popup_def)
    then show ?thesis
      using Some None by (simp add: showOtherEndDeviceSearchPopup_def delayedGetMatchingDevices_def oe_ok_def name_value_def)
  next
    case (Some u)
    have "oe_ok server orig ns dv (set_end n (put_popup (\<lambda>u. u\<lparr>visible := True\<rparr>) e) ?p)"
      using f Some by (intro put) (simp_all add: popup_closed_def field_ok_def)
    then show ?thesis using \<open>ends p n = Some e\<close> Some by (simp add: showOtherEndDeviceSearchPopup_def)
  qed
qed

text \<open>The steps that change one field.\<close>

lemma one_field_ok:
  assumes "oe_ok server orig ns dv p" "ends p n = Some e" "device_field e' = dv n"
    and "ends q = (ends p)(n \<mapsto> e')" "entries (ports q) = entries (ports p)"
    and "settled e' = settled e" "popup_closed e' \<longrightarrow> popup_closed e \<or> name_value p n = settled e"
    and "listed_ok server e'"
  shows "oe_ok server orig ns dv q"
proof -
  note f = oe_ok_field [OF assms(1,2)]
  show ?thesis
    using assms(3-8) f
    by (intro oe_ok_upd [OF assms(1) f(1), where e = e']) (auto simp: field_ok_def name_value_def value_text_def)
qed

lemma popup_closed_put: "popup_closed (put_popup f e) \<longleftrightarrow> (case popup e of None \<Rightarrow> True | Some u \<Rightarrow> \<not> visible (f u))"
  by (simp add: popup_closed_def split: option.split)

lemma type_ok:
  assumes "oe_ok server orig ns dv p" "ends p n \<noteq> None"
  shows "oe_ok server orig ns dv (delayedGetMatchingDevices n (showOtherEndDeviceSearchPopup n (set_value n v p)))"
proof -
  obtain e where e: "ends p n = Some e" using assms(2) by blast
  note f = oe_ok_field [OF assms(1) e]
  \<comment> \<open>While the value is typed the pop-up counts as visible, which showing it makes true.\<close>
  define e0 where "e0 = (case popup e of None \<Rightarrow> e\<lparr>popup := Some (new_popup v), lastsearch := v\<rparr> | Some u \<Rightarrow> put_popup (\<lambda>u. u\<lparr>visible := True\<rparr>) e)"
  have e0: "device_field e0 = dv n" "settled e0 = settled e" "\<not> popup_closed e0"
    "listed_ok server e0"
    using f by (cases "popup e"; simp add: e0_def popup_closed_def new_popup_def field_ok_def)+
  define p0 where "p0 = set_end n e0 (set_value n v p)"
  have "oe_ok server orig ns dv p0"
    using e0 f by (intro oe_ok_upd [OF assms(1) f(1), where e = e0])
      (auto simp: p0_def field_ok_def name_value_def value_text_def)
  then have h: "oe_ok server orig ns dv (hide_others n p0)" by (rule hide_others_ok)
  let ?q = "delayedGetMatchingDevices n (showOtherEndDeviceSearchPopup n (set_value n v p))"
  have v: "name_value (set_value n v p) n = v" by (simp add: name_value_def set_value_def)
  have "ends ?q = ends (hide_others n p0)"
  proof
    fix m
    show "ends ?q m = ends (hide_others n p0) m"
      using e by (cases "m = n"; cases "popup e")
        (auto simp: showOtherEndDeviceSearchPopup_def delayedGetMatchingDevices_def hide_others_def p0_def e0_def v
          split: option.split)
  qed
  moreover have "entries (ports ?q) = entries (ports (hide_others n p0))"
  proof
    fix f
    show "entries (ports ?q) f = entries (ports (hide_others n p0)) f"
      using e by (cases "f = n"; cases "popup e")
        (auto simp: showOtherEndDeviceSearchPopup_def delayedGetMatchingDevices_def hide_others_def p0_def set_end_def
          split: option.split)
  qed
  ultimately show ?thesis by (rule oe_ok_same [OF h])
qed

lemma cancel_ok:
  assumes "oe_ok server orig ns dv p" "hidePopup n p = Inr q"
  shows "oe_ok server orig ns dv q"
proof -
  obtain e where e: "ends p n = Some e"
    "q = delayedGetMatchingDevices n (set_value n (settled e)
      (set_end n (track (settled e) (put_popup (\<lambda>u. u\<lparr>visible := False, loading := False\<rparr>) e)) p))"
    using assms(2) by (auto simp: hidePopup_def split: option.splits if_splits)
  note f = oe_ok_field [OF assms(1) e(1)]
  have "listed_ok server (put_popup (\<lambda>u. u\<lparr>visible := False, loading := False\<rparr>) e)"
    using f(3) by (simp add: field_ok_def)
  then show ?thesis
    using f by (intro oe_ok_upd [OF assms(1) f(1),
          where e = "track (settled e) (put_popup (\<lambda>u. u\<lparr>visible := False, loading := False\<rparr>) e)"])
      (auto simp: e(2) delayedGetMatchingDevices_def field_ok_def name_value_def value_text_def split: option.splits)
qed

lemma search_ok:
  assumes "oe_ok server orig ns dv p"
  shows "oe_ok server orig ns dv (getMatchingDevices n p)"
proof (cases "ends p n")
  case None
  then show ?thesis using assms by (simp add: getMatchingDevices_def)
next
  case (Some e)
  note f = oe_ok_field [OF assms Some]
  have l: "listed_ok server e"
    using f(3) by (simp add: field_ok_def)
  have c: "popup_closed (put_popup g e) \<longrightarrow> popup_closed e" if "\<And>u. visible (g u) = visible u" for g
    using that by (simp add: popup_closed_put popup_closed_def split: option.split)
  have pc: "popup_closed (put_popup g (e\<lparr>lastsearch := s\<rparr>)) = popup_closed (put_popup g e)"
    "popup_closed (put_popup g (e\<lparr>lastrequested := r\<rparr>)) = popup_closed (put_popup g e)" for g s r
    by (simp_all add: popup_closed_put cong: option.case_cong)
  have "oe_ok server orig ns dv (set_end n (put_popup (\<lambda>u. u\<lparr>listed := [], chosen := None, loading := False\<rparr>) (e\<lparr>lastsearch := []\<rparr>)) p)"
    using f(2) c [of "\<lambda>u. u\<lparr>listed := [], chosen := None, loading := False\<rparr>"]
    by (intro one_field_ok [OF assms Some, where
          e' = "put_popup (\<lambda>u. u\<lparr>listed := [], chosen := None, loading := False\<rparr>) (e\<lparr>lastsearch := []\<rparr>)"])
      (auto simp: pc split: option.split)
  moreover have "oe_ok server orig ns dv (set_end n (put_popup (\<lambda>u. u\<lparr>loading := True\<rparr>) (e\<lparr>lastrequested := Some v\<rparr>))
      (p\<lparr>searches := ss\<rparr>))" for v ss
    using f(2) l c [of "\<lambda>u. u\<lparr>loading := True\<rparr>"]
    by (intro one_field_ok [OF assms Some, where
          e' = "put_popup (\<lambda>u. u\<lparr>loading := True\<rparr>) (e\<lparr>lastrequested := Some v\<rparr>)"])
      (auto simp: pc split: option.split)
  ultimately show ?thesis using assms Some by (simp add: getMatchingDevices_def Let_def)
qed

lemma answer_ok:
  assumes "oe_ok server orig ns dv p" "k < length (searches p)"
  shows "oe_ok server orig ns dv (updateOtherEndDeviceSearchPopup k (server (snd (searches p ! k))) p)"
proof (cases "ends p (fst (searches p ! k))")
  case None
  then show ?thesis using assms by (simp add: updateOtherEndDeviceSearchPopup_def)
next
  case (Some e)
  let ?n = "fst (searches p ! k)" and ?v = "snd (searches p ! k)"
  define e' where "e' = put_popup (\<lambda>u. u\<lparr>listed := server ?v, chosen := None, select_off := True, loading := False\<rparr>)
    (e\<lparr>lastsearch := response_pattern ?v\<rparr>)"
  have c: "popup_closed e' = popup_closed e"
    by (simp add: e'_def popup_closed_put popup_closed_def cong: option.case_cong)
  have l: "listed_ok server e'"
    by (auto simp: e'_def listed_ok_def split: option.split)
  have d: "device_field e' = dv ?n" "settled e' = settled e"
    using oe_ok_field(2) [OF assms(1) Some] by (simp_all add: e'_def)
  have "oe_ok server orig ns dv (set_end ?n e' p)"
    using c l d by (intro one_field_ok [OF assms(1) Some, where e' = e']) simp_all
  then show ?thesis using assms Some by (simp add: updateOtherEndDeviceSearchPopup_def Let_def e'_def)
qed

lemma choose_ok:
  assumes "oe_ok server orig ns dv p"
  shows "oe_ok server orig ns dv (choose_device n i p)"
proof -
  consider e u where "ends p n = Some e" "popup e = Some u" "i < length (listed u)" | "choose_device n i p = p"
    by (cases "ends p n"; cases "popup (the (ends p n))"; cases "i < length (listed (the (popup (the (ends p n)))))")
      (simp_all add: choose_device_def)
  then show ?thesis
  proof cases
    case (1 e u)
    note f = oe_ok_field [OF assms 1(1)]
    define e' where "e' = put_popup (\<lambda>u. u\<lparr>chosen := Some i, select_off := False\<rparr>) e"
    have c: "popup_closed e' = popup_closed e" using 1 by (simp add: e'_def popup_closed_def)
    have l: "listed_ok server e'" using f(3) 1 by (simp add: field_ok_def e'_def listed_ok_def)
    have d: "device_field e' = dv n" "settled e' = settled e" using f by (simp_all add: e'_def)
    have "oe_ok server orig ns dv (set_end n e' p)"
      using c l d by (intro one_field_ok [OF assms 1(1), where e' = e']) simp_all
    then show ?thesis using assms 1 by (simp add: choose_device_def e'_def)
  qed (simp add: assms)
qed

text \<open>Choosing a device and disconnecting both write the identifier, the name, and the settled value.\<close>

lemma showPhysical_ports_entries:
  "showPhysical_ports i n pp b ty s p = Inr q \<Longrightarrow> entries q = (if filled p n then entries p else (entries p)(i \<mapsto> []))"
  by (auto simp: showPhysical_ports_def Let_def cleanup_patchpanel_links_def set_link_def clear_value_def split: option.splits if_splits)

lemma finish_update_ok:
  assumes "oe_ok server orig ns dv p" "ends p n = Some e0" "device_field e = dv n" "settled e = t"
    and "pair_ok server (orig n) (i, t)"
    and "listed_ok server e"
  shows "oe_ok server orig ns dv (fst (finish_update n e (set_value n t (set_value (dv n) i p))))"
proof -
  note f = oe_ok_field [OF assms(1,2)]
  let ?p = "set_value n t (set_value (dv n) i p)" and ?e = "track t e"
  have v: "name_value ?p n = t" by (simp add: name_value_def value_text_def)
  have fl: "filled (ports ?p) n \<longleftrightarrow> t \<noteq> []" by (simp add: filled_def)
  have ok: "field_ok server (orig n) j t e'"
    if "j = i \<or> (t = [] \<and> j = [])" "settled e' = t"
      "listed_ok server e'" for j e'
    using that assms(5) by (auto simp: field_ok_def pair_ok_def)
  have ok1: "field_ok server (orig n) i t ?e" using assms(4,6) by (intro ok) simp_all
  have ok2: "field_ok server (orig n) (if t = [] then [] else i) t (hide ?e)"
    using assms(4,6) by (intro ok) (simp_all split: option.splits)
  show ?thesis
  proof (cases "showPhysical_ports (device_field ?e) n (port_id ?e) (ports_box ?e) (port_type ?e) (port_side ?e) (ports (set_end n ?e ?p))")
    case (Inl x)
    have "fst (finish_update n e ?p) = set_end n ?e ?p"
      using Inl by (simp add: finish_update_def v track_def)
    moreover have "oe_ok server orig ns dv (set_end n ?e ?p)"
      using f(4) assms(3) ok1
      by (intro oe_ok_upd [OF assms(1) f(1), where e = ?e]) (simp_all add: name_value_def value_text_def)
    ultimately show ?thesis by simp
  next
    case (Inr q)
    have en: "entries q = (if t = [] then (entries (ports p))(dv n \<mapsto> [], n \<mapsto> t) else (entries (ports p))(dv n \<mapsto> i, n \<mapsto> t))"
      using showPhysical_ports_entries [OF Inr] f(4) by (simp add: fl assms(3) fun_upd_twist)
    have "fst (finish_update n e ?p) = set_end n (hide ?e) ((set_end n ?e ?p)\<lparr>ports := q\<rparr>)"
      using Inr by (simp add: finish_update_def v track_def)
    moreover have "oe_ok server orig ns dv (set_end n (hide ?e) ((set_end n ?e ?p)\<lparr>ports := q\<rparr>))"
      using f(4) assms(3) en ok2
      by (intro oe_ok_upd [OF assms(1) f(1), where e = "hide ?e"]) (auto simp: name_value_def value_text_def)
    ultimately show ?thesis by simp
  qed
qed

lemma updateOtherEnd_ok:
  assumes "oe_ok server orig ns dv p"
  shows "oe_ok server orig ns dv (fst (updateOtherEnd n d p))"
proof (cases "ends p n")
  case None
  then show ?thesis using assms by (simp add: updateOtherEnd_def)
next
  case (Some e)
  note f = oe_ok_field [OF assms Some]
  have l: "listed_ok server e"
    using f(3) by (simp add: field_ok_def)
  show ?thesis
  proof (cases d)
    case True
    have "oe_ok server orig ns dv (fst (finish_update n
        (put_popup (\<lambda>u. u\<lparr>disconnect_off := True\<rparr>) (e\<lparr>lastselected := Some [], lastsearch := []\<rparr>))
        (set_value n [] (set_value (dv n) [] p))))"
      using l f(2) by (intro finish_update_ok [OF assms Some])
        (simp_all add: pair_ok_def)
    then show ?thesis using assms Some True f(2) by (simp add: updateOtherEnd_def)
  next
    case False
    show ?thesis
    proof (cases "Option.bind (popup e) (\<lambda>u. map_option (\<lambda>i. listed u ! i) (chosen u))")
      case None
      then show ?thesis using assms Some False by (simp add: updateOtherEnd_def)
    next
      case (Some x)
      obtain i t where x: "x = (i, t)" by (cases x)
      obtain u j where u: "popup e = Some u" "chosen u = Some j" "(i, t) = listed u ! j"
        using Some x by (auto simp: bind_eq_Some_conv)
      have "(i, t) \<in> set (listed u)" using l u by (simp add: listed_ok_def)
      then have "pair_ok server (orig n) (i, t)" using l u(1) by (auto simp: listed_ok_def pair_ok_def)
      then have "oe_ok server orig ns dv (fst (finish_update n
          (put_popup (\<lambda>u. u\<lparr>disconnect_off := False\<rparr>) (e\<lparr>lastselected := Some t\<rparr>)) (set_value n t (set_value (dv n) i p))))"
        using l f(2) by (intro finish_update_ok [OF assms \<open>ends p n = Some e\<close>]) simp_all
      then show ?thesis using \<open>ends p n = Some e\<close> False u f(2) by (simp add: updateOtherEnd_def flip: u(3))
    qed
  qed
qed

lemma port_answer_entries:
  "port_answer k t p = Inr q \<Longrightarrow> entries q = entries p"
  by (auto simp: port_answer_def updatePort_def updatePowerPort_def Let_def split: option.splits port_call.splits)

lemma oe_step_ok:
  assumes "oe_ok server orig ns dv p"
  shows "oe_ok server orig ns dv (oe_step server p ev)"
proof (cases ev)
  case (Cancel n)
  then show ?thesis using assms cancel_ok [OF assms] by (simp add: oe_step_def split: sum.split)
next
  case Fire
  have "oe_ok server orig ns dv (p\<lparr>timer := None\<rparr>)" by (rule oe_ok_same [OF assms]) simp_all
  then show ?thesis using Fire assms search_ok by (simp add: oe_step_def timer_fires_def split: option.split)
next
  case (PortsArrive k t)
  show ?thesis
  proof (cases "port_answer k t (ports p)")
    case (Inr q)
    have "oe_ok server orig ns dv (p\<lparr>ports := q\<rparr>)"
      using port_answer_entries [OF Inr] by (intro oe_ok_same [OF assms]) simp_all
    then show ?thesis using PortsArrive Inr by (simp add: oe_step_def)
  qed (use PortsArrive assms in \<open>simp add: oe_step_def\<close>)
qed (use assms in \<open>simp_all add: oe_step_def show_ok type_ok answer_ok choose_ok updateOtherEnd_ok\<close>)

interpretation other_ends: handled "oe_step server" "\<lambda>_. True" "oe_ok server orig ns dv"
  by unfold_locales (rule oe_step_ok)

text \<open>
  C3: Whatever is clicked, typed, cancelled, chosen or disconnected, in whatever order timers fire and
  answers arrive: a field whose pop-up is closed holds a name and, next to it, the identifier of that
  device.  The two are the original pair, both empty, or a pair the server listed; a name that was typed and
  not chosen is never submitted, and no name with another device's identifier.
\<close>

theorem closed_field_is_consistent:
  assumes "oe_ok server orig ns dv p" "foldl (oe_step server) p evs = q" "ends q n = Some e" "popup_closed e"
  shows "pair_ok server (orig n) (value_text (ports q) (device_field e), name_value q n)"
proof -
  have "oe_ok server orig ns dv (foldl (oe_step server) p evs)"
    using assms(1) by (rule other_ends.run_ok) simp
  then show ?thesis using assms(2-4) oe_ok_field(2,3) [of server orig ns dv q n e] by (simp add: field_ok_def)
qed

definition demo_server :: "string \<Rightarrow> (string \<times> string) list" where
  "demo_server q = (if q = [] then [] else [(''9'', q)])"

definition demo_session :: oe_page where
  "demo_session = foldl (oe_step demo_server) demo_ends
     [Click ''a'', Typed ''a'' ''sw2'', Fire, Arrive 0, Pick ''a'' 0, Connect ''a'', Typed ''a'' ''x'', Cancel ''a'']"

theorem closed_field_is_consistent_witness:
  "pair_ok demo_server (''7'', ''sw1'') (value_text (ports demo_session) ''a_id'', name_value demo_session ''a'')
   \<and> value_text (ports demo_session) ''a_id'' = ''9'' \<and> name_value demo_session ''a'' = ''sw2''"
proof -
  define e where "e = the (ends demo_session ''a'')"
  have e: "ends demo_session ''a'' = Some e" "popup_closed e" "device_field e = ''a_id''"
    unfolding e_def by code_simp+
  have "oe_ok demo_server (\<lambda>_. (''7'', ''sw1'')) {''a''} (\<lambda>_. ''a_id'') demo_ends"
    by (simp add: oe_ok_def demo_ends_def demo_end_def field_ok_def pair_ok_def value_text_def name_value_def
        settled_def listed_ok_def)
  then have "pair_ok demo_server (''7'', ''sw1'') (value_text (ports demo_session) ''a_id'', name_value demo_session ''a'')"
    using closed_field_is_consistent [OF _ demo_session_def [symmetric] e(1,2)] e(3) by metis
  moreover have "value_text (ports demo_session) ''a_id'' = ''9''" "name_value demo_session ''a'' = ''sw2''"
    by code_simp+
  ultimately show ?thesis by simp
qed

end
