(* ===== verification/DeviceForm.thy ===== *)
theory DeviceForm
  imports StabCommon
begin

text \<open>
  \<open>device-utils.js\<close>, the submission of the device page: the questions asked before dangerous changes, and
  the hidden fields the toggles are submitted with.
\<close>

section \<open>The form\<close>

text \<open>
  The toggles with their names and the attribute \<open>state\<close>; the hidden fields that were added; the
  checkboxes of the form; the fields \<open>INTERFACE_NAME_n\<close> by \<open>n\<close>; what \<open>verifybox\<close> holds; the
  submissions, as the hidden fields and the ticked checkboxes.
\<close>

record checkbox =
  cname :: string
  cid :: string
  ticked :: bool

datatype verify_dialog = Closed | Refusal "string list" | Question "string list"

record device_form =
  switches :: "(string \<times> string option) list"
  hiddens :: "(string \<times> string) list"
  checkboxes :: "checkbox list"
  interface_names :: "string \<rightharpoonup> string"
  dontSubmit :: bool
  verify_box :: verify_dialog
  posts :: "((string \<times> string) list \<times> checkbox list) list"

definition is_letter :: "char \<Rightarrow> bool" where
  "is_letter c \<longleftrightarrow> (let n = (of_char c :: nat) in (65 \<le> n \<and> n \<le> 90) \<or> (97 \<le> n \<and> n \<le> 122))"

text \<open>\<open>s.match("rm_([a-zA-Z]+)_INTERFACE_(\\d+)")\<close>: the groups of the first match, which may be anywhere.\<close>

definition match_here :: "string \<Rightarrow> (string \<times> string) option" where
  "match_here s =
     (let a = takeWhile is_letter (drop 3 s);
          r = dropWhile is_letter (drop 3 s);
          n = takeWhile is_digit (drop 11 r)
      in if prefix ''rm_'' s \<and> a \<noteq> [] \<and> prefix ''_INTERFACE_'' r \<and> n \<noteq> [] then Some (a, n) else None)"

fun match_rm :: "string \<Rightarrow> (string \<times> string) option" where
  "match_rm [] = None"
| "match_rm (c # cs) = (case match_here (c # cs) of Some x \<Rightarrow> Some x | None \<Rightarrow> match_rm cs)"

definition interface_question :: "device_form \<Rightarrow> checkbox \<Rightarrow> string list" where
  "interface_question p b =
     (case match_rm (cname b) of
        None \<Rightarrow> []
      | Some (what, n) \<Rightarrow>
          if \<not> ticked b then []
          else [case interface_names p n of
                  None \<Rightarrow> ''Remove and Reserve IP for interface?''
                | Some v \<Rightarrow>
                    if what = ''free'' then ''Remove and Free IPs for interface '' @ v @ ''?''
                    else ''Remove and Reserve IPs for interface '' @ v @ ''?''])"

definition box_ticked :: "device_form \<Rightarrow> string \<Rightarrow> bool" where
  "box_ticked p i \<longleftrightarrow> (case find (\<lambda>b. cid b = i) (checkboxes p) of None \<Rightarrow> False | Some b \<Rightarrow> ticked b)"

definition reset_question :: string where
  "reset_question = ''You have selected to resync all serial ports on this device.  This will remove all existing serial connections.  Only click YES if you know what you'' @ [CHR 0x27] @ ''re doing.''"

definition retire_question :: string where
  "retire_question = ''You have selected to RETIRE the box.  Only click yes if you want to remove the device characteristics from the database''"

definition no_retire :: string where
  "no_retire = ''You may not both retire a box and rest serial ports to default.''"

definition questions :: "device_form \<Rightarrow> string list" where
  "questions p =
     concat (map (interface_question p) (checkboxes p))
     @ (if box_ticked p ''chk_dev_port_reset'' then [reset_question] else [])
     @ (if box_ticked p ''chk_dev_retire'' \<and> \<not> box_ticked p ''chk_dev_port_reset'' then [retire_question] else [])"

definition refusals :: "device_form \<Rightarrow> string list" where
  "refusals p =
     (if box_ticked p ''chk_dev_retire'' \<and> box_ticked p ''chk_dev_port_reset'' then [no_retire] else [])"

definition switch_fields :: "device_form \<Rightarrow> (string \<times> string) list" where
  "switch_fields p = map (\<lambda>(n, s). (n, case s of None \<Rightarrow> [] | Some v \<Rightarrow> v)) (switches p)"

text \<open>
  The handler of the submission.  Some field may have asked that the form is not submitted once;
  otherwise the toggles are added as hidden fields, and the dialog asks what there is to ask.
\<close>

definition verify_device_submission :: "device_form \<Rightarrow> bool \<times> device_form" where
  "verify_device_submission p =
     (if dontSubmit p then (False, p\<lparr>dontSubmit := False\<rparr>)
      else
        let p1 = p\<lparr>hiddens := hiddens p @ switch_fields p, verify_box := Closed\<rparr> in
        if refusals p1 \<noteq> [] then (False, p1\<lparr>verify_box := Refusal (refusals p1)\<rparr>)
        else if questions p1 \<noteq> [] then (False, p1\<lparr>verify_box := Question (questions p1)\<rparr>)
        else (True, p1))"

text \<open>\<open>form.submit()\<close> posts the form as it is: the handler is not called.\<close>

definition post_form :: "device_form \<Rightarrow> device_form" where
  "post_form p = p\<lparr>posts := posts p @ [(hiddens p, filter ticked (checkboxes p))]\<rparr>"

definition submit_click :: "device_form \<Rightarrow> device_form" where
  "submit_click p = (let (go, q) = verify_device_submission p in if go then post_form q else q)"

definition yes_button :: "device_form \<Rightarrow> device_form" where
  "yes_button p = (case verify_box p of Question ms \<Rightarrow> post_form p | _ \<Rightarrow> p)"

text \<open>\<open>No\<close> closes a question and \<open>Close\<close> a refusal.\<close>

definition no_button :: "device_form \<Rightarrow> device_form" where
  "no_button p = p\<lparr>verify_box := Closed\<rparr>"

datatype device_event = SubmitDevice | YesButton | NoButton | TickBox nat bool | SetSwitch nat string | HoldSubmit

definition device_step :: "device_form \<Rightarrow> device_event \<Rightarrow> device_form" where
  "device_step p ev =
     (case ev of
        SubmitDevice \<Rightarrow> submit_click p
      | YesButton \<Rightarrow> yes_button p
      | NoButton \<Rightarrow> no_button p
      | TickBox i v \<Rightarrow> p\<lparr>checkboxes := (checkboxes p)[i := (checkboxes p ! i)\<lparr>ticked := v\<rparr>]\<rparr>
      | SetSwitch i v \<Rightarrow> p\<lparr>switches := (switches p)[i := (fst (switches p ! i), Some v)]\<rparr>
      | HoldSubmit \<Rightarrow> p\<lparr>dontSubmit := True\<rparr>)"

section \<open>What is asked\<close>

text \<open>The checkboxes of dangerous changes, and pages on which no identifier is used twice.\<close>

definition dangerous :: "checkbox \<Rightarrow> bool" where
  "dangerous b \<longleftrightarrow> match_rm (cname b) \<noteq> None \<or> cid b \<in> {''chk_dev_port_reset'', ''chk_dev_retire''}"

definition ids_once :: "device_form \<Rightarrow> bool" where
  "ids_once p \<longleftrightarrow> distinct (filter (\<lambda>i. i \<noteq> []) (map cid (checkboxes p)))"

lemma find_distinct:
  "distinct (filter P (map f xs)) \<Longrightarrow> x \<in> set xs \<Longrightarrow> P (f x) \<Longrightarrow> find (\<lambda>y. f y = f x) xs = Some x"
  by (induction xs) (auto simp: image_iff split: if_splits)

lemma box_ticked_mem:
  "ids_once p \<Longrightarrow> b \<in> set (checkboxes p) \<Longrightarrow> cid b \<noteq> [] \<Longrightarrow> ticked b \<Longrightarrow> box_ticked p (cid b)"
  unfolding box_ticked_def ids_once_def by (simp add: find_distinct)

lemma interface_question_Nil: "interface_question p b = [] \<longleftrightarrow> match_rm (cname b) = None \<or> \<not> ticked b"
  by (simp add: interface_question_def split: option.split prod.split)

lemma nothing_asked:
  assumes "ids_once p" "questions p = []" "refusals p = []" "b \<in> set (checkboxes p)" "ticked b"
  shows "\<not> dangerous b"
proof -
  have q: "\<forall>b \<in> set (checkboxes p). interface_question p b = []" "\<not> box_ticked p ''chk_dev_port_reset''"
    "\<not> box_ticked p ''chk_dev_retire''"
    using assms(2) by (auto simp: questions_def split: if_splits)
  have "match_rm (cname b) = None" using q(1) assms(4,5) interface_question_Nil by blast
  moreover have "cid b \<notin> {''chk_dev_port_reset'', ''chk_dev_retire''}"
    using box_ticked_mem [OF assms(1,4) _ assms(5)] q(2,3) by auto
  ultimately show ?thesis by (simp add: dangerous_def)
qed

lemma verify_cases:
  obtains (held) "dontSubmit p" "verify_device_submission p = (False, p\<lparr>dontSubmit := False\<rparr>)"
  | (refused) "\<not> dontSubmit p" "refusals p \<noteq> []"
      "verify_device_submission p = (False, p\<lparr>hiddens := hiddens p @ switch_fields p, verify_box := Refusal (refusals p)\<rparr>)"
  | (asked) "\<not> dontSubmit p" "refusals p = []" "questions p \<noteq> []"
      "verify_device_submission p = (False, p\<lparr>hiddens := hiddens p @ switch_fields p, verify_box := Question (questions p)\<rparr>)"
  | (posted) "\<not> dontSubmit p" "refusals p = []" "questions p = []"
      "verify_device_submission p = (True, p\<lparr>hiddens := hiddens p @ switch_fields p, verify_box := Closed\<rparr>)"
proof -
  have "interface_question (p\<lparr>hiddens := h, verify_box := v\<rparr>) = interface_question p" for h v
    by (rule ext) (simp add: interface_question_def cong: if_cong option.case_cong)
  then have "refusals (p\<lparr>hiddens := h, verify_box := v\<rparr>) = refusals p"
    "questions (p\<lparr>hiddens := h, verify_box := v\<rparr>) = questions p" for h v
    by (simp_all add: refusals_def questions_def box_ticked_def)
  then show thesis
    using that by (cases "dontSubmit p"; cases "refusals p = []"; cases "questions p = []")
      (simp_all add: verify_device_submission_def Let_def)
qed

definition harmless :: "device_form \<Rightarrow> bool" where
  "harmless p \<longleftrightarrow> ids_once p \<and> (\<forall>h bs. (h, bs) \<in> set (posts p) \<longrightarrow> \<not> list_ex dangerous bs)"

lemma submit_harmless:
  assumes "harmless p"
  shows "harmless (submit_click p)"
proof (cases rule: verify_cases [of p])
  case posted
  have "\<not> list_ex dangerous (filter ticked (checkboxes p))"
    using nothing_asked [OF _ posted(3,2)] assms by (auto simp: harmless_def list_ex_iff)
  then show ?thesis using assms posted(4) by (auto simp: harmless_def submit_click_def post_form_def ids_once_def)
qed (use assms in \<open>simp_all add: harmless_def submit_click_def ids_once_def\<close>)

lemma device_step_harmless:
  assumes "harmless p" "ev \<noteq> YesButton"
  shows "harmless (device_step p ev)"
proof (cases ev)
  case (TickBox i v)
  have "map cid ((checkboxes p)[i := (checkboxes p ! i)\<lparr>ticked := v\<rparr>]) = map cid (checkboxes p)"
    by (metis (no_types, lifting) checkbox.select_convs(2) checkbox.surjective checkbox.update_convs(3) list_update_id map_update)
  then show ?thesis using assms(1) TickBox by (simp add: device_step_def harmless_def ids_once_def)
next
  case SubmitDevice
  then show ?thesis using submit_harmless [OF assms(1)] by (simp add: device_step_def)
qed (use assms in \<open>simp_all add: device_step_def no_button_def harmless_def ids_once_def\<close>)

interpretation unasked: handled device_step "\<lambda>ev. ev \<noteq> YesButton" harmless
  by unfold_locales (rule device_step_harmless)

text \<open>
  C7: Without a \<open>Yes\<close> nothing dangerous is submitted: whatever is ticked, toggled and submitted in whatever
  order, no form that is posted has a ticked checkbox that removes an interface, retires the device or
  resets its ports.
\<close>

theorem unasked_posts_harmless:
  assumes "ids_once p" "posts p = []" "YesButton \<notin> set evs" "(h, bs) \<in> set (posts (foldl device_step p evs))" "b \<in> set bs"
  shows "\<not> dangerous b"
proof -
  have "harmless (foldl device_step p evs)"
    using assms(1-3) by (intro unasked.run_ok) (auto simp: harmless_def)
  then show ?thesis using assms(4,5) by (auto simp: harmless_def list_ex_iff)
qed

text \<open>
  C38: The question is not asked again: a form whose submission asks before the device is retired can have
  the reset of its ports ticked before \<open>Yes\<close>, and is posted with both, although a submission with both
  ticked is refused.
\<close>

theorem retire_and_reset_posted:
  assumes "ids_once p" "\<not> dontSubmit p" "i < length (checkboxes p)" "j < length (checkboxes p)"
    and "cid (checkboxes p ! i) = ''chk_dev_retire''" "cid (checkboxes p ! j) = ''chk_dev_port_reset''"
    and "ticked (checkboxes p ! i)" "\<not> ticked (checkboxes p ! j)"
  shows "(\<exists>h bs. last (posts (foldl device_step p [SubmitDevice, TickBox j True, YesButton])) = (h, bs)
      \<and> {''chk_dev_retire'', ''chk_dev_port_reset''} \<subseteq> cid ` set bs)
    \<and> \<not> fst (verify_device_submission (device_step p (TickBox j True)))
    \<and> refusals (device_step p (TickBox j True)) = [no_retire]"
proof -
  let ?bs = "(checkboxes p)[j := (checkboxes p ! j)\<lparr>ticked := True\<rparr>]" and ?q = "device_step p (TickBox j True)"
  have ij: "i \<noteq> j" using assms(5,6) by auto
  have o: "ids_once ?q"
    using device_step_harmless [of "p\<lparr>posts := []\<rparr>" "TickBox j True"] assms(1)
    by (simp add: harmless_def ids_once_def device_step_def)
  have r: "box_ticked p ''chk_dev_retire''"
    using box_ticked_mem [OF assms(1) nth_mem [OF assms(3)]] assms(5,7) by simp
  have nr: "\<not> box_ticked p ''chk_dev_port_reset''"
    using find_distinct [OF _ nth_mem [OF assms(4)], of "\<lambda>i. i \<noteq> []" cid] assms(1,6,8) by (simp add: box_ticked_def ids_once_def)
  have b: "(checkboxes p ! i) \<in> set ?bs" "(checkboxes p ! j)\<lparr>ticked := True\<rparr> \<in> set ?bs"
    using assms(3,4) ij by (metis length_list_update nth_list_update_neq nth_mem, simp add: set_update_memI)
  have both: "box_ticked ?q ''chk_dev_retire''" "box_ticked ?q ''chk_dev_port_reset''"
    using box_ticked_mem [OF o, of "checkboxes p ! i"] box_ticked_mem [OF o, of "(checkboxes p ! j)\<lparr>ticked := True\<rparr>"] b assms(5-7)
    by (simp_all add: device_step_def)
  have "questions p \<noteq> []" "refusals p = []" using r nr by (simp_all add: questions_def refusals_def)
  then have v: "verify_device_submission p
      = (False, p\<lparr>hiddens := hiddens p @ switch_fields p, verify_box := Question (questions p)\<rparr>)"
    using assms(2) by (cases rule: verify_cases [of p]) simp_all
  have "posts (foldl device_step p [SubmitDevice, TickBox j True, YesButton])
      = posts p @ [(hiddens p @ switch_fields p, filter ticked ?bs)]"
    using v by (simp add: device_step_def submit_click_def yes_button_def post_form_def)
  moreover have "checkboxes p ! i \<in> set (filter ticked ?bs)" "(checkboxes p ! j)\<lparr>ticked := True\<rparr> \<in> set (filter ticked ?bs)"
    using b assms(7) by simp_all
  then have "{''chk_dev_retire'', ''chk_dev_port_reset''} \<subseteq> cid ` set (filter ticked ?bs)"
    using assms(5,6) by (force simp: image_iff)
  moreover have "refusals ?q = [no_retire]" using both by (simp add: refusals_def)
  moreover have "\<not> fst (verify_device_submission ?q)"
    using \<open>refusals ?q = [no_retire]\<close> by (cases rule: verify_cases [of ?q]) simp_all
  ultimately show ?thesis by simp
qed

text \<open>The fields of the toggles stay in the form.\<close>

definition keeps_switches :: "(string \<times> string) list \<Rightarrow> device_form \<Rightarrow> bool" where
  "keeps_switches fs p \<longleftrightarrow> prefix fs (hiddens p) \<and> (\<forall>h bs. (h, bs) \<in> set (posts p) \<longrightarrow> prefix fs h)"

lemma keeps_switches_step:
  assumes "keeps_switches fs p"
  shows "keeps_switches fs (device_step p ev)"
proof (cases ev)
  case SubmitDevice
  have "prefix fs (hiddens p @ xs)" for xs using assms by (simp add: keeps_switches_def)
  then show ?thesis using assms SubmitDevice
    by (cases rule: verify_cases [of p]) (auto simp: device_step_def submit_click_def post_form_def keeps_switches_def)
qed (use assms in \<open>auto simp: device_step_def keeps_switches_def yes_button_def no_button_def post_form_def split: verify_dialog.split\<close>)

interpretation switch_log: handled device_step "\<lambda>_. True" "keeps_switches fs"
  by unfold_locales (rule keeps_switches_step)

text \<open>
  C11: A submission that is asked about or refused leaves the states of the toggles in the form.  Every
  form posted later, whatever was toggled in between, carries for each toggle the old state first: the
  server, which reads the first value of a name, gets the state the toggle had then.
\<close>

theorem refused_states_posted_first:
  assumes "hiddens p = []" "posts p = []" "\<not> dontSubmit p" "\<not> fst (verify_device_submission p)"
    and "(h, bs) \<in> set (posts (foldl device_step p (SubmitDevice # evs)))" "(n, s) \<in> set (switches p)"
  shows "map_of h n = map_of (switch_fields p) n \<and> map_of h n \<noteq> None"
proof -
  have "hiddens (submit_click p) = switch_fields p" "posts (submit_click p) = []"
    using assms(1-4) by (cases rule: verify_cases [of p]; simp add: submit_click_def)+
  then have "keeps_switches (switch_fields p) (device_step p SubmitDevice)"
    by (simp add: keeps_switches_def device_step_def)
  then have "keeps_switches (switch_fields p) (foldl device_step p (SubmitDevice # evs))"
    unfolding foldl.simps by (rule switch_log.run_ok) simp
  then obtain xs where h: "h = switch_fields p @ xs" using assms(5) by (auto simp: keeps_switches_def prefix_def)
  have "n \<in> fst ` set (switch_fields p)" using assms(6) by (force simp: switch_fields_def)
  then have "map_of (switch_fields p) n \<noteq> None" by (simp add: map_of_eq_None_iff)
  then show ?thesis by (auto simp: h map_add_def)
qed

definition demo_device :: device_form where
  "demo_device = \<lparr>switches = [(''NETBLOCK_TOGGLE_5'', Some ''delete'')], hiddens = [],
     checkboxes = [\<lparr>cname = ''chk_dev_retire'', cid = ''chk_dev_retire'', ticked = True\<rparr>,
       \<lparr>cname = ''chk_dev_port_reset'', cid = ''chk_dev_port_reset'', ticked = False\<rparr>,
       \<lparr>cname = ''rm_free_INTERFACE_12'', cid = [], ticked = False\<rparr>],
     interface_names = [''12'' \<mapsto> ''eth0''], dontSubmit = False, verify_box = Closed, posts = []\<rparr>"

theorem unasked_posts_harmless_witness:
  "\<not> dangerous \<lparr>cname = ''chk_web'', cid = [], ticked = True\<rparr>"
proof -
  let ?b = "\<lparr>cname = ''chk_web'', cid = [], ticked = True\<rparr>"
  let ?p = "demo_device\<lparr>checkboxes := checkboxes demo_device @ [?b]\<rparr>"
  have "ids_once ?p" "posts ?p = []" by code_simp+
  moreover have "posts (foldl device_step ?p [SubmitDevice, NoButton, TickBox 0 False, SubmitDevice])
      = [([(''NETBLOCK_TOGGLE_5'', ''delete''), (''NETBLOCK_TOGGLE_5'', ''delete'')], [?b])]"
    by code_simp
  ultimately show ?thesis
    using unasked_posts_harmless [of ?p "[SubmitDevice, NoButton, TickBox 0 False, SubmitDevice]" _ "[?b]" ?b] by simp
qed

theorem retire_and_reset_posted_witness:
  "refusals (device_step demo_device (TickBox 1 True)) = [no_retire]"
proof -
  have "ids_once demo_device" "\<not> dontSubmit demo_device" "length (checkboxes demo_device) = 3"
    "cid (checkboxes demo_device ! 0) = ''chk_dev_retire''" "cid (checkboxes demo_device ! 1) = ''chk_dev_port_reset''"
    "ticked (checkboxes demo_device ! 0)" "\<not> ticked (checkboxes demo_device ! 1)" by code_simp+
  then show ?thesis using retire_and_reset_posted [of demo_device 0 1] by simp
qed

text \<open>The netblock is to be deleted; after \<open>No\<close> it is only to be updated, and still is deleted.\<close>

theorem refused_states_posted_first_witness:
  "map_of [(''NETBLOCK_TOGGLE_5'', ''delete''), (''NETBLOCK_TOGGLE_5'', ''update'')] ''NETBLOCK_TOGGLE_5''
     = map_of (switch_fields demo_device) ''NETBLOCK_TOGGLE_5''"
proof -
  have p: "posts (foldl device_step demo_device
      (SubmitDevice # [NoButton, TickBox 0 False, SetSwitch 0 ''update'', SubmitDevice]))
    = [([(''NETBLOCK_TOGGLE_5'', ''delete''), (''NETBLOCK_TOGGLE_5'', ''update'')], [])]" by code_simp
  have "hiddens demo_device = []" "posts demo_device = []" "\<not> dontSubmit demo_device"
    "\<not> fst (verify_device_submission demo_device)" "(''NETBLOCK_TOGGLE_5'', Some ''delete'') \<in> set (switches demo_device)"
    by code_simp+
  then show ?thesis
    using refused_states_posted_first [of demo_device _ "[]" "[NoButton, TickBox 0 False, SetSwitch 0 ''update'', SubmitDevice]"
        "''NETBLOCK_TOGGLE_5''" "Some ''delete''"] unfolding p by simp
qed

end
