(* ===== verification/DevicePage.thy ===== *)
theory DevicePage
  imports StabCommon
begin

text \<open>
  \<open>device-utils.js\<close>, small handlers of the device page: edit buttons, groups of elements of which one is
  shown at a time, checkboxes that exclude each other, and the name of an interface.
\<close>

section \<open>Handlers\<close>

definition toggleon_td :: "nat \<Rightarrow> dom \<Rightarrow> dom" where
  "toggleon_td but d =
     (case getr d but of
        None \<Rightarrow> d
      | Some b \<Rightarrow>
          upd but (add_class ''irrelevant'')
            (case closest d (\<lambda>e. tag e = ''td'') b of
               None \<Rightarrow> d | Some t \<Rightarrow> upd_refs (find_in d (ref t) (has ''off'')) (rm_class ''off'') d))"

text \<open>The test of the value is an assignment, which holds: the checkbox need not be ticked.\<close>

definition uncheck :: "string \<Rightarrow> string \<Rightarrow> dom \<Rightarrow> dom" where
  "uncheck i restoclass d =
     (case by_id d i of
        None \<Rightarrow> d
      | Some me \<Rightarrow>
          upd_where (\<lambda>e. tag e = ''input'' \<and> class_name e = restoclass \<and> ref e \<noteq> ref me) (\<lambda>e. e\<lparr>on := False\<rparr>)
            (upd (ref me) (\<lambda>e. e\<lparr>val := ''on''\<rparr>) d))"

definition show_more_click :: "nat \<Rightarrow> dom \<Rightarrow> dom" where
  "show_more_click a d =
     (case Option.bind (getr d a) (closest d (\<lambda>e. tag e = ''td'')) of
        None \<Rightarrow> d
      | Some t \<Rightarrow>
          let tables = find_in d (ref t) (\<lambda>e. tag e = ''table'' \<and> has ''intmoretable'' e) in
          upd_refs tables (if list_ex (has ''irrelevant'') tables then rm_class ''irrelevant'' else add_class ''irrelevant'') d)"

definition component_type_change :: "nat \<Rightarrow> dom \<Rightarrow> dom" where
  "component_type_change s d =
     (case getr d s of
        None \<Rightarrow> d
      | Some e \<Rightarrow>
          (case closest d (\<lambda>e. tag e = ''table'') e of
             None \<Rightarrow> d
           | Some t \<Rightarrow>
               upd_refs (find_in d (ref t) (has ''componentfields''))
                 (if value_of d e = ''__unknown__'' then add_class ''off'' else rm_class ''off'') d))"

text \<open>The answer holds the attributes of the field, of the drop-down and of its options.\<close>

definition replace_int_dns_drop ::
  "nat \<Rightarrow> (string \<times> string) list \<Rightarrow> (string \<times> string) list \<Rightarrow> (string \<times> string) list list \<Rightarrow> dom \<Rightarrow> dom" where
  "replace_int_dns_drop obj name' domain opts d =
     append_to obj [el ''input'' name' [] [], el ''select'' domain [] (map (\<lambda>o'. el ''option'' o' [] []) opts)] (empty_el obj d)"

section \<open>Showing one element of a group\<close>

definition content_name :: "string \<Rightarrow> string" where
  "content_name i = replace_first ''control'' ''content'' i"

text \<open>\<open>s.replace(/_[^_]*$/, '')\<close>\<close>

definition cut_last :: "string \<Rightarrow> string" where
  "cut_last s = (if CHR ''_'' \<in> set s then rev (tl (dropWhile (\<lambda>c. c \<noteq> CHR ''_'') (rev s))) else s)"

text \<open>\<open>[a^="g"]\<close>, which nothing matches when \<open>g\<close> is empty, but not \<open>[a="x"]\<close>.\<close>

definition others :: "string \<Rightarrow> string \<Rightarrow> string \<Rightarrow> elem \<Rightarrow> bool" where
  "others a g x e \<longleftrightarrow> g \<noteq> [] \<and> (case attrs e a of None \<Rightarrow> False | Some v \<Rightarrow> prefix g v \<and> v \<noteq> x)"

definition showhide_one :: "nat \<Rightarrow> string \<Rightarrow> nat \<Rightarrow> dom \<Rightarrow> dom" where
  "showhide_one me i r d =
     (case getr d r of
        None \<Rightarrow> d
      | Some t \<Rightarrow>
          if has ''irrelevant'' t
          then upd_where (others ''name'' (cut_last (content_name i)) (content_name i)) (add_class ''irrelevant'')
            (upd r (rm_class ''irrelevant'')
              (upd_where (others ''id'' (cut_last i) i) (rm_class ''toggled'') (upd me (add_class ''toggled'') d)))
          else upd r (add_class ''irrelevant'') (upd me (rm_class ''toggled'') d))"

definition showhide :: "nat \<Rightarrow> dom \<Rightarrow> dom" where
  "showhide me d =
     (case getr d me of
        None \<Rightarrow> d
      | Some e \<Rightarrow>
          let i = (case attrs e ''id'' of None \<Rightarrow> [] | Some i \<Rightarrow> i) in
          fold (showhide_one me i) (map ref (filter (\<lambda>x. attrs x ''name'' = Some (content_name i)) d)) d)"

section \<open>At most one is shown\<close>

text \<open>
  The group: its controls and contents.  \<open>sel\<close> is the control that is open: it alone is toggled, and its
  contents alone are visible.
\<close>

definition group_page :: "string \<Rightarrow> string \<Rightarrow> dom \<Rightarrow> bool" where
  "group_page gc gn d \<longleftrightarrow>
     distinct (map ref d) \<and> gc \<noteq> [] \<and> gn \<noteq> []
     \<and> (\<forall>e \<in> set d. \<forall>i. attrs e ''id'' = Some i \<and> prefix gc i \<longrightarrow>
          cut_last i = gc \<and> cut_last (content_name i) = gn \<and> prefix gn (content_name i)
          \<and> (\<exists>x \<in> set d. attrs x ''name'' = Some (content_name i))
          \<and> (\<forall>x \<in> set d. \<forall>j. attrs x ''id'' = Some j \<and> prefix gc j \<and> content_name j = content_name i \<longrightarrow> ref x = ref e))"

definition opened :: "string \<Rightarrow> string \<Rightarrow> string option \<Rightarrow> dom \<Rightarrow> bool" where
  "opened gc gn sel d \<longleftrightarrow>
     (\<forall>e \<in> set d. \<forall>i. attrs e ''id'' = Some i \<and> prefix gc i \<longrightarrow> (has ''toggled'' e \<longleftrightarrow> sel = Some i))
     \<and> (\<forall>e \<in> set d. \<forall>n. attrs e ''name'' = Some n \<and> prefix gn n \<longrightarrow>
          (has ''irrelevant'' e \<longleftrightarrow> map_option content_name sel \<noteq> Some n))
     \<and> (\<forall>i. sel = Some i \<longrightarrow> (\<exists>e \<in> set d. attrs e ''id'' = Some i \<and> prefix gc i))"

text \<open>What a click does to one element, when it opens the control \<open>i\<close> and when it closes it.\<close>

definition open_el :: "nat \<Rightarrow> string \<Rightarrow> nat set \<Rightarrow> elem \<Rightarrow> elem" where
  "open_el me i R e =
     (let e1 = (if ref e = me then add_class ''toggled'' e else e);
          e2 = (if others ''id'' (cut_last i) i e then rm_class ''toggled'' e1 else e1);
          e3 = (if ref e \<in> R then rm_class ''irrelevant'' e2 else e2)
      in if others ''name'' (cut_last (content_name i)) (content_name i) e then add_class ''irrelevant'' e3 else e3)"

definition close_el :: "nat \<Rightarrow> nat set \<Rightarrow> elem \<Rightarrow> elem" where
  "close_el me R e =
     (let e1 = (if ref e = me then rm_class ''toggled'' e else e) in
      if ref e \<in> R then add_class ''irrelevant'' e1 else e1)"

lemma others_class [simp]:
  "others a g x (add_class c e) = others a g x e" "others a g x (rm_class c e) = others a g x e"
  by (simp_all add: others_def)

lemma open_el_simps [simp]:
  "ref (open_el me i R e) = ref e" "path (open_el me i R e) = path e" "attrs (open_el me i R e) = attrs e"
  "others a g x (open_el me i R e) = others a g x e"
  by (simp_all add: open_el_def Let_def)

lemma close_el_simps [simp]:
  "ref (close_el me R e) = ref e" "path (close_el me R e) = path e" "attrs (close_el me R e) = attrs e"
  by (simp_all add: close_el_def Let_def)

lemma open_el_has:
  "has ''toggled'' (open_el me i R e) \<longleftrightarrow>
     \<not> others ''id'' (cut_last i) i e \<and> (ref e = me \<or> has ''toggled'' e)"
  "has ''irrelevant'' (open_el me i R e) \<longleftrightarrow>
     others ''name'' (cut_last (content_name i)) (content_name i) e \<or> (ref e \<notin> R \<and> has ''irrelevant'' e)"
  by (auto simp: open_el_def Let_def)

lemma close_el_has:
  "has ''toggled'' (close_el me R e) \<longleftrightarrow> ref e \<noteq> me \<and> has ''toggled'' e"
  "has ''irrelevant'' (close_el me R e) \<longleftrightarrow> ref e \<in> R \<or> has ''irrelevant'' e"
  by (auto simp: close_el_def Let_def)

lemma open_first:
  assumes "getr d r = Some t" "has ''irrelevant'' t"
  shows "showhide_one me i r d = map (open_el me i {r}) d"
proof -
  have "(let e1 = (if ref e = me then add_class ''toggled'' e else e);
        e2 = (if others ''id'' (cut_last i) i e1 then rm_class ''toggled'' e1 else e1);
        e3 = (if ref e2 = r then rm_class ''irrelevant'' e2 else e2)
      in if others ''name'' (cut_last (content_name i)) (content_name i) e3 then add_class ''irrelevant'' e3 else e3)
    = open_el me i {r} e" for e
    by (cases "ref e = me"; cases "others ''id'' (cut_last i) i e"; cases "ref e = r") (simp_all add: open_el_def)
  then show ?thesis
    unfolding showhide_one_def upd_def upd_where_def using assms by (simp add: comp_def Let_def)
qed

lemma open_next:
  assumes "getr d r = Some t" "has ''irrelevant'' t" "r \<notin> R" "\<not> others ''name'' (cut_last (content_name i)) (content_name i) t"
    and "distinct (map ref d)" "\<And>e. e \<in> set d \<Longrightarrow> ref e = me \<Longrightarrow> \<not> others ''id'' (cut_last i) i e"
  shows "showhide_one me i r (map (open_el me i R) d) = map (open_el me i (insert r R)) d"
proof -
  have t: "ref t = r" using getr_Some [OF assms(1)] by simp
  have "getr (map (open_el me i R) d) r = Some (open_el me i R t)"
    using assms(1) getr_map [of "open_el me i R"] by (simp add: keeps_def)
  moreover have "has ''irrelevant'' (open_el me i R t)" using assms(2,3) t by (simp add: open_el_has)
  ultimately have "showhide_one me i r (map (open_el me i R) d) = map (open_el me i {r}) (map (open_el me i R) d)"
    by (rule open_first)
  moreover have "open_el me i {r} (open_el me i R e) = open_el me i (insert r R) e" if "e \<in> set d" for e
  proof -
    have "ref e = r \<Longrightarrow> e = t" using that assms(5) getr_Some [OF assms(1)] t by (metis getr_mem option.inject)
    then have "others ''name'' (cut_last (content_name i)) (content_name i) e \<Longrightarrow> ref e \<noteq> r" using assms(4) by auto
    then have n: "others ''name'' (cut_last (content_name i)) (content_name i) e \<Longrightarrow> ref e \<noteq> r" .
    let ?y = "open_el me i R e"
    have "ref e = me \<Longrightarrow> has ''toggled'' ?y" "others ''id'' (cut_last i) i e \<Longrightarrow> \<not> has ''toggled'' ?y"
      "others ''name'' (cut_last (content_name i)) (content_name i) e \<Longrightarrow> has ''irrelevant'' ?y"
      using assms(6) [OF that] by (simp_all add: open_el_has)
    then have "open_el me i {r} ?y = (if ref e = r then rm_class ''irrelevant'' ?y else ?y)"
      using n assms(6) [OF that] by (simp add: open_el_def [of me i "{r}"] Let_def)
    moreover have "open_el me i (insert r R) e = (if ref e = r then rm_class ''irrelevant'' ?y else ?y)"
      using n assms(3) by (auto simp: open_el_def [of me i "insert r R"] open_el_def [of me i R] Let_def)
    ultimately show ?thesis by simp
  qed
  ultimately show ?thesis by simp
qed

lemma open_all:
  assumes "distinct (map ref d)" "\<And>e. e \<in> set d \<Longrightarrow> ref e = me \<Longrightarrow> \<not> others ''id'' (cut_last i) i e"
    and "distinct rs" "rs \<noteq> []" "\<forall>r \<in> set rs. \<exists>t. getr d r = Some t \<and> has ''irrelevant'' t
      \<and> \<not> others ''name'' (cut_last (content_name i)) (content_name i) t"
  shows "fold (showhide_one me i) rs d = map (open_el me i (set rs)) d"
  using assms(4,3,5)
proof (induction rs rule: rev_nonempty_induct)
  case (single r)
  then show ?case using open_first by auto
next
  case (snoc r rs)
  obtain t where t: "getr d r = Some t" "has ''irrelevant'' t"
    "\<not> others ''name'' (cut_last (content_name i)) (content_name i) t" using snoc.prems(2) by auto
  have "fold (showhide_one me i) rs d = map (open_el me i (set rs)) d" using snoc.IH snoc.prems snoc.hyps by simp
  then show ?case using open_next [OF t(1,2) _ t(3) assms(1,2), of "set rs"] snoc.prems(1) by simp
qed

lemma close_one:
  assumes "getr d r = Some t" "\<not> has ''irrelevant'' t" "r \<notin> R"
  shows "showhide_one me i r (map (close_el me R) d) = map (close_el me (insert r R)) d"
proof -
  have t: "ref t = r" using getr_Some [OF assms(1)] by simp
  have "getr (map (close_el me R) d) r = Some (close_el me R t)"
    using assms(1) getr_map [of "close_el me R"] by (simp add: keeps_def)
  moreover have "\<not> has ''irrelevant'' (close_el me R t)" using assms(2,3) t by (simp add: close_el_has)
  ultimately show ?thesis using assms(3)
    by (auto simp: showhide_one_def upd_def close_el_def Let_def)
qed

lemma close_all:
  assumes "distinct rs" "rs \<noteq> []" "\<forall>r \<in> set rs. \<exists>t. getr d r = Some t \<and> \<not> has ''irrelevant'' t"
  shows "fold (showhide_one me i) rs d = map (close_el me (set rs)) d"
  using assms(2,1,3)
proof (induction rs rule: rev_nonempty_induct)
  case (single r)
  then show ?case by (auto simp: showhide_one_def upd_def close_el_def Let_def)
next
  case (snoc r rs)
  then show ?case using close_one [of d r _ "set rs"] by auto
qed

lemma group_page_map:
  assumes "\<And>e. ref (f e) = ref e" "\<And>e. attrs (f e) = attrs e"
  shows "group_page gc gn (map f d) = group_page gc gn d"
  using assms by (simp add: group_page_def comp_def)

lemma click_opens:
  assumes g: "group_page gc gn d" "opened gc gn sel d" and e: "e \<in> set d" "attrs e ''id'' = Some i" "prefix gc i"
  shows "group_page gc gn (showhide (ref e) d) \<and> opened gc gn (if sel = Some i then None else Some i) (showhide (ref e) d)"
proof -
  let ?T = "filter (\<lambda>x. attrs x ''name'' = Some (content_name i)) d" and ?me = "ref e"
  have d: "distinct (map ref d)" "gc \<noteq> []" "gn \<noteq> []" using g(1) by (simp_all add: group_page_def)
  have c: "cut_last i = gc" "cut_last (content_name i) = gn" "prefix gn (content_name i)"
    "\<exists>x \<in> set d. attrs x ''name'' = Some (content_name i)" using g(1) e unfolding group_page_def by blast+
  have same: "ref x = ref e" if "x \<in> set d" "attrs x ''id'' = Some j" "prefix gc j" "content_name j = content_name i" for x j
    using g(1) e that unfolding group_page_def by blast
  have one: "x = e" if "x \<in> set d" "ref x = ref e" for x using that e(1) d(1) by (metis getr_mem option.inject)
  have s: "showhide ?me d = fold (showhide_one ?me i) (map ref ?T) d"
    using getr_mem [OF d(1) e(1)] e(2) by (simp add: showhide_def)
  have rs: "distinct (map ref ?T)" "map ref ?T \<noteq> []" using d(1) c(4) by (auto simp: distinct_map_filter filter_empty_conv)
  have R: "ref x \<in> set (map ref ?T) \<longleftrightarrow> attrs x ''name'' = Some (content_name i)" if "x \<in> set d" for x
    using that d(1) by (auto simp: image_iff) (metis getr_mem option.inject)
  have T: "\<exists>x. getr d r = Some x \<and> x \<in> set d \<and> attrs x ''name'' = Some (content_name i)" if "r \<in> set (map ref ?T)" for r
    using that getr_mem [OF d(1)] by auto
  have irr: "has ''irrelevant'' x \<longleftrightarrow> map_option content_name sel \<noteq> Some n"
    if "x \<in> set d" "attrs x ''name'' = Some n" "prefix gn n" for x n
    using g(2) that unfolding opened_def by blast
  have tog: "has ''toggled'' x \<longleftrightarrow> sel = Some j" if "x \<in> set d" "attrs x ''id'' = Some j" "prefix gc j" for x j
    using g(2) that unfolding opened_def by blast
  show ?thesis
  proof (cases "sel = Some i")
    case True
    have "\<exists>t. getr d r = Some t \<and> \<not> has ''irrelevant'' t" if "r \<in> set (map ref ?T)" for r
      using T [OF that] irr c(3) True by fastforce
    then have m: "showhide ?me d = map (close_el ?me (set (map ref ?T))) d" using s close_all rs by metis
    have "\<not> has ''toggled'' (close_el ?me (set (map ref ?T)) x)" if "x \<in> set d" "attrs x ''id'' = Some j" "prefix gc j" for x j
      using tog [OF that] same [OF that] True by (auto simp: close_el_has)
    moreover have "has ''irrelevant'' (close_el ?me (set (map ref ?T)) x)" if "x \<in> set d" "attrs x ''name'' = Some n" "prefix gn n" for x n
      using irr [OF that] R [OF that(1)] that(2) True by (simp only: close_el_has) auto
    ultimately show ?thesis unfolding m using g(1) True by (simp add: group_page_map opened_def) blast
  next
    case False
    have no: "map_option content_name sel \<noteq> Some (content_name i)"
    proof
      assume "map_option content_name sel = Some (content_name i)"
      then obtain j where j: "sel = Some j" "content_name j = content_name i" by auto
      then obtain x where x: "x \<in> set d" "attrs x ''id'' = Some j" "prefix gc j" using g(2) unfolding opened_def by blast
      then have "x = e" using same [OF x j(2)] one by blast
      then show False using x(2) e(2) j(1) False by simp
    qed
    have "\<exists>t. getr d r = Some t \<and> has ''irrelevant'' t \<and> \<not> others ''name'' (cut_last (content_name i)) (content_name i) t"
      if "r \<in> set (map ref ?T)" for r
      using T [OF that] irr c(3) no by (fastforce simp: others_def)
    moreover have "\<not> others ''id'' (cut_last i) i x" if "x \<in> set d" "ref x = ?me" for x
      using one [OF that] e(2) by (simp add: others_def)
    ultimately have m: "showhide ?me d = map (open_el ?me i (set (map ref ?T))) d"
      using s open_all [OF d(1) _ rs] by metis
    have "has ''toggled'' (open_el ?me i (set (map ref ?T)) x) \<longleftrightarrow> j = i" if "x \<in> set d" "attrs x ''id'' = Some j" "prefix gc j" for x j
      using same [OF that] that(2,3) c(1) d(2) by (auto simp: open_el_has others_def)
    moreover have "has ''irrelevant'' (open_el ?me i (set (map ref ?T)) x) \<longleftrightarrow> n \<noteq> content_name i"
      if "x \<in> set d" "attrs x ''name'' = Some n" "prefix gn n" for x n
      using R [OF that(1)] that(2,3) c(2) d(3) by (simp only: open_el_has others_def) auto
    ultimately show ?thesis unfolding m using g(1) False e by (auto simp: group_page_map opened_def)
  qed
qed

definition click_control :: "dom \<Rightarrow> string \<Rightarrow> dom" where
  "click_control d i = (case id_ref d i of None \<Rightarrow> d | Some r \<Rightarrow> showhide r d)"

lemma click_keeps_ids:
  assumes "group_page gc gn d" "opened gc gn sel d" "\<exists>e \<in> set d. attrs e ''id'' = Some i" "prefix gc i"
  shows "group_page gc gn (click_control d i) \<and> opened gc gn (if sel = Some i then None else Some i) (click_control d i)"
proof -
  obtain e where e: "by_id d i = Some e" using assms(3) by (metis by_id_None option.exhaust)
  then have "click_control d i = showhide (ref e) d" by (simp add: click_control_def id_ref_def)
  then show ?thesis using click_opens [OF assms(1,2) _ _ assms(4), of e] by_id_Some [OF e] by simp
qed

text \<open>The identifiers of the page stay as they are, so every session goes on as it began.\<close>

lemma showhide_one_ids:
  "map (\<lambda>e. attrs e a) (showhide_one me i r d) = map (\<lambda>e. attrs e a) d"
  by (simp add: showhide_one_def upd_def upd_where_def comp_def if_distrib [of attrs] split: option.split cong: if_cong)

lemma click_control_ids: "map (\<lambda>e. attrs e a) (click_control d i) = map (\<lambda>e. attrs e a) d"
proof -
  have "map (\<lambda>e. attrs e a) (fold (showhide_one me i) rs d) = map (\<lambda>e. attrs e a) d" for me i rs d
    by (induction rs arbitrary: d) (simp_all add: showhide_one_ids)
  then show ?thesis by (simp add: click_control_def showhide_def Let_def split: option.split)
qed

lemma ex_attrs: "(\<exists>e \<in> set d. attrs e a = Some i) \<longleftrightarrow> Some i \<in> set (map (\<lambda>e. attrs e a) d)"
  by (auto simp: image_iff) metis

text \<open>
  C20: A group whose elements are all hidden shows at most one control's contents at a time, whatever its
  controls are clicked: it behaves as a selection that a click sets, or clears when it was set to the same
  control.  The control selected, and no other, is toggled; its contents, and no others, are visible.
\<close>

theorem one_content_shown:
  assumes "group_page gc gn d" "opened gc gn None d"
    and "\<forall>i \<in> set cs. prefix gc i \<and> (\<exists>e \<in> set d. attrs e ''id'' = Some i)"
  shows "opened gc gn (foldl (\<lambda>sel i. if sel = Some i then None else Some i) None cs) (foldl click_control d cs)"
proof -
  have "group_page gc gn (foldl click_control d cs)
      \<and> opened gc gn (foldl (\<lambda>sel i. if sel = Some i then None else Some i) sel cs) (foldl click_control d cs)"
    if "group_page gc gn d" "opened gc gn sel d" "\<forall>i \<in> set cs. prefix gc i \<and> Some i \<in> set (map (\<lambda>e. attrs e ''id'') d)" for sel d
    using that
  proof (induction cs arbitrary: d sel)
    case (Cons i cs)
    have "\<exists>e \<in> set d. attrs e ''id'' = Some i" "prefix gc i" using Cons.prems(3) by (simp_all add: ex_attrs)
    note c = click_keeps_ids [OF Cons.prems(1,2) this]
    have "\<forall>i \<in> set cs. prefix gc i \<and> Some i \<in> set (map (\<lambda>e. attrs e ''id'') (click_control d i'))" for i'
      using Cons.prems(3) unfolding click_control_ids by simp
    from Cons.IH [OF conjunct1 [OF c] conjunct2 [OF c] this] show ?case by simp
  qed simp
  then show ?thesis using assms by (simp add: ex_attrs)
qed

definition demo_group :: dom where
  "demo_group = [(new_el ''span'' [(''id'', ''more_control_1'')] [])\<lparr>ref := 1\<rparr>,
     (new_el ''tr'' [(''name'', ''more_content_1'')] [''irrelevant''])\<lparr>ref := 2\<rparr>,
     (new_el ''span'' [(''id'', ''more_control_2'')] [])\<lparr>ref := 3\<rparr>,
     (new_el ''tr'' [(''name'', ''more_content_2'')] [''irrelevant''])\<lparr>ref := 4\<rparr>,
     (new_el ''tr'' [(''name'', ''more_content_2'')] [''irrelevant''])\<lparr>ref := 5\<rparr>]"

theorem one_content_shown_witness:
  "opened ''more_control'' ''more_content'' (Some ''more_control_2'')
     (foldl click_control demo_group [''more_control_1'', ''more_control_2''])"
proof -
  have "cut_last ''more_control_1'' = ''more_control''" "cut_last ''more_control_2'' = ''more_control''"
    "content_name ''more_control_1'' = ''more_content_1''" "content_name ''more_control_2'' = ''more_content_2''"
    "cut_last ''more_content_1'' = ''more_content''" "cut_last ''more_content_2'' = ''more_content''" by code_simp+
  then have "group_page ''more_control'' ''more_content'' demo_group"
    by (simp add: group_page_def demo_group_def new_el_def)
  moreover have "opened ''more_control'' ''more_content'' None demo_group"
    by (simp add: opened_def demo_group_def has_def new_el_def)
  ultimately show ?thesis
    using one_content_shown [of "''more_control''" "''more_content''" demo_group "[''more_control_1'', ''more_control_2'']"]
    by (simp add: demo_group_def new_el_def)
qed

end
