(* ===== verification/DeviceRows.thy ===== *)
theory DeviceRows
  imports StabCommon
begin

text \<open>
  \<open>device-utils.js\<close>, rows that are fetched when they are needed: the ports below a port group, the details
  of a circuit, and the licences that are added.  The tables of the page have their rows in one section,
  so that a row inserted at the next index follows the row clicked.
\<close>

section \<open>Rows below a row\<close>

definition table_at :: "dom \<Rightarrow> elem \<Rightarrow> elem option" where
  "table_at d e = closest d (\<lambda>x. tag x = ''table'') e"

definition kid_row :: "string \<Rightarrow> string \<Rightarrow> html" where
  "kid_row kid contents' =
     Html ((new_el ''tr'' [(''id'', kid)] [])\<lparr>disp := ''none''\<rparr>)
       [el ''td'' [] [] [], el_text ''td'' [(''colspan'', ''5'')] [] contents']"

definition toggle_kids :: "elem \<Rightarrow> string \<Rightarrow> dom \<Rightarrow> dom" where
  "toggle_kids k arr d =
     (if vis k = ''hidden''
      then swaparrows arr Down (upd (ref k) (\<lambda>e. e\<lparr>disp := [], vis := ''visible''\<rparr>) d)
      else swaparrows arr Up (upd (ref k) (\<lambda>e. e\<lparr>disp := ''none'', vis := ''hidden''\<rparr>) d))"

text \<open>
  The steps of all three functions: a row that is there is shown or hidden, another one is made and
  requested.  A row outside every table raises a \<open>TypeError\<close>: the search ends at the document.
\<close>

definition show_kids :: "string \<Rightarrow> string \<Rightarrow> string \<Rightarrow> string \<Rightarrow> string \<Rightarrow> page \<Rightarrow> page js" where
  "show_kids kid trid arr contents' url p =
     (case by_id (doc p) kid of
        Some k \<Rightarrow> Inr (p\<lparr>doc := toggle_kids k arr (doc p)\<rparr>)
      | None \<Rightarrow>
          (case by_id (doc p) trid of
             None \<Rightarrow> Inr p
           | Some ptr \<Rightarrow>
               if table_at (doc p) ptr = None then Inl TypeError
               else Inr (p\<lparr>doc := swaparrows arr Dance (insert_after (ref ptr) [kid_row kid contents'] (doc p)),
                           requests := requests p @ [url]\<rparr>)))"

definition showPhysPortKid_Groups :: "string \<Rightarrow> string \<Rightarrow> string \<Rightarrow> string \<Rightarrow> page \<Rightarrow> page js" where
  "showPhysPortKid_Groups devid i trid portname =
     show_kids (''kid_tr'' @ portname) trid (''kidXpand_'' @ i) []
       (''device-ajax.pl?what=SwitchportKids;parent='' @ portname @ '';DEVICE_ID='' @ devid)"

definition showCircuitKids :: "string \<Rightarrow> string \<Rightarrow> string \<Rightarrow> page \<Rightarrow> page js" where
  "showCircuitKids circid parent_tr_id interface_id =
     show_kids (''kid_tr'' @ interface_id) parent_tr_id (''cirExpand_'' @ circid) '' I am a total td''
       (''device-ajax.pl?what=Circuit;parent='' @ interface_id)"

text \<open>The answer fills the second cell of its row, \<open>tr\<close>, and undoes the row's \<open>display\<close> only.\<close>

definition kids_answer :: "nat \<Rightarrow> string \<Rightarrow> html list \<Rightarrow> dom \<Rightarrow> dom" where
  "kids_answer tr arr hs d =
     upd tr (\<lambda>e. e\<lparr>disp := []\<rparr>) (set_contents (tr + 2) hs (swaparrows arr Down d))"

section \<open>Licences\<close>

definition licence_name :: "string \<Rightarrow> nat \<Rightarrow> string" where
  "licence_name devid n = ''add_license_'' @ devid @ ''_'' @ nat_str n"

definition licence_row :: "string \<Rightarrow> nat \<Rightarrow> html" where
  "licence_row devid n =
     Html ((new_el ''tr'' [(''id'', ''addlictr_'' @ devid @ ''_'' @ nat_str n)] [])\<lparr>disp := ''none'', vis := ''hidden''\<rparr>)
       [el ''td'' [] [] [el_text ''a'' [] [] ''REMOVE''], el ''td'' [] [] []]"

definition licence_url :: "string \<Rightarrow> nat \<Rightarrow> string" where
  "licence_url devid n = ''device-ajax.pl?what=LicenseDrop;dropid='' @ licence_name devid n"

definition licence_taken :: "string \<Rightarrow> dom \<Rightarrow> nat \<Rightarrow> bool" where
  "licence_taken devid d n \<longleftrightarrow> by_id d (licence_name devid n) \<noteq> None"

definition add_License :: "nat \<Rightarrow> string \<Rightarrow> string \<Rightarrow> page \<Rightarrow> page js option" where
  "add_License thing parent_tr_id devid p =
     (case by_id (doc p) parent_tr_id of
        None \<Rightarrow> Some (Inr p)
      | Some ptr \<Rightarrow>
          map_option (\<lambda>n.
              if Option.bind (getr (doc p) thing) (table_at (doc p)) = None then Inl TypeError
              else Inr (p\<lparr>doc := insert_before (ref ptr) [licence_row devid n] (doc p),
                          requests := requests p @ [licence_url devid n]\<rparr>))
            (first_free (licence_taken devid (doc p)) 0))"

definition licence_answer :: "nat \<Rightarrow> html list \<Rightarrow> dom \<Rightarrow> dom" where
  "licence_answer tr hs d = upd tr (\<lambda>e. e\<lparr>disp := [], vis := ''visible''\<rparr>) (set_contents (tr + 3) hs d)"

definition remove_licence :: "nat \<Rightarrow> dom \<Rightarrow> dom" where
  "remove_licence tr d = detach tr d"

section \<open>Clicks before the answer\<close>

lemma by_id_inserted:
  assumes "getr d r = Some e" "by_id d i = None"
  shows "by_id (insert_after r hs d) i = by_id (place_list (path e) (fresh_ref d) hs) i"
    "by_id (insert_before r hs d) i = by_id (place_list (path e) (fresh_ref d) hs) i"
proof -
  have "r \<in> ref ` set d" using getr_Some [OF assms(1)] by auto
  then show "by_id (insert_after r hs d) i = by_id (place_list (path e) (fresh_ref d) hs) i"
    "by_id (insert_before r hs d) i = by_id (place_list (path e) (fresh_ref d) hs) i"
    using assms find_ins_new [of d "\<lambda>e. attrs e ''id'' = Some i" r]
    by (simp_all add: insert_after_def insert_before_def by_id_def by_id_None [unfolded by_id_def])
qed

lemma by_id_kept:
  assumes "by_id (place_list p n hs) i = None" "getr d r = Some e" "p = path e \<or> p = r # path e" "n = fresh_ref d"
  shows "p = path e \<Longrightarrow> by_id (insert_after r hs d) i = by_id d i" "p = path e \<Longrightarrow> by_id (insert_before r hs d) i = by_id d i"
    "p = r # path e \<Longrightarrow> by_id (append_to r hs d) i = by_id d i"
  using assms find_ins_other [of _ "\<lambda>e. attrs e ''id'' = Some i" r d]
  by (simp_all add: insert_after_def insert_before_def append_to_def by_id_def by_id_None [unfolded by_id_def])

lemma by_id_getr: "distinct (map ref d) \<Longrightarrow> by_id d i = Some e \<Longrightarrow> getr d (ref e) = Some e"
  using by_id_Some getr_mem by blast

lemma swaparrows_by_id:
  "by_id (swaparrows a s d) i = map_option (\<lambda>e. if s \<in> {Down, Up} \<and> by_id d a \<noteq> None \<and> ref e = ref (the (by_id d a))
     then set_attr ''src'' (arrow_src s (src_of (the (by_id d a)))) e else e) (by_id d i)"
  by (cases "by_id d a") (simp_all add: swaparrows_def by_id_upd option.map_id0 [unfolded id_def] cong: if_cong)

lemma place_no_id:
  assumes "\<forall>h \<in> set hs. \<forall>x \<in> set (html_elems h). attrs x ''id'' \<noteq> Some i"
  shows "by_id (place_list p n hs) i = None"
proof -
  have "\<not> (\<exists>x \<in> set (place_list p n hs). attrs x ''id'' = Some i)"
    using assms by (subst place_query) (auto simp: unplaced_def)
  then show ?thesis by (simp add: by_id_None)
qed

lemma by_id_set_contents:
  assumes "\<forall>h \<in> set hs. \<forall>x \<in> set (html_elems h). attrs x ''id'' \<noteq> Some i" "\<forall>e \<in> set d. \<not> inside r e"
  shows "by_id (set_contents r hs d) i = map_option (\<lambda>e. if ref e = r then e\<lparr>etext := []\<rparr> else e) (by_id d i)"
proof -
  have f: "empty_el r d = upd r (\<lambda>e. e\<lparr>etext := []\<rparr>) d" using assms(2) by (simp add: empty_el_def filter_True)
  have "by_id (set_contents r hs d) i = by_id (empty_el r d) i"
  proof (cases "getr (empty_el r d) r")
    case (Some e)
    then show ?thesis using by_id_kept(3) [OF place_no_id [OF assms(1)] Some _ refl] by (simp add: set_contents_def)
  qed (simp add: set_contents_def append_to_def)
  then show ?thesis unfolding f by (simp add: by_id_upd)
qed

lemma inside_upd: "(\<And>e. path (f e) = path e) \<Longrightarrow> (\<forall>e \<in> set (upd r f d). \<not> inside x e) \<longleftrightarrow> (\<forall>e \<in> set d. \<not> inside x e)"
  using ex_upd [of "inside x" f r d] by (simp add: inside_def) blast

lemma inside_swaparrows: "(\<forall>e \<in> set (swaparrows a s d). \<not> inside x e) \<longleftrightarrow> (\<forall>e \<in> set d. \<not> inside x e)"
  by (simp add: swaparrows_def inside_upd split: option.split)

lemma new_cell_empty:
  assumes "wf_dom d" "getr d r = Some ptr" "e \<in> set (insert_after r [kid_row kid c] d)"
  shows "\<not> inside (fresh_ref d + 2) e"
proof -
  have p: "x < fresh_ref d" if "y \<in> set d" "x \<in> set (path y)" for x y
    using path_refs [OF assms(1) that] less_fresh_ref by fastforce
  have "ptr \<in> set d" using getr_Some [OF assms(2)] by simp
  then show ?thesis
    using assms(3) p unfolding set_insert_after [OF assms(2)]
    by (fastforce simp: kid_row_def el_def el_text_def inside_def)
qed

text \<open>
  A second click on the arrow before the answer has come hides the row that waits.  The answer then
  turns the arrow down, and the row stays invisible: the two disagree until the next click.
\<close>

theorem early_click_hides_kids:
  assumes "wf_dom (doc p)" "by_id (doc p) kid = None" "by_id (doc p) trid = Some ptr" "by_id (doc p) arr = Some img"
    and "show_kids kid trid arr c url p = Inr q" "show_kids kid trid arr c url q = Inr q'"
    and "\<forall>h \<in> set hs. \<forall>x \<in> set (html_elems h). attrs x ''id'' \<notin> {Some kid, Some arr}"
  shows "requests q' = requests p @ [url]
    \<and> map_option (\<lambda>k. (disp k, vis k)) (by_id (kids_answer (fresh_ref (doc p)) arr hs (doc q')) kid) = Some ([], ''hidden'')
    \<and> map_option src_of (by_id (kids_answer (fresh_ref (doc p)) arr hs (doc q')) arr)
        = Some (arrow_src Down (arrow_src Up (src_of img)))"
proof -
  let ?d = "doc p" and ?n = "fresh_ref (doc p)"
  have ds: "distinct (map ref ?d)" using assms(1) by (simp add: wf_dom_def)
  have g: "getr ?d (ref ptr) = Some ptr" by (rule by_id_getr [OF ds assms(3)])
  have ak: "arr \<noteq> kid" using assms(2,4) by auto
  define d1 where "d1 = insert_after (ref ptr) [kid_row kid c] ?d"
  define k where "k = ((new_el ''tr'' [(''id'', kid)] [])\<lparr>disp := ''none''\<rparr>)\<lparr>ref := ?n, path := path ptr\<rparr>"
  have k: "by_id d1 kid = Some k"
    unfolding d1_def by_id_inserted(1) [OF g assms(2)] by (simp add: kid_row_def by_id_def k_def)
  have "by_id (place_list (path ptr) ?n [kid_row kid c]) arr = None"
    using ak by (intro place_no_id) (auto simp: kid_row_def el_def el_text_def)
  then have a: "by_id d1 arr = Some img"
    unfolding d1_def using by_id_kept(1) [OF _ g _ refl] assms(4) by simp
  have q: "q = p\<lparr>doc := d1, requests := requests p @ [url]\<rparr>"
    using assms(2,3,5) by (simp add: show_kids_def swaparrows_def d1_def split: if_splits option.splits)
  define d2 where "d2 = upd ?n (\<lambda>e. e\<lparr>disp := ''none'', vis := ''hidden''\<rparr>) d1"
  have q': "doc q' = swaparrows arr Up d2" "requests q' = requests p @ [url]"
    using assms(6) k by (auto simp: show_kids_def q toggle_kids_def k_def d2_def new_el_def)
  have "ref img < ?n" using less_fresh_ref by_id_Some [OF assms(4)] by blast
  then have rn: "ref img \<noteq> ?n" "ref img \<noteq> Suc (Suc ?n)" by simp_all
  have k2: "by_id d2 kid = Some (k\<lparr>disp := ''none'', vis := ''hidden''\<rparr>)" "by_id d2 arr = Some img"
    using k a rn by (simp_all add: d2_def by_id_upd k_def)
  have e2: "\<forall>e \<in> set d2. \<not> inside (?n + 2) e"
    using new_cell_empty [OF assms(1) g] unfolding d2_def by (subst inside_upd) (auto simp: d1_def)
  have kr: "ref k = ?n" by (simp add: k_def)
  let ?d3 = "swaparrows arr Down (swaparrows arr Up d2)"
  have e3: "\<forall>e \<in> set ?d3. \<not> inside (?n + 2) e" using e2 by (simp only: inside_swaparrows simp_thms)
  have h: "\<forall>h \<in> set hs. \<forall>x \<in> set (html_elems h). attrs x ''id'' \<noteq> Some kid"
    "\<forall>h \<in> set hs. \<forall>x \<in> set (html_elems h). attrs x ''id'' \<noteq> Some arr" using assms(7) by auto
  show ?thesis
    using q' k2 rn kr unfolding kids_answer_def
    by (simp add: by_id_upd by_id_set_contents [OF h(1) e3, simplified] by_id_set_contents [OF h(2) e3, simplified]
        swaparrows_by_id src_of_def)
qed

definition demo_kids :: page where
  "demo_kids = \<lparr>doc = [(new_el ''table'' [] [])\<lparr>ref := 1\<rparr>,
       (new_el ''tr'' [(''id'', ''g1_tr'')] [])\<lparr>ref := 2, path := [1]\<rparr>,
       (new_el ''img'' [(''id'', ''kidXpand_g1''), (''src'', ''/stabcons/expand.jpg'')] [])\<lparr>ref := 3, path := [2, 1]\<rparr>],
     alerts = [], requests = [], location = []\<rparr>"

definition kids_clicked :: "page \<Rightarrow> page" where
  "kids_clicked p = (case showPhysPortKid_Groups ''7'' ''g1'' ''g1_tr'' ''eth1'' p of Inl x \<Rightarrow> p | Inr q \<Rightarrow> q)"

theorem early_click_hides_kids_witness:
  "map_option (\<lambda>k. (disp k, vis k)) (by_id (kids_answer 4 ''kidXpand_g1'' [el_text ''b'' [] [] ''eth1.7'']
     (doc (kids_clicked (kids_clicked demo_kids)))) ''kid_treth1'') = Some ([], ''hidden'')"
proof -
  let ?d = "doc demo_kids"
  have w: "wf_dom ?d" by (simp add: demo_kids_def wf_dom_def new_el_def suffix_Cons)
  have b: "by_id ?d ''kid_treth1'' = None" "by_id ?d ''g1_tr'' = Some (?d ! 1)" "by_id ?d ''kidXpand_g1'' = Some (?d ! 2)"
    "fresh_ref ?d = 4"
    by (simp_all add: demo_kids_def by_id_def new_el_def fresh_ref_def)
  have k: "show_kids ''kid_treth1'' ''g1_tr'' ''kidXpand_g1'' []
      ''device-ajax.pl?what=SwitchportKids;parent=eth1;DEVICE_ID=7'' q = Inr (kids_clicked q)"
    if "isl (showPhysPortKid_Groups ''7'' ''g1'' ''g1_tr'' ''eth1'' q) = False" for q
    using that by (cases "showPhysPortKid_Groups ''7'' ''g1'' ''g1_tr'' ''eth1'' q")
      (simp_all add: kids_clicked_def showPhysPortKid_Groups_def)
  have i: "isl (showPhysPortKid_Groups ''7'' ''g1'' ''g1_tr'' ''eth1'' demo_kids) = False"
    "isl (showPhysPortKid_Groups ''7'' ''g1'' ''g1_tr'' ''eth1'' (kids_clicked demo_kids)) = False" by code_simp+
  from early_click_hides_kids [OF w b(1-3) k [OF i(1)] k [OF i(2)], of "[el_text ''b'' [] [] ''eth1.7'']"] b(4)
  show ?thesis by (simp add: el_text_def)
qed

section \<open>Licences that are answered in turn\<close>

text \<open>The server's answer is a drop-down with the identifier it was asked for.\<close>

definition licence_drop :: "string \<Rightarrow> (string \<times> string) list \<Rightarrow> nat \<Rightarrow> html list" where
  "licence_drop devid opts n =
     [el ''select'' [(''id'', licence_name devid n), (''name'', licence_name devid n)] [] (map option_html opts)]"

definition licence_added :: "string \<Rightarrow> (string \<times> string) list \<Rightarrow> nat \<Rightarrow> dom \<Rightarrow> nat \<Rightarrow> dom" where
  "licence_added devid opts r d n =
     licence_answer (fresh_ref d) (licence_drop devid opts n) (insert_before r [licence_row devid n] d)"

definition row_there :: "nat \<Rightarrow> dom \<Rightarrow> bool" where
  "row_there r d \<longleftrightarrow> wf_dom d \<and> r \<in> ref ` set d"

lemma licence_name_inj [simp]: "licence_name devid m = licence_name devid n \<longleftrightarrow> m = n"
  by (simp add: licence_name_def)

lemma licence_row_name: "x \<in> set (html_elems (licence_row devid n)) \<Longrightarrow> attrs x ''id'' \<noteq> Some (licence_name devid k)"
  by (auto simp: licence_row_def el_def el_text_def licence_name_def)

lemma licence_drop_name:
  "(\<exists>h \<in> set (licence_drop devid opts n). \<exists>x \<in> set (html_elems h). attrs x ''id'' = Some (licence_name devid k)) \<longleftrightarrow> k = n"
  by (auto simp: licence_drop_def el_def option_html_def option_el_def)

lemma finite_licences: "finite {n. licence_taken devid d n}"
proof -
  have "licence_name devid ` {n. licence_taken devid d n} \<subseteq> (\<lambda>e. the (attrs e ''id'')) ` set d"
    by (force simp: licence_taken_def by_id_None)
  then have "finite (licence_name devid ` {n. licence_taken devid d n})" using finite_surj by blast
  then show ?thesis using finite_imageD [of "licence_name devid"] by (simp add: inj_on_def)
qed

lemma ex_id_insert:
  assumes "getr d r = Some e"
  shows "(\<exists>x \<in> set (insert_before r hs d). attrs x ''id'' = Some i)
    \<longleftrightarrow> (\<exists>x \<in> set d. attrs x ''id'' = Some i) \<or> (\<exists>h \<in> set hs. \<exists>x \<in> set (html_elems h). attrs x ''id'' = Some i)"
  using place_query [of "\<lambda>x. attrs x ''id'' = Some i" "path e" "fresh_ref d" hs]
  unfolding set_insert_before [OF assms] bex_Un by (simp add: unplaced_def)

lemma ex_id_contents:
  assumes "wf_dom d" "r \<in> ref ` set d" "\<forall>x \<in> set d. \<not> inside r x"
  shows "(\<exists>x \<in> set (set_contents r hs d). attrs x ''id'' = Some i)
    \<longleftrightarrow> (\<exists>x \<in> set d. attrs x ''id'' = Some i) \<or> (\<exists>h \<in> set hs. \<exists>x \<in> set (html_elems h). attrs x ''id'' = Some i)"
proof -
  have f: "empty_el r d = upd r (\<lambda>e. e\<lparr>etext := []\<rparr>) d" using assms(3) by (simp add: empty_el_def filter_True)
  obtain e where e: "getr (empty_el r d) r = Some e"
    using assms(2) getr_None [of d r] unfolding f by (cases "getr d r") (auto simp: getr_upd)
  have u: "(\<exists>x \<in> set (empty_el r d). attrs x ''id'' = Some i) \<longleftrightarrow> (\<exists>x \<in> set d. attrs x ''id'' = Some i)"
    unfolding f by (rule ex_upd) simp
  show ?thesis
    using place_query [of "\<lambda>x. attrs x ''id'' = Some i" "r # path e" "fresh_ref (empty_el r d)" hs]
    unfolding set_contents_def set_append_to(1) [OF e] bex_Un u by (simp add: unplaced_def)
qed

lemma wf_set_contents: "wf_dom d \<Longrightarrow> wf_dom (set_contents r hs d)"
  by (simp add: set_contents_def)

lemma licence_taken_added:
  assumes "row_there r d"
  shows "licence_taken devid (licence_added devid opts r d n) k \<longleftrightarrow> k = n \<or> licence_taken devid d k"
proof -
  let ?f = "fresh_ref d" and ?X = "insert_before r [licence_row devid n] d"
  have wf: "wf_dom d" and rd: "r \<in> ref ` set d" using assms by (simp_all add: row_there_def)
  obtain e where g: "getr d r = Some e" using rd getr_None [of d r] by (cases "getr d r") auto
  have e: "e \<in> set d" using getr_Some [OF g] by simp
  have p: "x < ?f" if "y \<in> set d" "x \<in> set (path y)" for x y
    using path_refs [OF wf that] less_fresh_ref by fastforce
  have c: "?f + 3 \<in> ref ` set ?X" "\<forall>x \<in> set ?X. \<not> inside (?f + 3) x"
    using p e unfolding set_insert_before [OF g] by (fastforce simp: licence_row_def el_def el_text_def inside_def)+
  have "licence_taken devid (licence_added devid opts r d n) k
      \<longleftrightarrow> (\<exists>x \<in> set (set_contents (?f + 3) (licence_drop devid opts n) ?X). attrs x ''id'' = Some (licence_name devid k))"
    unfolding licence_taken_def known_iff licence_added_def licence_answer_def by (rule ex_upd) simp
  also have "\<dots> \<longleftrightarrow> k = n \<or> (\<exists>x \<in> set d. attrs x ''id'' = Some (licence_name devid k))"
  proof -
    have "wf_dom ?X" using wf by simp
    note i = ex_id_contents [OF this c, of "licence_drop devid opts n" "licence_name devid k"]
    have "\<not> (\<exists>h \<in> set [licence_row devid n]. \<exists>x \<in> set (html_elems h). attrs x ''id'' = Some (licence_name devid k))"
      using licence_row_name by auto
    then show ?thesis unfolding i licence_drop_name ex_id_insert [OF g] by blast
  qed
  finally show ?thesis unfolding licence_taken_def known_iff .
qed

lemma row_there_added:
  assumes "row_there r d"
  shows "row_there r (licence_added devid opts r d n)"
proof -
  obtain e where g: "getr d r = Some e"
    using assms getr_None [of d r] by (cases "getr d r") (auto simp: row_there_def)
  let ?X = "insert_before r [licence_row devid n] d" and ?c = "fresh_ref d + 3"
  have "e \<in> set d" "ref e = r" using getr_Some [OF g] by simp_all
  then have "\<not> inside ?c e"
    using path_refs [of d e] less_fresh_ref [of _ d] assms unfolding row_there_def inside_def by fastforce
  then have "e \<in> set (filter (\<lambda>e. \<not> inside ?c e) ?X)" using \<open>e \<in> set d\<close> by (simp add: set_insert_before [OF g])
  moreover have u: "ref ` set (upd a h d) = ref ` set d" if "\<And>e. ref (h e) = ref e" for a h d
    using that unfolding upd_def set_map image_image by (intro image_cong) simp_all
  have "ref ` set (empty_el ?c ?X) = ref ` set (filter (\<lambda>e. \<not> inside ?c e) ?X)"
    unfolding empty_el_def by (rule u) simp
  ultimately have "r \<in> ref ` set (empty_el ?c ?X)" using \<open>ref e = r\<close> by blast
  moreover have "ref ` set d \<subseteq> ref ` set (append_to a hs d)" for a hs d
    by (cases "getr d a") (auto simp: set_append_to(1), simp add: append_to_def)
  ultimately have "r \<in> ref ` set (licence_added devid opts r d n)"
    unfolding licence_added_def licence_answer_def set_contents_def by (subst u) (simp, blast)
  moreover have "wf_dom (licence_added devid opts r d n)"
    using assms by (simp add: licence_added_def licence_answer_def row_there_def wf_set_contents keeps_def)
  ultimately show ?thesis by (simp add: row_there_def)
qed

interpretation licences: numbered_rows "licence_taken devid" "licence_added devid opts r" "row_there r"
  by unfold_locales (rule finite_licences, rule licence_taken_added, assumption, rule row_there_added)

text \<open>
  The search for a free number always returns.  Two clicks for a licence before the first answer take
  the same number: the same drop-down is requested twice, and both licences are submitted under one name.
  When the first click is answered before the second, the second takes another number.
\<close>

theorem early_licences_share_name:
  assumes "wf_dom (doc p)" "by_id (doc p) parent = Some ptr" "Option.bind (getr (doc p) thing) (table_at (doc p)) \<noteq> None"
  shows "\<exists>n q. add_License thing parent devid p = Some (Inr q)
     \<and> requests q = requests p @ [licence_url devid n]
     \<and> first_free (licence_taken devid (doc q)) 0 = Some n
     \<and> first_free (licence_taken devid (licence_answer (fresh_ref (doc p)) (licence_drop devid opts n) (doc q))) 0 \<noteq> Some n"
proof -
  obtain n where n: "first_free (licence_taken devid (doc p)) 0 = Some n" using licences.search_returns by blast
  let ?q = "p\<lparr>doc := insert_before (ref ptr) [licence_row devid n] (doc p), requests := requests p @ [licence_url devid n]\<rparr>"
  have q: "add_License thing parent devid p = Some (Inr ?q)" using assms(2,3) n by (simp add: add_License_def)
  have ds: "distinct (map ref (doc p))" using assms(1) by (simp add: wf_dom_def)
  have g: "getr (doc p) (ref ptr) = Some ptr" by (rule by_id_getr [OF ds assms(2)])
  have dq: "doc ?q = insert_before (ref ptr) [licence_row devid n] (doc p)" by simp
  have "licence_taken devid (doc ?q) k \<longleftrightarrow> licence_taken devid (doc p) k" for k
  proof -
    have "\<not> (\<exists>h \<in> set [licence_row devid n]. \<exists>x \<in> set (html_elems h). attrs x ''id'' = Some (licence_name devid k))"
      using licence_row_name by auto
    then show ?thesis unfolding licence_taken_def known_iff dq ex_id_insert [OF g] by blast
  qed
  then have "licence_taken devid (doc ?q) = licence_taken devid (doc p)" by (intro ext)
  then have s: "first_free (licence_taken devid (doc ?q)) 0 = Some n" using n by (simp only:)
  have "row_there (ref ptr) (doc p)" using assms(1) getr_Some [OF g] by (auto simp: row_there_def)
  from licences.next_search_differs [OF this n, of opts]
  have "first_free (licence_taken devid (licence_answer (fresh_ref (doc p)) (licence_drop devid opts n) (doc ?q))) 0 \<noteq> Some n"
    unfolding licence_added_def dq .
  moreover have "requests ?q = requests p @ [licence_url devid n]" by simp
  ultimately show ?thesis using q s by blast
qed

definition demo_licences :: page where
  "demo_licences = \<lparr>doc = [(new_el ''table'' [] [])\<lparr>ref := 1\<rparr>,
       (new_el ''tr'' [(''id'', ''lic_add'')] [])\<lparr>ref := 2, path := [1]\<rparr>,
       (new_el ''a'' [] [])\<lparr>ref := 3, path := [2, 1]\<rparr>],
     alerts = [], requests = [], location = []\<rparr>"

theorem early_licences_share_name_witness:
  "\<exists>n q. add_License 3 ''lic_add'' ''7'' demo_licences = Some (Inr q)
     \<and> requests q = [licence_url ''7'' n]
     \<and> first_free (licence_taken ''7'' (doc q)) 0 = Some n"
proof -
  let ?d = "doc demo_licences"
  have w: "wf_dom ?d" by (simp add: demo_licences_def wf_dom_def new_el_def suffix_Cons)
  have i: "by_id ?d ''lic_add'' = Some (?d ! 1)" by (simp add: demo_licences_def by_id_def new_el_def)
  have b: "Option.bind (getr ?d 3) (table_at ?d) \<noteq> None" by code_simp
  have "requests demo_licences = []" by (simp add: demo_licences_def)
  then show ?thesis using early_licences_share_name [OF w i b, of "''7''" "[]"] by (simp only: append_Nil) blast
qed

end
