(* ===== verification/DeviceTabs.thy ===== *)
theory DeviceTabs
  imports Toggles FormTracking
begin

text \<open>
  \<open>device-utils.js\<close>, the tabs of the device page: a tab is fetched when it is shown for the first time,
  or again when that is asked for.
\<close>

section \<open>The address of a tab\<close>

text \<open>\<open>encodeURIComponent\<close>, for an address in ASCII.\<close>

definition hex_char :: "nat \<Rightarrow> char" where
  "hex_char n = (if n < 10 then char_of (48 + n) else char_of (55 + n))"

definition unreserved :: "char \<Rightarrow> bool" where
  "unreserved c \<longleftrightarrow>
     (let n = (of_char c :: nat) in
      is_digit c \<or> (65 \<le> n \<and> n \<le> 90) \<or> (97 \<le> n \<and> n \<le> 122) \<or> n \<in> {33, 39, 40, 41, 42, 45, 46, 95, 126})"

definition encodeURIComponent :: "string \<Rightarrow> string" where
  "encodeURIComponent s =
     concat (map (\<lambda>c. if unreserved c then [c]
       else [CHR ''%'', hex_char (of_char c div 16), hex_char (of_char c mod 16)]) s)"

text \<open>The results of the calls of \<open>replace\<close> are not used: the whole address is passed on.\<close>

definition tab_url :: "string \<Rightarrow> string \<Rightarrow> string \<Rightarrow> string" where
  "tab_url what devid loc =
     ''device-ajax.pl?what='' @ what @ '';passedin='' @ encodeURIComponent loc @ '';DEVICE_ID='' @ devid"

section \<open>Showing a tab\<close>

definition tab_id :: "string \<Rightarrow> string" where
  "tab_id what = what @ ''_content''"

definition loading_html :: "string \<Rightarrow> html list" where
  "loading_html what =
     [el ''div'' [] [''spinner'', ''align-middle''] [], el_text ''em'' [] [] (''Loading '' @ what @ '' Tab, Please Wait...'')]"

definition new_tab :: "string \<Rightarrow> html" where
  "new_tab what = el ''div'' [(''id'', tab_id what)] [''tabcontent'', ''active''] (loading_html what)"

text \<open>The other tabs and their contents lose the class \<open>active\<close>.\<close>

definition deactivate :: "string \<Rightarrow> dom \<Rightarrow> dom" where
  "deactivate what d =
     upd_where (has ''tabgrouptab'') (\<lambda>e. if attrs e ''id'' = Some what then add_class ''active'' e else rm_class ''active'' e)
       (upd_where (\<lambda>e. has ''tabcontent'' e \<and> attrs e ''id'' \<noteq> Some (tab_id what)) (rm_class ''active'') d)"

definition ShowDevTab :: "string \<Rightarrow> string option \<Rightarrow> bool \<Rightarrow> page \<Rightarrow> page" where
  "ShowDevTab what devid force p =
     (case devid of
        None \<Rightarrow> p
      | Some i \<Rightarrow>
          (case by_id (doc p) (tab_id what) of
             None \<Rightarrow>
               (case by_id (doc p) ''tabgroup'' of
                  None \<Rightarrow> p
                | Some g \<Rightarrow>
                    p\<lparr>doc := deactivate what (append_to (ref g) [new_tab what] (doc p)),
                      requests := requests p @ [tab_url what i (location p)]\<rparr>)
           | Some t \<Rightarrow>
               let d = upd (ref t) (add_class ''active'')
                     (if force then set_contents (ref t) (loading_html what) (doc p) else doc p)
               in p\<lparr>doc := deactivate what d,
                    requests := requests p @ (if force then [tab_url what i (location p)] else [])\<rparr>))"

text \<open>The tab asked for in the address of the page, in a field of that name.\<close>

definition forcedevtabload :: "string \<Rightarrow> string option \<Rightarrow> page \<Rightarrow> page" where
  "forcedevtabload tabname devid p =
     (case devid of
        None \<Rightarrow> p
      | Some i \<Rightarrow>
          (case by_id (doc p) tabname of
             None \<Rightarrow> p
           | Some t \<Rightarrow> if val t = [] then p else ShowDevTab (val t) devid True p))"

text \<open>
  Whenever the state of the request changes: the contents, once they are there, and then the marks of
  all tracked fields and the looks of all toggles of the page.  The toggles below are not visited, so one
  level of recursion is enough.
\<close>

definition refresh_toggles :: "dom \<Rightarrow> dom js option" where
  "refresh_toggles d =
     fold_js_opt (\<lambda>r d. case getr d r of
         None \<Rightarrow> Some (Inr d)
       | Some e \<Rightarrow> updateNetworkInterfaceUI 1 r (attrs e ''state'') False d)
       (map ref (filter (has ''button_switch'') d)) d"

definition tab_answer :: "nat \<Rightarrow> html list option \<Rightarrow> dom \<Rightarrow> dom js option" where
  "tab_answer r contents' d =
     refresh_toggles (tracking_ready (case contents' of None \<Rightarrow> d | Some hs \<Rightarrow> set_contents r hs d))"

text \<open>The older way to replace the contents of an element.\<close>

definition dynamiccontentNS6 :: "string \<Rightarrow> html list \<Rightarrow> dom \<Rightarrow> dom js" where
  "dynamiccontentNS6 elementid content d =
     (case by_id d elementid of None \<Rightarrow> Inl TypeError | Some e \<Rightarrow> Inr (set_contents (ref e) content d))"

section \<open>One tab is shown, and fetched once\<close>

definition deact :: "string \<Rightarrow> elem \<Rightarrow> elem" where
  "deact what e =
     (let e1 = (if has ''tabcontent'' e \<and> attrs e ''id'' \<noteq> Some (tab_id what) then rm_class ''active'' e else e) in
      if has ''tabgrouptab'' e1
      then (if attrs e1 ''id'' = Some what then add_class ''active'' e1 else rm_class ''active'' e1) else e1)"

lemma deactivate_map: "deactivate what d = map (deact what) d"
  by (simp add: deactivate_def upd_where_def deact_def Let_def)

lemma deact_attrs [simp]: "attrs (deact what e) = attrs e" "ref (deact what e) = ref e" "path (deact what e) = path e"
  by (simp_all add: deact_def Let_def)

lemma deact_has:
  "x \<noteq> ''active'' \<Longrightarrow> has x (deact what e) = has x e"
  "\<not> has ''tabgrouptab'' e \<Longrightarrow>
     has ''active'' (deact what e) \<longleftrightarrow> has ''active'' e \<and> (has ''tabcontent'' e \<longrightarrow> attrs e ''id'' = Some (tab_id what))"
  "has ''tabgrouptab'' e \<Longrightarrow> has ''active'' (deact what e) \<longleftrightarrow> attrs e ''id'' = Some what"
  by (simp_all add: deact_def Let_def)

lemma deactivate_ids:
  "(\<exists>e \<in> set (deactivate what d). attrs e ''id'' = Some i) \<longleftrightarrow> (\<exists>e \<in> set d. attrs e ''id'' = Some i)"
  by (auto simp: deactivate_map)

lemma wf_deactivate [simp]: "wf_dom (deactivate what d) = wf_dom d"
  unfolding deactivate_map by (rule wf_dom_map) (auto simp: keeps_def)

text \<open>
  What a session of clicks has reached: the tabs \<open>seen\<close> are in the page, and each has been requested once.
\<close>

definition fetched :: "string \<Rightarrow> string \<Rightarrow> string list \<Rightarrow> page \<Rightarrow> bool" where
  "fetched i loc seen p \<longleftrightarrow>
     wf_dom (doc p) \<and> by_id (doc p) ''tabgroup'' \<noteq> None \<and> location p = loc
     \<and> requests p = map (\<lambda>w. tab_url w i loc) seen
     \<and> (\<forall>w. by_id (doc p) (tab_id w) \<noteq> None \<longleftrightarrow> w \<in> set seen)
     \<and> (\<forall>e \<in> set (doc p). \<forall>w. attrs e ''id'' = Some (tab_id w) \<longrightarrow> \<not> has ''tabgrouptab'' e)"

definition only_tab :: "string \<Rightarrow> dom \<Rightarrow> bool" where
  "only_tab w d \<longleftrightarrow>
     (\<forall>e \<in> set d. has ''tabcontent'' e \<and> \<not> has ''tabgrouptab'' e \<and> has ''active'' e \<longrightarrow> attrs e ''id'' = Some (tab_id w))
     \<and> (\<forall>e \<in> set d. has ''tabgrouptab'' e \<longrightarrow> (has ''active'' e \<longleftrightarrow> attrs e ''id'' = Some w))
     \<and> (\<exists>e \<in> set d. attrs e ''id'' = Some (tab_id w) \<and> has ''active'' e)"

lemma only_tab_deactivate:
  assumes "\<exists>e \<in> set d. attrs e ''id'' = Some (tab_id w) \<and> has ''active'' e \<and> \<not> has ''tabgrouptab'' e"
  shows "only_tab w (deactivate w d)"
  using assms unfolding only_tab_def deactivate_map by (auto simp: deact_has)

lemma new_tab_ids:
  "(\<exists>e \<in> set (place_list p n [new_tab what]). attrs e ''id'' = Some i) \<longleftrightarrow> i = tab_id what"
  "\<exists>e \<in> set (place_list p n [new_tab what]). attrs e ''id'' = Some (tab_id what) \<and> has ''active'' e \<and> \<not> has ''tabgrouptab'' e"
  "e \<in> set (place_list p n [new_tab what]) \<Longrightarrow> \<not> has ''tabgrouptab'' e"
  by (auto simp: new_tab_def loading_html_def el_def el_text_def has_def)

lemma tab_id_eq [simp]: "tab_id v = tab_id w \<longleftrightarrow> v = w"
  by (simp add: tab_id_def)

lemma fetched_click:
  assumes "fetched i loc seen p"
  shows "fetched i loc (push_new w seen) (ShowDevTab w (Some i) False p) \<and> only_tab w (doc (ShowDevTab w (Some i) False p))"
proof (cases "by_id (doc p) (tab_id w)")
  case None
  moreover have "by_id (doc p) (tab_id w) \<noteq> None \<longleftrightarrow> w \<in> set seen" using assms unfolding fetched_def by blast
  ultimately have w: "w \<notin> set seen" by simp
  obtain g where g: "by_id (doc p) ''tabgroup'' = Some g" using assms by (auto simp: fetched_def)
  have "wf_dom (doc p)" using assms by (simp add: fetched_def)
  then have gr: "getr (doc p) (ref g) = Some g"
    using by_id_Some [OF g] getr_mem by (auto simp: wf_dom_def)
  let ?d = "append_to (ref g) [new_tab w] (doc p)"
  have ids: "by_id (deactivate w ?d) j \<noteq> None \<longleftrightarrow> by_id (doc p) j \<noteq> None \<or> j = tab_id w" for j
    unfolding known_iff deactivate_ids set_append_to(1) [OF gr] bex_Un new_tab_ids(1) by simp
  have ng: "\<forall>e \<in> set (deactivate w ?d). \<forall>v. attrs e ''id'' = Some (tab_id v) \<longrightarrow> \<not> has ''tabgrouptab'' e"
    using assms new_tab_ids(3) by (auto simp: deactivate_map set_append_to(1) [OF gr] deact_has(1) fetched_def)
  have q: "ShowDevTab w (Some i) False p
      = p\<lparr>doc := deactivate w ?d, requests := requests p @ [tab_url w i (location p)]\<rparr>"
    using None g by (simp add: ShowDevTab_def)
  have "only_tab w (deactivate w ?d)"
    using new_tab_ids(2) unfolding set_append_to(1) [OF gr] by (intro only_tab_deactivate) (simp only: set_append_to(1) [OF gr] bex_Un, blast)
  then show ?thesis
    unfolding q fetched_def using assms w ids ng by (simp add: fetched_def push_new_def) metis
next
  case (Some t)
  moreover have "by_id (doc p) (tab_id w) \<noteq> None \<longleftrightarrow> w \<in> set seen" using assms unfolding fetched_def by blast
  ultimately have w: "w \<in> set seen" by simp
  note t = by_id_Some [OF Some]
  let ?d = "upd (ref t) (add_class ''active'') (doc p)"
  have "(\<exists>e \<in> set ?d. attrs e ''id'' = Some j) \<longleftrightarrow> (\<exists>e \<in> set (doc p). attrs e ''id'' = Some j)" for j
    by (rule ex_upd) simp
  then have ids: "by_id (deactivate w ?d) j \<noteq> None \<longleftrightarrow> by_id (doc p) j \<noteq> None" for j
    unfolding known_iff deactivate_ids by blast
  have ng: "\<forall>e \<in> set (deactivate w ?d). \<forall>v. attrs e ''id'' = Some (tab_id v) \<longrightarrow> \<not> has ''tabgrouptab'' e"
    using assms by (auto simp: deactivate_map upd_def deact_has(1) fetched_def)
  have q: "ShowDevTab w (Some i) False p = p\<lparr>doc := deactivate w ?d\<rparr>" using Some by (simp add: ShowDevTab_def)
  have "add_class ''active'' t \<in> set ?d" using t by (force simp: upd_def)
  moreover have "\<not> has ''tabgrouptab'' t" using assms t unfolding fetched_def by blast
  ultimately have "only_tab w (deactivate w ?d)" using t by (intro only_tab_deactivate bexI [of _ "add_class ''active'' t"]) simp_all
  then show ?thesis
    unfolding q fetched_def using assms w ids ng by (simp add: fetched_def push_new_def)
qed

lemma fetched_session:
  assumes "fetched i loc seen p"
  shows "let q = foldl (\<lambda>p w. ShowDevTab w (Some i) False p) p ws in
     fetched i loc (fold push_new ws seen) q \<and> (ws \<noteq> [] \<longrightarrow> only_tab (last ws) (doc q))"
  using assms
proof (induction ws rule: rev_induct)
  case (snoc w ws)
  then show ?case using fetched_click [of i loc "fold push_new ws seen" _ w] by (simp add: Let_def)
qed simp

text \<open>
  C22: Whatever tabs are clicked, each is requested once, in the order of the first clicks, and after
  every click the tab clicked last and its contents are the active ones.
\<close>

theorem tabs_fetched_once:
  assumes "wf_dom (doc p)" "by_id (doc p) ''tabgroup'' \<noteq> None" "requests p = []" "\<forall>w. by_id (doc p) (tab_id w) = None"
    and "q = foldl (\<lambda>p w. ShowDevTab w (Some i) False p) p ws"
  shows "requests q = map (\<lambda>w. tab_url w i (location p)) (fold push_new ws []) \<and> (ws \<noteq> [] \<longrightarrow> only_tab (last ws) (doc q))"
proof -
  have "\<forall>e \<in> set (doc p). \<forall>w. attrs e ''id'' \<noteq> Some (tab_id w)" using assms(4) by (simp add: by_id_None)
  then have "fetched i (location p) [] p" using assms(1-4) by (auto simp: fetched_def)
  from fetched_session [OF this, of ws] show ?thesis unfolding assms(5) by (simp add: Let_def fetched_def)
qed

definition demo_tabs :: page where
  "demo_tabs = \<lparr>doc = [(new_el ''div'' [(''id'', ''tabgroup'')] [])\<lparr>ref := 1\<rparr>,
       (new_el ''a'' [(''id'', ''IP'')] [''tabgrouptab''])\<lparr>ref := 2, path := [1]\<rparr>,
       (new_el ''a'' [(''id'', ''Power'')] [''tabgrouptab''])\<lparr>ref := 3, path := [1]\<rparr>],
     alerts = [], requests = [], location = ''device.pl?devid=7''\<rparr>"

theorem tabs_fetched_once_witness:
  "requests (foldl (\<lambda>p w. ShowDevTab w (Some ''7'') False p) demo_tabs [''IP'', ''Power'', ''IP''])
     = [''device-ajax.pl?what=IP;passedin=device.pl%3Fdevid%3D7;DEVICE_ID=7'',
        ''device-ajax.pl?what=Power;passedin=device.pl%3Fdevid%3D7;DEVICE_ID=7'']"
proof -
  have p: "wf_dom (doc demo_tabs)" "by_id (doc demo_tabs) ''tabgroup'' \<noteq> None" "requests demo_tabs = []"
    by (simp_all add: demo_tabs_def wf_dom_def by_id_def new_el_def suffix_Cons)
  have n: "\<forall>w. by_id (doc demo_tabs) (tab_id w) = None"
    by (auto simp: by_id_None demo_tabs_def tab_id_def append_eq_Cons_conv)
  have m: "map (\<lambda>w. tab_url w ''7'' (location demo_tabs)) (fold push_new [''IP'', ''Power'', ''IP''] [])
      = [''device-ajax.pl?what=IP;passedin=device.pl%3Fdevid%3D7;DEVICE_ID=7'',
         ''device-ajax.pl?what=Power;passedin=device.pl%3Fdevid%3D7;DEVICE_ID=7'']" by code_simp
  show ?thesis by (rule trans [OF conjunct1 [OF tabs_fetched_once [OF p n refl]] m])
qed

end
