(* ===== verification/PatchPanels.thy ===== *)
theory PatchPanels
  imports Prelude
begin

text \<open>
  \<open>device-utils.js\<close>, the physical connection of a port: its pop-up, and the rows of patch panels that are
  added to it.  The number of a row is part of the identifiers of the row and of a hidden field in it.
\<close>

section \<open>The pop-ups\<close>

text \<open>Each pop-up with its visibility and contents; \<open>patch_urls\<close> are the requests.\<close>

record patch_page =
  popups :: "string \<rightharpoonup> bool \<times> string"
  patch_urls :: "string list"

definition close_patchpanel :: "string \<Rightarrow> patch_page \<Rightarrow> patch_page" where
  "close_patchpanel killid p =
     (case popups p killid of
        None \<Rightarrow> p | Some (v, c) \<Rightarrow> p\<lparr>popups := (popups p)(killid \<mapsto> (\<not> v, c))\<rparr>)"

definition popup_title :: string where
  "popup_title = ''Physical Patch Panel Connectivity''"

definition PatchPanelDrop :: "string \<Rightarrow> string \<Rightarrow> patch_page \<Rightarrow> patch_page" where
  "PatchPanelDrop devid ppkeyid p =
     (let i = ''PC_popup_'' @ ppkeyid in
      case popups p i of
        None \<Rightarrow>
          p\<lparr>popups := (popups p)(i \<mapsto> (False, popup_title)),
            patch_urls := patch_urls p @ [''device-ajax.pl?what=PhysicalConnection;PHYSICAL_PORT_ID='' @ ppkeyid
              @ '';DEVICE_ID='' @ devid]\<rparr>
      | Some (v, c) \<Rightarrow> p\<lparr>popups := (popups p)(i \<mapsto> (\<not> v, c))\<rparr>)"

definition patch_answer :: "string \<Rightarrow> string \<Rightarrow> patch_page \<Rightarrow> patch_page" where
  "patch_answer i t p =
     (case popups p i of
        None \<Rightarrow> p | Some (v, c) \<Rightarrow> p\<lparr>popups := (popups p)(i \<mapsto> (True, popup_title @ t))\<rparr>)"

section \<open>The rows\<close>

text \<open>
  A row of the table: the request it waits for or was made by, its identifier (empty while it waits), and
  the elements in it with their identifiers and names.
\<close>

record panel_row =
  rmade :: "nat option"
  rowid :: string
  parts :: "(string \<times> string) list"

record panel =
  prows :: "panel_row list"
  places :: "nat list"
  panel_urls :: "string list"

definition is_blank :: "char \<Rightarrow> bool" where
  "is_blank c \<longleftrightarrow> c \<in> {CHR '' '', CHR 0x09, CHR 0x0A, CHR 0x0B, CHR 0x0C, CHR 0x0D}"

text \<open>The pattern \<open>_row(\\d+)\\s*$\<close>: what comes before the digits, and their value.\<close>

definition row_parts :: "string \<Rightarrow> (string \<times> nat) option" where
  "row_parts s =
     (let t = dropWhile is_blank (rev s);
          ds = takeWhile is_digit t;
          pre = dropWhile is_digit t
      in if ds \<noteq> [] \<and> prefix (rev ''_row'') pre then Some (rev pre, digits_val (rev ds)) else None)"

definition next_row :: "string \<Rightarrow> string" where
  "next_row s = (case row_parts s of None \<Rightarrow> s | Some (pre, n) \<Rightarrow> pre @ nat_str (Suc n))"

definition without_tr :: "string \<Rightarrow> string" where
  "without_tr s = (if prefix ''tr_'' s then drop 3 s else s)"

text \<open>\<open>getElementById\<close> in the rows: the first element with the identifier is renamed.\<close>

fun rename_part :: "string \<Rightarrow> string \<Rightarrow> (string \<times> string) list \<Rightarrow> (string \<times> string) list option" where
  "rename_part i j [] = None"
| "rename_part i j (x # xs) =
     (if fst x = i then Some ((j, j) # xs) else map_option (\<lambda>ys. x # ys) (rename_part i j xs))"

fun rename_in_rows :: "string \<Rightarrow> string \<Rightarrow> panel_row list \<Rightarrow> panel_row list option" where
  "rename_in_rows i j [] = None"
| "rename_in_rows i j (r # rs) =
     (case rename_part i j (parts r) of
        Some ps \<Rightarrow> Some (r\<lparr>parts := ps\<rparr> # rs)
      | None \<Rightarrow> map_option (\<lambda>qs. r # qs) (rename_in_rows i j rs))"

text \<open>
  One round of the loop: the row gets the next number, and so does the element it belongs to; when there
  is none the code raises a \<open>TypeError\<close>.
\<close>

definition renumber_row :: "panel \<Rightarrow> nat \<Rightarrow> panel \<times> js_error option" where
  "renumber_row p i =
     (let oldid = rowid (prows p ! i);
          refid = without_tr oldid;
          rs = (prows p)[i := (prows p ! i)\<lparr>rowid := next_row oldid\<rparr>]
      in case (if refid = [] then None else rename_in_rows refid (next_row refid) rs) of
           None \<Rightarrow> (p\<lparr>prows := rs\<rparr>, Some TypeError)
         | Some qs \<Rightarrow> (p\<lparr>prows := qs\<rparr>, None))"

definition fill_panel_row :: "nat \<Rightarrow> string \<Rightarrow> (string \<times> string) list \<Rightarrow> panel \<Rightarrow> panel" where
  "fill_panel_row k trid ps p =
     p\<lparr>prows := map (\<lambda>r. if rmade r = Some k then r\<lparr>rowid := trid, parts := ps\<rparr> else r) (prows p)\<rparr>"

text \<open>The answer to the request \<open>k\<close>: the rows below the place of the click are renumbered from the last one up.\<close>

definition panel_answer :: "nat \<Rightarrow> string \<Rightarrow> (string \<times> string) list \<Rightarrow> panel \<Rightarrow> panel \<times> js_error option" where
  "panel_answer k trid ps p =
     (case js_run renumber_row p (rev [Suc (places p ! k)..<length (prows p)]) of
        (q, Some x) \<Rightarrow> (q, Some x)
      | (q, None) \<Rightarrow> (fill_panel_row k trid ps q, None))"

fun row_with :: "string \<Rightarrow> panel_row list \<Rightarrow> nat option" where
  "row_with i [] = None"
| "row_with i (r # rs) = (if i \<in> fst ` set (parts r) then Some 0 else map_option Suc (row_with i rs))"

definition AppendPatchPanelRow :: "string \<Rightarrow> string \<Rightarrow> string \<Rightarrow> panel \<Rightarrow> panel" where
  "AppendPatchPanelRow myid ppkeyid side p =
     (case row_with myid (prows p) of
        None \<Rightarrow> p
      | Some i \<Rightarrow>
          p\<lparr>prows := take (Suc i) (prows p) @ \<lparr>rmade = Some (length (places p)), rowid = [], parts = []\<rparr> # drop (Suc i) (prows p),
            places := places p @ [Suc i],
            panel_urls := panel_urls p @ [''device-ajax.pl?xml=yes;what=PhysicalConnection;PHYSICAL_PORT_ID='' @ ppkeyid
              @ '';row='' @ nat_str (Suc i) @ '';side='' @ side]\<rparr>)"

section \<open>The rows stay numbered\<close>

definition path_name :: "string \<Rightarrow> nat \<Rightarrow> string" where
  "path_name K n = ''PhysPath_'' @ K @ ''_row'' @ nat_str n"

lemma path_name_inj [simp]: "path_name K m = path_name K n \<longleftrightarrow> m = n"
  by (simp add: path_name_def)

lemma path_name_not_Nil [simp]: "path_name K n \<noteq> []"
  by (simp add: path_name_def)

lemma nat_str_not_Nil [simp]: "nat_str n \<noteq> []"
  by (metis append_is_Nil_conv nat_str.simps not_Cons_self2)

lemma digit_not_blank: "is_digit c \<Longrightarrow> \<not> is_blank c"
  by (auto simp: is_digit_def is_blank_def)

lemma row_parts_number: "row_parts (s @ ''_row'' @ nat_str n) = Some (s @ ''_row'', n)"
proof -
  obtain c cs where c: "rev (nat_str n) = c # cs" by (cases "rev (nat_str n)") simp_all
  have d: "\<forall>x \<in> set (rev (nat_str n)). is_digit x" using nat_str_digits by simp
  then have "is_digit c" using c by (metis list.set_intros(1))
  then have "dropWhile is_blank (rev (s @ ''_row'' @ nat_str n)) = rev (nat_str n) @ rev (s @ ''_row'')"
    using c digit_not_blank by simp
  moreover have "\<not> is_digit (CHR ''w'')" by (simp add: is_digit_def)
  then have "takeWhile is_digit (rev (nat_str n) @ rev (s @ ''_row'')) = rev (nat_str n)"
    "dropWhile is_digit (rev (nat_str n) @ rev (s @ ''_row'')) = rev (s @ ''_row'')"
    using d by (simp_all add: takeWhile_append dropWhile_append)
  ultimately show ?thesis by (simp add: row_parts_def Let_def)
qed

lemma next_row_name [simp]:
  "next_row (path_name K n) = path_name K (Suc n)" "next_row (''tr_'' @ path_name K n) = ''tr_'' @ path_name K (Suc n)"
  "without_tr (''tr_'' @ path_name K n) = path_name K n"
  using row_parts_number [of "''PhysPath_'' @ K" n] row_parts_number [of "''tr_PhysPath_'' @ K" n]
  by (simp_all add: next_row_def path_name_def without_tr_def)

lemmas next_row_cons [simp] = next_row_name(2,3) [unfolded append_Cons append_Nil]

text \<open>A row with the number \<open>n\<close>: its identifier, and the one element with an identifier of this kind.\<close>

definition path_part :: "string \<Rightarrow> string \<times> string \<Rightarrow> bool" where
  "path_part K x \<longleftrightarrow> fst x \<in> range (path_name K)"

definition numbered_row :: "string \<Rightarrow> nat \<Rightarrow> panel_row \<Rightarrow> bool" where
  "numbered_row K n r \<longleftrightarrow>
     rowid r = ''tr_'' @ path_name K n \<and> filter (path_part K) (parts r) = [(path_name K n, path_name K n)]"

definition other_parts :: "string \<Rightarrow> panel_row \<Rightarrow> (string \<times> string) list" where
  "other_parts K r = filter (\<lambda>x. \<not> path_part K x) (parts r)"

definition all_numbered :: "string \<Rightarrow> panel_row list \<Rightarrow> bool" where
  "all_numbered K rs \<longleftrightarrow>
     (\<forall>r \<in> set (take 1 rs). rowid r = ''tr_'' @ path_name K 0 \<and> filter (path_part K) (parts r) = [])
     \<and> (\<forall>j. 0 < j \<and> j < length rs \<longrightarrow> numbered_row K j (rs ! j))"

lemma rename_part_number:
  assumes "filter (path_part K) ps = [(path_name K n, path_name K n)]"
  shows "\<exists>qs. rename_part (path_name K n) (path_name K m) ps = Some qs
    \<and> filter (path_part K) qs = [(path_name K m, path_name K m)]
    \<and> filter (\<lambda>x. \<not> path_part K x) qs = filter (\<lambda>x. \<not> path_part K x) ps"
  using assms
proof (induction ps)
  case (Cons x ps)
  show ?case
  proof (cases "path_part K x")
    case True
    then have "x = (path_name K n, path_name K n)" "filter (path_part K) ps = []" using Cons.prems by simp_all
    moreover have "path_part K (path_name K m, path_name K m)" by (simp add: path_part_def)
    ultimately show ?thesis using True by simp
  next
    case False
    then have "fst x \<noteq> path_name K n" by (auto simp: path_part_def)
    then show ?thesis using Cons False by auto
  qed
qed simp

lemma numbered_row_ids:
  assumes "numbered_row K n r"
  shows "path_name K m \<in> fst ` set (parts r) \<longleftrightarrow> m = n"
proof -
  have s: "{x \<in> set (parts r). path_part K x} = {(path_name K n, path_name K n)}"
    using assms unfolding numbered_row_def by (metis empty_set list.simps(15) set_filter)
  have "path_name K m \<in> fst ` set (parts r) \<longleftrightarrow> (\<exists>x. x \<in> {x \<in> set (parts r). path_part K x} \<and> fst x = path_name K m)"
    by (force simp: path_part_def)
  then show ?thesis unfolding s by auto
qed

lemma rename_part_none: "i \<notin> fst ` set ps \<Longrightarrow> rename_part i j ps = None"
  by (induction ps) auto

lemma rename_in_rows_at:
  "\<forall>r \<in> set us. i \<notin> fst ` set (parts r) \<Longrightarrow> rename_part i j (parts y) = Some qs
     \<Longrightarrow> rename_in_rows i j (us @ y # zs) = Some (us @ y\<lparr>parts := qs\<rparr> # zs)"
  by (induction us) (simp_all add: rename_part_none)

text \<open>The loop adds one to the numbers of the rows it visits and changes nothing else.\<close>

lemma renumber_rows:
  assumes "prows p = xs @ ys @ zs" "\<forall>j < length ys. numbered_row K (c + j) (ys ! j)"
    and "\<forall>r \<in> set xs. \<forall>n \<ge> c. path_name K n \<notin> fst ` set (parts r)"
  shows "\<exists>ws. js_run renumber_row p (rev [length xs..<length xs + length ys]) = (p\<lparr>prows := xs @ ws @ zs\<rparr>, None)
    \<and> length ws = length ys \<and> (\<forall>j < length ys. numbered_row K (Suc (c + j)) (ws ! j))
    \<and> map (other_parts K) ws = map (other_parts K) ys \<and> map rmade ws = map rmade ys"
  using assms
proof (induction ys arbitrary: p zs rule: rev_induct)
  case Nil
  then show ?case by simp
next
  case (snoc y ys)
  let ?n = "c + length ys" and ?i = "length xs + length ys"
  have y: "numbered_row K ?n y" using snoc.prems(2) by (metis length_append_singleton lessI nth_append_length)
  have ys: "\<forall>j < length ys. numbered_row K (c + j) (ys ! j)"
    using snoc.prems(2) by (metis length_append_singleton less_SucI nth_append)
  obtain qs where qs: "rename_part (path_name K ?n) (path_name K (Suc ?n)) (parts y) = Some qs"
    "filter (path_part K) qs = [(path_name K (Suc ?n), path_name K (Suc ?n))]"
    "filter (\<lambda>x. \<not> path_part K x) qs = other_parts K y"
    using rename_part_number [of K "parts y" ?n "Suc ?n"] y unfolding numbered_row_def other_parts_def by blast
  define w where "w = y\<lparr>rowid := ''tr_'' @ path_name K (Suc ?n), parts := qs\<rparr>"
  have w: "numbered_row K (Suc ?n) w" "other_parts K w = other_parts K y" "rmade w = rmade y"
    using qs(2,3) by (simp_all add: w_def numbered_row_def other_parts_def)
  have rid: "rowid y = ''tr_'' @ path_name K ?n" using y by (simp add: numbered_row_def)
  have "\<forall>r \<in> set (xs @ ys). path_name K ?n \<notin> fst ` set (parts r)"
  proof
    fix r assume "r \<in> set (xs @ ys)"
    then consider "r \<in> set xs" | j where "j < length ys" "r = ys ! j" by (auto simp: in_set_conv_nth)
    then show "path_name K ?n \<notin> fst ` set (parts r)"
    proof cases
      case 1
      then show ?thesis using snoc.prems(3) by simp
    next
      case 2
      then show ?thesis using numbered_row_ids ys by (metis add_left_cancel less_irrefl)
    qed
  qed
  then have "rename_in_rows (path_name K ?n) (path_name K (Suc ?n))
      ((xs @ ys) @ y\<lparr>rowid := ''tr_'' @ path_name K (Suc ?n)\<rparr> # zs)
    = Some ((xs @ ys) @ y\<lparr>rowid := ''tr_'' @ path_name K (Suc ?n), parts := qs\<rparr> # zs)"
    using qs(1) by (intro rename_in_rows_at) simp_all
  moreover have "prows p ! ?i = y" "(prows p)[?i := z] = (xs @ ys) @ z # zs" for z
    using snoc.prems(1) by (simp_all add: nth_append list_update_append)
  ultimately have "renumber_row p ?i = (p\<lparr>prows := xs @ ys @ w # zs\<rparr>, None)"
    using rid by (simp add: renumber_row_def w_def Let_def)
  moreover have "rev [length xs..<length xs + length (ys @ [y])] = ?i # rev [length xs..<?i]" by simp
  moreover obtain ws where ws: "js_run renumber_row (p\<lparr>prows := xs @ ys @ w # zs\<rparr>) (rev [length xs..<?i])
      = (p\<lparr>prows := xs @ ws @ w # zs\<rparr>, None)" "length ws = length ys"
    "\<forall>j < length ys. numbered_row K (Suc (c + j)) (ws ! j)"
    "map (other_parts K) ws = map (other_parts K) ys" "map rmade ws = map rmade ys"
    using snoc.IH [of "p\<lparr>prows := xs @ ys @ w # zs\<rparr>" "w # zs"] ys snoc.prems(3) by auto
  ultimately have "js_run renumber_row p (rev [length xs..<length xs + length (ys @ [y])])
      = (p\<lparr>prows := xs @ (ws @ [w]) @ zs\<rparr>, None)" by simp
  moreover have "numbered_row K (Suc (c + j)) ((ws @ [w]) ! j)" if "j < length (ys @ [y])" for j
    using that ws(2,3) w(1) by (cases "j = length ys") (simp_all add: nth_append)
  ultimately show ?case using ws(2,4,5) w(2,3) by (intro exI [of _ "ws @ [w]"]) simp
qed

lemma row_with_less: "row_with i rs = Some n \<Longrightarrow> n < length rs"
  by (induction rs arbitrary: n) (auto split: if_splits)

lemma first_row_ids:
  assumes "all_numbered K rs" "j < length rs" "path_name K m \<in> fst ` set (parts (rs ! j))"
  shows "m = j"
proof (cases "j = 0")
  case True
  then have "filter (path_part K) (parts (rs ! j)) = []" using assms(1,2) by (cases rs) (simp_all add: all_numbered_def)
  then show ?thesis using assms(3) by (force simp: filter_empty_conv path_part_def)
next
  case False
  then have "numbered_row K j (rs ! j)" using assms(1,2) by (simp add: all_numbered_def)
  then show ?thesis using assms(3) numbered_row_ids by blast
qed

lemma early_rows_free:
  assumes "all_numbered K rs" "i < length rs" "parts new = []"
  shows "\<forall>r \<in> set (take (Suc i) rs @ [new]). \<forall>n \<ge> Suc i. path_name K n \<notin> fst ` set (parts r)"
proof (intro ballI allI impI)
  fix r n assume "r \<in> set (take (Suc i) rs @ [new])" "Suc i \<le> n"
  then consider "r = new" | j where "j \<le> i" "r = rs ! j" using assms(2) by (auto simp: in_set_conv_nth less_Suc_eq_le)
  then show "path_name K n \<notin> fst ` set (parts r)"
  proof cases
    case 2
    then show ?thesis using first_row_ids [OF assms(1), of j n] assms(2) \<open>Suc i \<le> n\<close> by auto
  qed (simp add: assms(3))
qed

lemma spliced_numbered:
  assumes "all_numbered K rs" "i < length rs" "numbered_row K (Suc i) new"
    and "length ws = length (drop (Suc i) rs)" "\<forall>j < length ws. numbered_row K (Suc (Suc i + j)) (ws ! j)"
  shows "all_numbered K (take (Suc i) rs @ new # ws)" (is "all_numbered K ?qs")
proof -
  have nth: "?qs ! j = (if j \<le> i then rs ! j else if j = Suc i then new else ws ! (j - Suc (Suc i)))" for j
    using assms(2) by (auto simp: nth_append nth_Cons' less_Suc_eq_le Suc_diff_Suc)
  have "numbered_row K j (?qs ! j)" if j: "0 < j" "j < length ?qs" for j
  proof -
    consider "j \<le> i" | "j = Suc i" | "Suc i < j" by linarith
    then show ?thesis
    proof cases
      case 1
      then show ?thesis using assms(1,2) j(1) by (simp add: nth all_numbered_def)
    next
      case 2
      then show ?thesis using assms(3) by (simp add: nth)
    next
      case 3
      have "length ?qs = Suc (Suc i) + length ws" using assms(2) by simp
      then have "j - Suc (Suc i) < length ws" "Suc (Suc i + (j - Suc (Suc i))) = j" using j(2) 3 by linarith+
      then have "numbered_row K j (ws ! (j - Suc (Suc i)))" using assms(5) by metis
      then show ?thesis using 3 by (simp add: nth)
    qed
  qed
  moreover have "take 1 ?qs = take 1 rs" using assms(2) by (cases rs) simp_all
  ultimately show ?thesis using assms(1) by (simp add: all_numbered_def)
qed

text \<open>The answer fills the row that was made for it, and no other.\<close>

lemma fill_made_row:
  assumes "\<forall>r \<in> set as \<union> set ws. rmade r \<noteq> Some k" "rmade new = Some k"
  shows "fill_panel_row k r_id ps (p\<lparr>prows := as @ new # ws\<rparr>)
      = p\<lparr>prows := as @ new\<lparr>rowid := r_id, parts := ps\<rparr> # ws\<rparr>"
proof -
  let ?f = "\<lambda>r. if rmade r = Some k then r\<lparr>rowid := r_id, parts := ps\<rparr> else r"
  have keep: "map ?f rs = rs"
    if "\<forall>r \<in> set rs. rmade r \<noteq> Some k" for rs
    using that by (intro map_idI) auto
  have "map ?f as = as" "map ?f ws = ws" by (rule keep, use assms(1) in blast)+
  then show ?thesis using assms(2) by (simp add: fill_panel_row_def)
qed

lemma answered_row:
  assumes "all_numbered K (prows p)" "row_with myid (prows p) = Some i" "\<forall>r \<in> set (prows p). rmade r \<noteq> Some (length (places p))"
    and "filter (path_part K) ps = [(path_name K (Suc i), path_name K (Suc i))]"
  shows "\<exists>q. panel_answer (length (places p)) (''tr_'' @ path_name K (Suc i)) ps (AppendPatchPanelRow myid key side p) = (q, None)
    \<and> all_numbered K (prows q) \<and> places q = places p @ [Suc i]
    \<and> map rmade (prows q) = take (Suc i) (map rmade (prows p)) @ Some (length (places p)) # drop (Suc i) (map rmade (prows p))
    \<and> map (other_parts K) (prows q)
        = take (Suc i) (map (other_parts K) (prows p)) @ filter (\<lambda>x. \<not> path_part K x) ps # drop (Suc i) (map (other_parts K) (prows p))"
proof -
  let ?k = "length (places p)" and ?as = "take (Suc i) (prows p)" and ?ys = "drop (Suc i) (prows p)"
  let ?new = "\<lparr>rmade = Some ?k, rowid = [], parts = []\<rparr>"
  let ?xs = "?as @ [?new]"
  have i: "i < length (prows p)" by (rule row_with_less [OF assms(2)])
  define p1 where "p1 = AppendPatchPanelRow myid key side p"
  have p1: "prows p1 = ?xs @ ?ys @ []" "places p1 ! ?k = Suc i" "places p1 = places p @ [Suc i]"
    using assms(2) by (simp_all add: p1_def AppendPatchPanelRow_def)
  have l: "length ?xs = Suc (Suc i)" "length (prows p1) = length ?xs + length ?ys" using i p1(1) by simp_all
  have y: "\<forall>j < length ?ys. numbered_row K (Suc i + j) (?ys ! j)" using assms(1) by (simp add: all_numbered_def)
  from renumber_rows [OF p1(1) y early_rows_free [OF assms(1) i]]
  obtain ws where ws: "js_run renumber_row p1 (rev [length ?xs..<length ?xs + length ?ys]) = (p1\<lparr>prows := ?xs @ ws @ []\<rparr>, None)"
    "length ws = length ?ys" "\<forall>j < length ?ys. numbered_row K (Suc (Suc i + j)) (ws ! j)"
    "map (other_parts K) ws = map (other_parts K) ?ys" "map rmade ws = map rmade ?ys" by auto
  define new where "new = \<lparr>rmade = Some ?k, rowid = ''tr_'' @ path_name K (Suc i), parts = ps\<rparr>"
  define q where "q = p1\<lparr>prows := ?as @ new # ws\<rparr>"
  have "rmade ` set ws \<subseteq> rmade ` set (prows p)"
    using ws(5) set_drop_subset [of "Suc i" "prows p"] by (metis image_mono set_map)
  then have "\<forall>r \<in> set ?as \<union> set ws. rmade r \<noteq> Some ?k"
    using assms(3) by (auto dest: in_set_takeD)
  from fill_made_row [OF this, of ?new "''tr_'' @ path_name K (Suc i)" ps p1]
  have fill: "fill_panel_row ?k (''tr_'' @ path_name K (Suc i)) ps (p1\<lparr>prows := ?xs @ ws @ []\<rparr>) = q"
    by (simp add: q_def new_def)
  have run: "js_run renumber_row p1 (rev [Suc (places p1 ! ?k)..<length (prows p1)]) = (p1\<lparr>prows := ?xs @ ws @ []\<rparr>, None)"
    using ws(1) by (simp only: p1(2) l)
  have ans: "panel_answer ?k (''tr_'' @ path_name K (Suc i)) ps p1 = (q, None)"
    unfolding panel_answer_def run by (simp only: prod.case option.case fill)
  have "numbered_row K (Suc i) new" using assms(4) by (simp add: numbered_row_def new_def)
  from spliced_numbered [OF assms(1) i this ws(2)] have "all_numbered K (prows q)"
    using ws(2,3) by (simp add: q_def)
  moreover have "map rmade (prows q) = take (Suc i) (map rmade (prows p)) @ Some ?k # drop (Suc i) (map rmade (prows p))"
    "map (other_parts K) (prows q) = take (Suc i) (map (other_parts K) (prows p))
        @ filter (\<lambda>x. \<not> path_part K x) ps # drop (Suc i) (map (other_parts K) (prows p))"
    using ws(4,5) by (simp_all add: q_def new_def other_parts_def take_map drop_map)
  moreover have "places q = places p @ [Suc i]" using p1(3) by (simp add: q_def)
  ultimately show ?thesis using ans unfolding p1_def [symmetric] by blast
qed

text \<open>A session of clicks that are each answered before the next one.\<close>

definition panel_round :: "string \<Rightarrow> string \<Rightarrow> (nat \<Rightarrow> (string \<times> string) list) \<Rightarrow> panel \<Rightarrow> string \<Rightarrow> panel" where
  "panel_round K side server p myid =
     (case row_with myid (prows p) of
        None \<Rightarrow> p
      | Some i \<Rightarrow>
          fst (panel_answer (length (places p)) (''tr_'' @ path_name K (Suc i)) (server (Suc i))
            (AppendPatchPanelRow myid K side p)))"

definition panel_ok :: "string \<Rightarrow> (nat \<Rightarrow> (string \<times> string) list) \<Rightarrow> panel \<Rightarrow> bool" where
  "panel_ok K server p \<longleftrightarrow>
     all_numbered K (prows p) \<and> (\<forall>r \<in> set (prows p). \<forall>k \<ge> length (places p). rmade r \<noteq> Some k)
     \<and> (\<forall>n. filter (path_part K) (server n) = [(path_name K n, path_name K n)])"

lemma panel_round_ok:
  assumes "panel_ok K server p"
  shows "panel_ok K server (panel_round K side server p myid)"
proof (cases "row_with myid (prows p)")
  case None
  then show ?thesis using assms by (simp add: panel_round_def)
next
  case (Some i)
  let ?k = "length (places p)"
  have "\<forall>r \<in> set (prows p). rmade r \<noteq> Some ?k" using assms by (simp add: panel_ok_def)
  then obtain q where q: "panel_answer ?k (''tr_'' @ path_name K (Suc i)) (server (Suc i)) (AppendPatchPanelRow myid K side p) = (q, None)"
    "all_numbered K (prows q)" "places q = places p @ [Suc i]"
    "map rmade (prows q) = take (Suc i) (map rmade (prows p)) @ Some ?k # drop (Suc i) (map rmade (prows p))"
    using answered_row [of K p myid i "server (Suc i)" K side] Some assms unfolding panel_ok_def by blast
  have "rmade r \<noteq> Some k" if "r \<in> set (prows q)" "length (places q) \<le> k" for r k
  proof -
    have "rmade r \<in> set (map rmade (prows q))" using that(1) by simp
    then have "rmade r = Some ?k \<or> rmade r \<in> set (map rmade (prows p))"
      unfolding q(4) by (auto dest: in_set_takeD in_set_dropD)
    moreover have "length (places p) \<le> k" using that(2) q(3) by simp
    then have "Some k \<notin> set (map rmade (prows p))"
      using assms by (auto simp: panel_ok_def) metis
    ultimately show ?thesis using that(2) q(3) by (metis Suc_n_not_le_n length_append_singleton option.inject)
  qed
  then show ?thesis using assms q(1,2) Some by (simp add: panel_ok_def panel_round_def)
qed

interpretation panel_rounds: handled "panel_round K side server" "\<lambda>_. True" "panel_ok K server"
  by unfold_locales (rule panel_round_ok)

text \<open>
  C14: Whatever links are clicked to add rows to a physical connection, when each click is answered before
  the next one: every row of the table carries its index in its identifier and in the identifier and name of
  the one hidden field in it, so that the server can read the hops of the connection in order.
\<close>

theorem panel_rows_numbered:
  assumes "all_numbered K (prows p)" "\<forall>r \<in> set (prows p). rmade r = None"
    and "\<forall>n. filter (path_part K) (server n) = [(path_name K n, path_name K n)]"
  shows "all_numbered K (prows (foldl (panel_round K side server) p ids))"
proof -
  have "panel_ok K server (foldl (panel_round K side server) p ids)"
    using assms by (intro panel_rounds.run_ok) (auto simp: panel_ok_def)
  then show ?thesis by (simp add: panel_ok_def)
qed

definition demo_panel :: panel where
  "demo_panel = \<lparr>prows = [\<lparr>rmade = None, rowid = ''tr_PhysPath_8_row0'', parts = [(''add_link_8'', ''add_link_8'')]\<rparr>,
       \<lparr>rmade = None, rowid = ''tr_PhysPath_8_row1'',
         parts = [(''PhysPath_8_row1'', ''PhysPath_8_row1''), (''CABLE_TYPE_5'', ''CABLE_TYPE_5'')]\<rparr>],
     places = [], panel_urls = []\<rparr>"

definition demo_answer :: "nat \<Rightarrow> (string \<times> string) list" where
  "demo_answer n = [(path_name ''8'' n, path_name ''8'' n), (''add_link_8_r'' @ nat_str n, ''add_link_8_r'' @ nat_str n)]"

lemma path_part_simps:
  "path_part K (path_name K n, x)" "\<not> prefix ''PhysPath_'' i \<Longrightarrow> \<not> path_part K (i, x)"
  by (auto simp: path_part_def path_name_def)

theorem panel_rows_numbered_witness:
  "all_numbered ''8'' (prows (foldl (panel_round ''8'' ''2'' demo_answer) demo_panel [''add_link_8'', ''add_link_8'', ''add_link_8_r1'']))"
proof -
  have n: "''PhysPath_8_row1'' = path_name ''8'' 1" "''tr_PhysPath_8_row1'' = ''tr_'' @ path_name ''8'' 1"
    "''tr_PhysPath_8_row0'' = ''tr_'' @ path_name ''8'' 0" by code_simp+
  have "all_numbered ''8'' (prows demo_panel)"
    unfolding demo_panel_def n by (auto simp: all_numbered_def numbered_row_def path_part_simps less_Suc_eq)
  moreover have "\<forall>r \<in> set (prows demo_panel). rmade r = None" by (simp add: demo_panel_def)
  moreover have "\<forall>n. filter (path_part ''8'') (demo_answer n) = [(path_name ''8'' n, path_name ''8'' n)]"
    by (simp add: demo_answer_def path_part_simps)
  ultimately show ?thesis by (rule panel_rows_numbered)
qed

section \<open>Rows that wait at the same time\<close>

lemma rename_in_rows_keeps:
  "rename_in_rows i j rs = Some qs \<Longrightarrow> map rowid qs = map rowid rs \<and> map rmade qs = map rmade rs"
  by (induction rs arbitrary: qs) (auto split: option.splits)

lemma renumber_row_keeps:
  "map rmade (prows (fst (renumber_row p i))) = map rmade (prows p)"
  "j \<noteq> i \<Longrightarrow> j < length (prows p) \<Longrightarrow> rowid (prows (fst (renumber_row p i)) ! j) = rowid (prows p ! j)"
  "length (prows (fst (renumber_row p i))) = length (prows p)"
proof -
  let ?rs = "(prows p)[i := (prows p ! i)\<lparr>rowid := next_row (rowid (prows p ! i))\<rparr>]"
  have m: "map rmade ?rs = map rmade (prows p)"
    by (cases "i < length (prows p)") (simp_all add: map_update list_update_same_conv list_update_beyond)
  consider "prows (fst (renumber_row p i)) = ?rs"
    | qs a b where "rename_in_rows a b ?rs = Some qs" "prows (fst (renumber_row p i)) = qs"
    by (cases "rename_in_rows (without_tr (rowid (prows p ! i))) (next_row (without_tr (rowid (prows p ! i)))) ?rs";
        cases "without_tr (rowid (prows p ! i)) = []") (simp_all add: renumber_row_def Let_def)
  then have k: "map rmade (prows (fst (renumber_row p i))) = map rmade (prows p)
      \<and> map rowid (prows (fst (renumber_row p i))) = map rowid ?rs"
    using m rename_in_rows_keeps by cases auto
  show "map rmade (prows (fst (renumber_row p i))) = map rmade (prows p)" using k by simp
  show l: "length (prows (fst (renumber_row p i))) = length (prows p)" using k by (metis length_map)
  assume j: "j \<noteq> i" "j < length (prows p)"
  have "rowid (prows (fst (renumber_row p i)) ! j) = map rowid (prows (fst (renumber_row p i))) ! j" using j l by simp
  also have "\<dots> = rowid (prows p ! j)" using k j by simp
  finally show "rowid (prows (fst (renumber_row p i)) ! j) = rowid (prows p ! j)" .
qed

text \<open>A row that waits stops the loop when it comes to it, if nothing has stopped it before.\<close>

lemma waiting_row_stops:
  assumes "distinct idx" "j \<in> set idx" "\<forall>i \<in> set idx. i < length (prows p)" "rowid (prows p ! j) = []"
  shows "\<exists>q. js_run renumber_row p idx = (q, Some TypeError) \<and> map rmade (prows q) = map rmade (prows p)"
  using assms
proof (induction idx arbitrary: p)
  case (Cons i idx)
  obtain q x where q: "renumber_row p i = (q, x)" by (cases "renumber_row p i")
  have x: "x = None \<or> x = Some TypeError" using q by (auto simp: renumber_row_def Let_def split: option.splits if_splits)
  note k = renumber_row_keeps [where p = p and i = i, unfolded q fst_conv]
  show ?case
  proof (cases "x = None")
    case True
    have "i \<noteq> j"
    proof
      assume "i = j"
      then have "x = Some TypeError" using q Cons.prems(4) by (simp add: renumber_row_def without_tr_def Let_def)
      then show False using True by simp
    qed
    then have "\<exists>q'. js_run renumber_row q idx = (q', Some TypeError) \<and> map rmade (prows q') = map rmade (prows q)"
      using Cons.prems k by (intro Cons.IH) auto
    then show ?thesis using q True k(1) by simp
  next
    case False
    then show ?thesis using q x k(1) by auto
  qed
qed simp



end
