(* ===== verification/Pictures.thy ===== *)
theory Pictures
  imports Prelude
begin

text \<open>
  The dialog for pictures of \<open>drops.js\<close>, the script of the directory of people: the rows of pictures with
  their captions and usages, rows for new pictures, and the rule that a usage which is not multivalued is
  selected for one picture at most.
\<close>

section \<open>The selects of usages\<close>

text \<open>A usage the server allows, and a select of usages: the text of every option and whether it is selected.\<close>

record usage =
  person_image_usage :: string
  is_multivalue :: string

record usage_select =
  sel_class :: string
  sel_name :: string
  sel_opts :: "(string \<times> bool) list"

definition selected_usages :: "usage_select \<Rightarrow> string list" where
  "selected_usages s = map fst (filter snd (sel_opts s))"

definition deselect :: "string \<Rightarrow> usage_select \<Rightarrow> usage_select" where
  "deselect u s = s\<lparr>sel_opts := map (\<lambda>(x, b). (x, b \<and> x \<noteq> u)) (sel_opts s)\<rparr>"

text \<open>The options with the text \<open>myusg\<close> of all selects but the one named \<open>checkit\<close>.\<close>

definition clear_others :: "string \<Rightarrow> string \<Rightarrow> usage_select list \<Rightarrow> usage_select list" where
  "clear_others checkit myusg sels =
     map (\<lambda>s. if sel_class s = ''person_image_usage'' \<and> sel_name s \<noteq> checkit then deselect myusg s else s) sels"

definition check_usage :: "usage list \<Rightarrow> string \<Rightarrow> string \<Rightarrow> usage_select list \<Rightarrow> usage_select list" where
  "check_usage valid checkit myusg sels =
     fold (\<lambda>v sels. if person_image_usage v = myusg
                    then (if is_multivalue v = ''N'' then clear_others checkit myusg sels else sels)
                    else sels) valid sels"

text \<open>
  The selected options are collected before the first of them is looked at.
\<close>

definition enforce_select_is_multivalue ::
  "string \<Rightarrow> string \<Rightarrow> usage list \<Rightarrow> usage_select list \<Rightarrow> usage_select list" where
  "enforce_select_is_multivalue in_class my_item valid sels =
     fold (\<lambda>(checkit, myusg) sels. check_usage valid checkit myusg sels)
       (concat (map (\<lambda>s. map (Pair (sel_name s)) (selected_usages s))
          (filter (\<lambda>s. sel_class s = in_class \<and> sel_name s = my_item) sels)))
       sels"

section \<open>The dialog\<close>

text \<open>
  The answer of the server.  A picture without a usage comes with an empty list of usages.
\<close>

record picture =
  person_image_id :: string
  description :: string
  image_usages :: "string list"

record pictures =
  pics :: "picture list option"
  valid_usage :: "usage list"

text \<open>A row: the address of the picture or the name of the file input, the caption, and the usages.\<close>

record pic_row =
  img_src :: "string option"
  file_input :: "string option"
  caption_name :: string
  caption :: string
  usage_sel :: usage_select

record pic_dialog =
  of_person :: string
  pic_rows :: "pic_row list"
  usages :: "usage list"

text \<open>
  \<open>open_requests\<close> holds the persons whose pictures were asked for.  \<open>toggle(1)\<close> is jQuery's animation: it
  shows what is hidden and hides what is shown.
\<close>

record pic_page =
  display_shown :: bool
  dialog_in :: "pic_dialog option"
  pic_offset :: nat
  pic_requests :: "string list"
  pic_alerts :: "string list"

definition usage_name :: "string \<Rightarrow> string" where
  "usage_name imgid = ''person_image_usage_'' @ imgid"

definition new_usage_name :: "nat \<Rightarrow> string" where
  "new_usage_name n = ''new_person_image_usage_'' @ nat_str n"

lemma usage_names [simp]:
  "usage_name a = usage_name b \<longleftrightarrow> a = b" "new_usage_name m = new_usage_name n \<longleftrightarrow> m = n"
  "usage_name a \<noteq> new_usage_name n" "new_usage_name n \<noteq> usage_name a"
  by (simp_all add: usage_name_def new_usage_name_def)

definition pic_row_of :: "string \<Rightarrow> usage list \<Rightarrow> picture \<Rightarrow> pic_row" where
  "pic_row_of person_id valid x =
     (let imgid = person_image_id x in
      \<lparr>img_src = Some (''picture.php?person_id='' @ person_id @ ''&person_image_id='' @ imgid @ ''&type=contact''),
       file_input = None,
       caption_name = ''description_'' @ imgid,
       caption = description x,
       usage_sel = \<lparr>sel_class = ''person_image_usage'', sel_name = usage_name imgid,
         sel_opts = map (\<lambda>v. (person_image_usage v, person_image_usage v \<in> set (image_usages x))) valid\<rparr>\<rparr>)"

definition new_pic_row :: "nat \<Rightarrow> usage list \<Rightarrow> pic_row" where
  "new_pic_row n valid =
     \<lparr>img_src = None, file_input = Some (''newpic_file_'' @ nat_str n),
      caption_name = ''new_description_'' @ nat_str n, caption = [],
      usage_sel = \<lparr>sel_class = ''person_image_usage'', sel_name = new_usage_name n,
        sel_opts = map (\<lambda>v. (person_image_usage v, False)) valid\<rparr>\<rparr>"

definition pic_manip :: "string \<Rightarrow> pic_page \<Rightarrow> pic_page" where
  "pic_manip person_id p = p\<lparr>pic_requests := pic_requests p @ [person_id]\<rparr>"

definition pics_answer :: "string \<Rightarrow> pictures \<Rightarrow> pic_page \<Rightarrow> pic_page" where
  "pics_answer person_id resp p =
     p\<lparr>display_shown := \<not> display_shown p,
       dialog_in := Some \<lparr>of_person = person_id,
         pic_rows = (case pics resp of None \<Rightarrow> [] | Some xs \<Rightarrow> map (pic_row_of person_id (valid_usage resp)) xs),
         usages = valid_usage resp\<rparr>\<rparr>"

definition pics_failed :: "pic_page \<Rightarrow> pic_page" where
  "pics_failed p = p\<lparr>pic_alerts := pic_alerts p
     @ [''There was an issue downloading picture information.    Please reload the page or try later.'']\<rparr>"

definition add_pic_click :: "pic_page \<Rightarrow> pic_page" where
  "add_pic_click p =
     (case dialog_in p of
        None \<Rightarrow> p
      | Some d \<Rightarrow> p\<lparr>dialog_in := Some (d\<lparr>pic_rows := pic_rows d @ [new_pic_row (pic_offset p) (usages d)]\<rparr>),
          pic_offset := Suc (pic_offset p)\<rparr>)"

definition close_pics :: "pic_page \<Rightarrow> pic_page" where
  "close_pics p = (case dialog_in p of None \<Rightarrow> p | Some _ \<Rightarrow> p\<lparr>display_shown := \<not> display_shown p, dialog_in := None\<rparr>)"

text \<open>
  The user selects the options \<open>us\<close> in the select of the row \<open>k\<close>: the browser sets them, then the handler
  runs over the selects of the document.
\<close>

definition set_selects :: "usage_select list \<Rightarrow> pic_row list \<Rightarrow> pic_row list" where
  "set_selects sels rows = map2 (\<lambda>s r. r\<lparr>usage_sel := s\<rparr>) sels rows"

definition choose_options :: "string list \<Rightarrow> usage_select \<Rightarrow> usage_select" where
  "choose_options us s = s\<lparr>sel_opts := map (\<lambda>(x, _). (x, x \<in> set us)) (sel_opts s)\<rparr>"

definition usage_change :: "nat \<Rightarrow> string list \<Rightarrow> pic_page \<Rightarrow> pic_page" where
  "usage_change k us p =
     (case dialog_in p of
        None \<Rightarrow> p
      | Some d \<Rightarrow>
          if k < length (pic_rows d) then
            let sels = (map usage_sel (pic_rows d))[k := choose_options us (usage_sel (pic_rows d ! k))];
                sels' = enforce_select_is_multivalue ''person_image_usage'' (sel_name (sels ! k)) (usages d) sels
            in p\<lparr>dialog_in := Some (d\<lparr>pic_rows := set_selects sels' (pic_rows d)\<rparr>)\<rparr>
          else p)"

datatype pic_event =
  EditPhotos string | PicsArrive nat pictures | PicsFail | AddPic | ChangeUsage nat "string list" | ClosePics

definition pic_step :: "pic_page \<Rightarrow> pic_event \<Rightarrow> pic_page" where
  "pic_step p ev =
     (case ev of
        EditPhotos i \<Rightarrow> pic_manip i p
      | PicsArrive k resp \<Rightarrow> if k < length (pic_requests p) then pics_answer (pic_requests p ! k) resp p else p
      | PicsFail \<Rightarrow> pics_failed p
      | AddPic \<Rightarrow> add_pic_click p
      | ChangeUsage k us \<Rightarrow> usage_change k us p
      | ClosePics \<Rightarrow> close_pics p)"

section \<open>What the rule does\<close>

definition single :: "usage list \<Rightarrow> string \<Rightarrow> bool" where
  "single valid u \<longleftrightarrow> (\<exists>v \<in> set valid. person_image_usage v = u \<and> is_multivalue v = ''N'')"

text \<open>
  The reference: in every other select the usages that are single and selected in the changed one are
  deselected.
\<close>

definition exclusive :: "string \<Rightarrow> usage list \<Rightarrow> usage_select list \<Rightarrow> usage_select list" where
  "exclusive n valid sels =
     (let chosen = concat (map selected_usages
            (filter (\<lambda>s. sel_class s = ''person_image_usage'' \<and> sel_name s = n) sels))
      in map (\<lambda>s. if sel_class s = ''person_image_usage'' \<and> sel_name s \<noteq> n
                  then s\<lparr>sel_opts := map (\<lambda>(u, b). (u, b \<and> \<not> (single valid u \<and> u \<in> set chosen))) (sel_opts s)\<rparr>
                  else s) sels)"

definition without_usages :: "string set \<Rightarrow> usage_select \<Rightarrow> usage_select" where
  "without_usages us s = s\<lparr>sel_opts := map (\<lambda>(u, b). (u, b \<and> u \<notin> us)) (sel_opts s)\<rparr>"

lemma without_usages_simps [simp]:
  "sel_class (without_usages us s) = sel_class s" "sel_name (without_usages us s) = sel_name s"
  "without_usages us (without_usages ws s) = without_usages (us \<union> ws) s"
  "without_usages {} s = s"
proof -
  have "map ((\<lambda>(u, b). (u, b \<and> u \<notin> us)) \<circ> (\<lambda>(u, b). (u, b \<and> u \<notin> ws))) xs
      = map (\<lambda>(u, b). (u, b \<and> u \<notin> us \<and> u \<notin> ws)) xs" for xs :: "(string \<times> bool) list"
    by (induction xs) auto
  then show "without_usages us (without_usages ws s) = without_usages (us \<union> ws) s"
    by (simp add: without_usages_def)
  have "map (\<lambda>(u, b). (u, b \<and> u \<notin> {})) xs = xs" for xs :: "(string \<times> bool) list"
    by (induction xs) auto
  then show "without_usages {} s = s" by (simp add: without_usages_def del: empty_iff)
qed (simp_all add: without_usages_def)

lemma selected_without [simp]: "set (selected_usages (without_usages us s)) = set (selected_usages s) - us"
proof -
  have "fst ` set (filter snd (map (\<lambda>(u, b). (u, b \<and> u \<notin> us)) xs)) = fst ` set (filter snd xs) - us"
    for xs :: "(string \<times> bool) list"
    by (induction xs) auto
  then show ?thesis by (simp add: selected_usages_def without_usages_def)
qed

definition clear_set :: "string \<Rightarrow> string set \<Rightarrow> usage_select list \<Rightarrow> usage_select list" where
  "clear_set n us sels =
     map (\<lambda>s. if sel_class s = ''person_image_usage'' \<and> sel_name s \<noteq> n then without_usages us s else s) sels"

lemma clear_set_empty: "clear_set n {} sels = sels"
  by (simp add: clear_set_def cong: if_cong)

lemma clear_set_clear_set: "clear_set n us (clear_set n ws sels) = clear_set n (us \<union> ws) sels"
  by (auto simp: clear_set_def)

lemma clear_others_set: "clear_others n u sels = clear_set n {u} sels"
  by (simp add: clear_others_def clear_set_def deselect_def without_usages_def)

lemma check_usage_set: "check_usage valid n u sels = clear_set n (if single valid u then {u} else {}) sels"
  unfolding check_usage_def
proof (induction valid arbitrary: sels)
  case (Cons v vs)
  have "single (v # vs) u \<longleftrightarrow> person_image_usage v = u \<and> is_multivalue v = ''N'' \<or> single vs u"
    by (simp add: single_def)
  then show ?case
    using Cons.IH by (auto simp: clear_others_set clear_set_clear_set clear_set_empty)
qed (simp add: single_def clear_set_empty)

lemma check_usages_set:
  "\<forall>x \<in> set xs. fst x = n \<Longrightarrow>
   fold (\<lambda>(checkit, myusg) sels. check_usage valid checkit myusg sels) xs sels
     = clear_set n {u \<in> snd ` set xs. single valid u} sels"
proof (induction xs arbitrary: sels)
  case (Cons x xs)
  obtain u where x: "x = (n, u)" using Cons.prems by (cases x) simp
  have "{w \<in> snd ` set (x # xs). single valid w}
      = {w \<in> snd ` set xs. single valid w} \<union> (if single valid u then {u} else {})"
    by (auto simp: x)
  then show ?case using Cons by (simp add: x check_usage_set clear_set_clear_set)
qed (simp add: clear_set_empty)

lemma enforce_set:
  "enforce_select_is_multivalue ''person_image_usage'' n valid sels
     = clear_set n {u. single valid u \<and>
         (\<exists>s \<in> set sels. sel_class s = ''person_image_usage'' \<and> sel_name s = n \<and> u \<in> set (selected_usages s))} sels"
proof -
  define xs where "xs = concat (map (\<lambda>s. map (Pair (sel_name s)) (selected_usages s))
      (filter (\<lambda>s. sel_class s = ''person_image_usage'' \<and> sel_name s = n) sels))"
  have "\<forall>x \<in> set xs. fst x = n" by (auto simp: xs_def)
  moreover have "{u \<in> snd ` set xs. single valid u} = {u. single valid u \<and>
      (\<exists>s \<in> set sels. sel_class s = ''person_image_usage'' \<and> sel_name s = n \<and> u \<in> set (selected_usages s))}"
    by (force simp: xs_def image_iff)
  ultimately show ?thesis
    using check_usages_set [of xs n valid sels] unfolding enforce_select_is_multivalue_def xs_def [symmetric] by simp
qed

text \<open>
  C18: Enforcing the rule after a change of a select is the same as deselecting, in every other select of
  usages at once, the usages that are not multivalued and selected in it; everything else stays.
\<close>

theorem enforce_is_exclusive:
  "enforce_select_is_multivalue ''person_image_usage'' n valid sels = exclusive n valid sels"
proof -
  have "(\<exists>s \<in> set sels. sel_class s = ''person_image_usage'' \<and> sel_name s = n \<and> u \<in> set (selected_usages s))
      \<longleftrightarrow> u \<in> set (concat (map selected_usages
            (filter (\<lambda>s. sel_class s = ''person_image_usage'' \<and> sel_name s = n) sels)))" for u
    by auto
  then show ?thesis
    by (simp only: enforce_set exclusive_def clear_set_def without_usages_def Let_def mem_Collect_eq)
qed

section \<open>A usage that is not multivalued is selected once\<close>

text \<open>
  What is kept: the selects have names of their own, those of new pictures below the counter, and of every
  single usage there is at most one select in which it is selected.
\<close>

definition selects :: "pic_dialog \<Rightarrow> usage_select list" where
  "selects d = map usage_sel (pic_rows d)"

definition names_ok :: "nat \<Rightarrow> usage_select list \<Rightarrow> bool" where
  "names_ok n sels \<longleftrightarrow> distinct (map sel_name sels)
     \<and> (\<forall>s \<in> set sels. sel_class s = ''person_image_usage''
          \<and> (\<forall>k. sel_name s = new_usage_name k \<longrightarrow> k < n))"

definition once_ok :: "usage list \<Rightarrow> usage_select list \<Rightarrow> bool" where
  "once_ok valid sels \<longleftrightarrow>
     (\<forall>u s t. single valid u \<and> s \<in> set sels \<and> t \<in> set sels \<and> u \<in> set (selected_usages s) \<and> u \<in> set (selected_usages t)
        \<longrightarrow> sel_name s = sel_name t)"

definition pics_ok :: "pic_page \<Rightarrow> bool" where
  "pics_ok p \<longleftrightarrow> (case dialog_in p of None \<Rightarrow> True
     | Some d \<Rightarrow> names_ok (pic_offset p) (selects d) \<and> once_ok (usages d) (selects d))"

text \<open>What the data base promises of an answer: pictures have identifiers of their own, and a single usage one picture.\<close>

definition resp_ok :: "pictures \<Rightarrow> bool" where
  "resp_ok resp \<longleftrightarrow> (case pics resp of None \<Rightarrow> True
     | Some xs \<Rightarrow> distinct (map person_image_id xs)
        \<and> (\<forall>u x y. single (valid_usage resp) u \<and> x \<in> set xs \<and> y \<in> set xs \<and> u \<in> set (image_usages x) \<and> u \<in> set (image_usages y)
             \<longrightarrow> person_image_id x = person_image_id y))"

definition pic_event_ok :: "pic_event \<Rightarrow> bool" where
  "pic_event_ok ev = (case ev of PicsArrive _ resp \<Rightarrow> resp_ok resp | _ \<Rightarrow> True)"

lemma selected_row [simp]:
  "u \<in> set (selected_usages (usage_sel (pic_row_of i valid x))) \<longleftrightarrow>
     u \<in> person_image_usage ` set valid \<and> u \<in> set (image_usages x)"
  by (auto simp: pic_row_of_def Let_def selected_usages_def filter_map o_def)

lemma row_sel [simp]:
  "sel_name (usage_sel (pic_row_of i valid x)) = usage_name (person_image_id x)"
  "sel_class (usage_sel (pic_row_of i valid x)) = ''person_image_usage''"
  by (simp_all add: pic_row_of_def Let_def)

lemma new_row_sel [simp]:
  "sel_name (usage_sel (new_pic_row n valid)) = new_usage_name n"
  "sel_class (usage_sel (new_pic_row n valid)) = ''person_image_usage''"
  "selected_usages (usage_sel (new_pic_row n valid)) = []"
  by (simp_all add: new_pic_row_def selected_usages_def filter_empty_conv)

lemma names_okD:
  "names_ok n sels \<Longrightarrow> s \<in> set sels \<Longrightarrow> sel_class s = ''person_image_usage''"
  "names_ok n sels \<Longrightarrow> s \<in> set sels \<Longrightarrow> sel_name s = new_usage_name k \<Longrightarrow> k < n"
  "names_ok n sels \<Longrightarrow> distinct (map sel_name sels)"
  unfolding names_ok_def by blast+

lemma once_okI:
  "(\<And>u s t. single valid u \<Longrightarrow> s \<in> set sels \<Longrightarrow> t \<in> set sels \<Longrightarrow> u \<in> set (selected_usages s)
     \<Longrightarrow> u \<in> set (selected_usages t) \<Longrightarrow> sel_name s = sel_name t) \<Longrightarrow> once_ok valid sels"
  unfolding once_ok_def by blast

lemma once_okD:
  "once_ok valid sels \<Longrightarrow> single valid u \<Longrightarrow> s \<in> set sels \<Longrightarrow> t \<in> set sels \<Longrightarrow> u \<in> set (selected_usages s)
     \<Longrightarrow> u \<in> set (selected_usages t) \<Longrightarrow> sel_name s = sel_name t"
  unfolding once_ok_def by blast

lemma pics_answer_ok:
  assumes "resp_ok resp"
  shows "pics_ok (pics_answer i resp p)"
proof (cases "pics resp")
  case (Some xs)
  let ?sels = "map (usage_sel \<circ> pic_row_of i (valid_usage resp)) xs"
  have d: "distinct (map person_image_id xs)"
    and o: "\<forall>u x y. single (valid_usage resp) u \<and> x \<in> set xs \<and> y \<in> set xs
      \<and> u \<in> set (image_usages x) \<and> u \<in> set (image_usages y) \<longrightarrow> person_image_id x = person_image_id y"
    using assms unfolding resp_ok_def Some option.case by (blast, rule conjunct2)
  have "distinct (map sel_name ?sels)"
    using d by (simp add: distinct_map inj_on_def)
  then have "names_ok (pic_offset p) ?sels" by (auto simp: names_ok_def)
  moreover have "once_ok (valid_usage resp) ?sels"
  proof (rule once_okI)
    fix u s t
    assume u: "single (valid_usage resp) u" "s \<in> set ?sels" "t \<in> set ?sels"
      "u \<in> set (selected_usages s)" "u \<in> set (selected_usages t)"
    then obtain x y where xy: "x \<in> set xs" "s = usage_sel (pic_row_of i (valid_usage resp) x)"
      "y \<in> set xs" "t = usage_sel (pic_row_of i (valid_usage resp) y)" by auto
    then have "person_image_id x = person_image_id y"
      using u(1,4,5) o unfolding xy(2,4) selected_row by blast
    then show "sel_name s = sel_name t" unfolding xy(2,4) row_sel by simp
  qed
  ultimately show ?thesis using Some by (simp add: pics_ok_def pics_answer_def selects_def)
qed (simp add: pics_ok_def pics_answer_def selects_def names_ok_def once_ok_def)

lemma add_pic_ok: "pics_ok p \<Longrightarrow> pics_ok (add_pic_click p)"
proof (cases "dialog_in p")
  case (Some d)
  assume ok: "pics_ok p"
  let ?s = "usage_sel (new_pic_row (pic_offset p) (usages d))"
  have sel: "selects (d\<lparr>pic_rows := pic_rows d @ [new_pic_row (pic_offset p) (usages d)]\<rparr>) = selects d @ [?s]"
    by (simp add: selects_def)
  have n: "names_ok (pic_offset p) (selects d)" and o: "once_ok (usages d) (selects d)"
    using ok Some by (simp_all add: pics_ok_def)
  have "names_ok (Suc (pic_offset p)) (selects d @ [?s])"
  proof -
    have "sel_name ?s \<notin> sel_name ` set (selects d)"
      using names_okD(2) [OF n, of _ "pic_offset p"] by (metis imageE less_irrefl new_row_sel(1))
    then show ?thesis
      using names_okD [OF n] by (auto simp: names_ok_def less_Suc_eq)
  qed
  moreover have "once_ok (usages d) (selects d @ [?s])"
  proof (rule once_okI)
    fix u s t
    assume u: "single (usages d) u" "s \<in> set (selects d @ [?s])" "t \<in> set (selects d @ [?s])"
      "u \<in> set (selected_usages s)" "u \<in> set (selected_usages t)"
    then have "s \<in> set (selects d)" "t \<in> set (selects d)" by auto
    then show "sel_name s = sel_name t" using once_okD [OF o u(1)] u(4,5) by blast
  qed
  ultimately show ?thesis using Some sel by (simp add: pics_ok_def add_pic_click_def)
qed (simp add: add_pic_click_def)

lemma names_ok_cong:
  assumes "map sel_name a = map sel_name b" "map sel_class a = map sel_class b"
  shows "names_ok n a = names_ok n b"
proof -
  have ok: "names_ok n xs \<longleftrightarrow> distinct (map sel_name xs) \<and> set (map sel_class xs) \<subseteq> {''person_image_usage''}
      \<and> (\<forall>m \<in> set (map sel_name xs). \<forall>j. m = new_usage_name j \<longrightarrow> j < n)" for xs
    unfolding names_ok_def set_map ball_simps(9) image_subset_iff singleton_iff ball_conj_distrib by (rule refl)
  show ?thesis unfolding ok assms by (rule refl)
qed

lemma clear_set_keeps:
  "map sel_name (clear_set n us sels) = map sel_name sels" "map sel_class (clear_set n us sels) = map sel_class sels"
  by (simp_all add: clear_set_def o_def cong: if_cong)

lemma chosen_keeps:
  assumes "k < length sels" "c = choose_options us (sels ! k)"
  shows "map sel_name (sels[k := c]) = map sel_name sels" "map sel_class (sels[k := c]) = map sel_class sels"
proof -
  have "sel_name c = map sel_name sels ! k" "sel_class c = map sel_class sels ! k"
    using assms by (simp_all add: choose_options_def)
  then show "map sel_name (sels[k := c]) = map sel_name sels" "map sel_class (sels[k := c]) = map sel_class sels"
    by (simp_all only: map_update list_update_id)
qed

text \<open>What is selected after a change: in the other selects, what was selected there and was not cleared.\<close>

lemma selected_after:
  assumes "\<forall>x \<in> set sels. sel_class x = ''person_image_usage''" "s \<in> set (clear_set (sel_name c) us (sels[k := c]))"
    and "sel_name s \<noteq> sel_name c" "u \<in> set (selected_usages s)" "sel_class c = ''person_image_usage''"
  shows "u \<notin> us \<and> (\<exists>x \<in> set sels. sel_name x = sel_name s \<and> u \<in> set (selected_usages x))"
proof -
  obtain x where x: "x \<in> set (sels[k := c])"
      "s = (if sel_class x = ''person_image_usage'' \<and> sel_name x \<noteq> sel_name c then without_usages us x else x)"
    using assms(2) unfolding clear_set_def by auto
  then have "sel_name x = sel_name s" by (simp split: if_splits)
  moreover have old: "x \<in> set sels"
    using x(1) set_update_subset_insert [of sels k c] \<open>sel_name x = sel_name s\<close> assms(3) by auto
  ultimately have "s = without_usages us x" using x(2) assms(1,3) by simp
  then show ?thesis using assms(4) old by auto
qed

lemma clear_set_once:
  assumes "once_ok valid sels" "k < length sels" "names_ok n sels"
    and "c = choose_options us (sels ! k)"
  shows "names_ok n (enforce_select_is_multivalue ''person_image_usage'' (sel_name c) valid (sels[k := c]))
       \<and> once_ok valid (enforce_select_is_multivalue ''person_image_usage'' (sel_name c) valid (sels[k := c]))"
proof -
  let ?new = "sels[k := c]"
  have cl: "\<forall>x \<in> set sels. sel_class x = ''person_image_usage''" using assms(3) by (simp add: names_ok_def)
  then have c: "sel_class c = ''person_image_usage''" using assms(2,4) by (simp add: choose_options_def)
  define us' where "us' = {u. single valid u \<and> (\<exists>s \<in> set ?new. sel_class s = ''person_image_usage''
      \<and> sel_name s = sel_name c \<and> u \<in> set (selected_usages s))}"
  have e: "enforce_select_is_multivalue ''person_image_usage'' (sel_name c) valid ?new = clear_set (sel_name c) us' ?new"
    by (simp add: enforce_set us'_def)
  have "names_ok n (clear_set (sel_name c) us' ?new)"
    using names_ok_cong clear_set_keeps chosen_keeps [OF assms(2,4)] assms(3) by metis
  moreover have "once_ok valid (clear_set (sel_name c) us' ?new)"
  proof (rule once_okI)
    fix u s t
    let ?e = "clear_set (sel_name c) us' ?new"
    assume u: "single valid u" "s \<in> set ?e" "t \<in> set ?e" "u \<in> set (selected_usages s)" "u \<in> set (selected_usages t)"
    note after = selected_after [OF cl _ _ _ c]
    have here: "u \<in> us'" if x: "x \<in> set ?e" "sel_name x = sel_name c" "u \<in> set (selected_usages x)" for x
      using x u(1) set_update_subset_insert [of sels k c] cl c
      unfolding us'_def clear_set_def by (auto split: if_splits)
    show "sel_name s = sel_name t"
    proof (cases "u \<in> us'")
      case True
      then have "sel_name s = sel_name c" "sel_name t = sel_name c"
        using after [OF u(2) _ u(4)] after [OF u(3) _ u(5)] by blast+
      then show ?thesis by simp
    next
      case False
      then have "sel_name s \<noteq> sel_name c" "sel_name t \<noteq> sel_name c" using here u(2-5) by blast+
      then show ?thesis
        using after [OF u(2) _ u(4)] after [OF u(3) _ u(5)] once_okD [OF assms(1) u(1)] by metis
    qed
  qed
  ultimately show ?thesis unfolding e by blast
qed

lemma usage_sels_set_selects:
  "length sels = length rows \<Longrightarrow> map usage_sel (set_selects sels rows) = sels"
  unfolding set_selects_def by (induction sels rows rule: list_induct2) simp_all

lemma enforce_length [simp]:
  "length (enforce_select_is_multivalue ''person_image_usage'' n valid sels) = length sels"
  by (simp add: enforce_set clear_set_def)

lemma usage_change_ok:
  assumes "pics_ok p"
  shows "pics_ok (usage_change k us p)"
proof (cases "dialog_in p")
  case (Some d)
  show ?thesis
  proof (cases "k < length (pic_rows d)")
    case True
    let ?c = "choose_options us (selects d ! k)"
    let ?sels = "(selects d)[k := ?c]"
    let ?sels' = "enforce_select_is_multivalue ''person_image_usage'' (sel_name ?c) (usages d) ?sels"
    have l: "k < length (selects d)" using True by (simp add: selects_def)
    have c: "choose_options us (usage_sel (pic_rows d ! k)) = ?c" using True by (simp add: selects_def)
    have "selects (d\<lparr>pic_rows := set_selects ?sels' (pic_rows d)\<rparr>) = ?sels'"
      by (simp add: selects_def usage_sels_set_selects)
    moreover have "usage_change k us p = p\<lparr>dialog_in := Some (d\<lparr>pic_rows := set_selects ?sels' (pic_rows d)\<rparr>)\<rparr>"
      using Some True l by (simp add: usage_change_def Let_def c flip: selects_def)
    moreover have "names_ok (pic_offset p) ?sels' \<and> once_ok (usages d) ?sels'"
      using assms Some by (intro clear_set_once [OF _ l _ refl]) (simp_all add: pics_ok_def)
    ultimately show ?thesis by (simp add: pics_ok_def)
  qed (use assms Some in \<open>simp add: usage_change_def\<close>)
qed (use assms in \<open>simp add: usage_change_def\<close>)

lemma pic_step_ok:
  assumes "pics_ok p" "pic_event_ok ev"
  shows "pics_ok (pic_step p ev)"
proof (cases ev)
  case (ClosePics)
  then show ?thesis using assms by (simp add: pic_step_def close_pics_def pics_ok_def split: option.split)
next
  case (EditPhotos i)
  then show ?thesis using assms by (simp add: pic_step_def pic_manip_def pics_ok_def cong: option.case_cong)
next
  case PicsFail
  then show ?thesis using assms by (simp add: pic_step_def pics_failed_def pics_ok_def cong: option.case_cong)
next
  case (PicsArrive k resp)
  then show ?thesis using assms pics_answer_ok by (simp add: pic_step_def pic_event_ok_def)
qed (use assms add_pic_ok usage_change_ok in \<open>simp_all add: pic_step_def\<close>)

interpretation picture_dialog: handled pic_step pic_event_ok pics_ok
  by unfold_locales (rule pic_step_ok)

text \<open>
  C9: In every session with the dialog (pictures asked for again, answers late or in any order, rows added,
  usages chosen in any rows) a usage that is not multivalued is selected for one picture at most.
\<close>

theorem single_usage_selected_once:
  assumes "dialog_in p0 = None" "\<forall>ev \<in> set evs. pic_event_ok ev"
    and "dialog_in (foldl pic_step p0 evs) = Some d" "single (usages d) u"
    and "i < length (pic_rows d)" "u \<in> set (selected_usages (usage_sel (pic_rows d ! i)))"
    and "j < length (pic_rows d)" "u \<in> set (selected_usages (usage_sel (pic_rows d ! j)))"
  shows "i = j"
proof -
  have "pics_ok p0" using assms(1) by (simp add: pics_ok_def)
  then have "pics_ok (foldl pic_step p0 evs)" using assms(2) by (rule picture_dialog.run_ok)
  then have n: "distinct (map sel_name (selects d))" and o: "once_ok (usages d) (selects d)"
    using assms(3) names_okD(3) by (auto simp: pics_ok_def)
  have "selects d ! i \<in> set (selects d)" "selects d ! j \<in> set (selects d)"
    using assms(5,7) by (simp_all add: selects_def)
  then have "sel_name (selects d ! i) = sel_name (selects d ! j)"
    using assms(5-8) by (intro once_okD [OF o assms(4)]) (simp_all add: selects_def)
  then show ?thesis
    using n assms(5,7) by (simp add: selects_def distinct_conv_nth) metis
qed

definition demo_pictures :: pictures where
  "demo_pictures =
     \<lparr>pics = Some [\<lparr>person_image_id = ''4'', description = [], image_usages = [''corpdirectory'']\<rparr>,
        \<lparr>person_image_id = ''9'', description = ''beach'', image_usages = [''yearbook'']\<rparr>],
      valid_usage = [\<lparr>person_image_usage = ''corpdirectory'', is_multivalue = ''N''\<rparr>,
        \<lparr>person_image_usage = ''yearbook'', is_multivalue = ''Y''\<rparr>]\<rparr>"

definition demo_pic_page :: pic_page where
  "demo_pic_page = \<lparr>display_shown = False, dialog_in = None, pic_offset = 0, pic_requests = [], pic_alerts = []\<rparr>"

definition demo_pic_events :: "pic_event list" where
  "demo_pic_events = [EditPhotos ''17'', PicsArrive 0 demo_pictures, AddPic, ChangeUsage 2 [''corpdirectory'', ''yearbook''],
     ChangeUsage 1 [''corpdirectory'', ''yearbook'']]"

definition demo_pic_dialog :: pic_dialog where
  "demo_pic_dialog = the (dialog_in (foldl pic_step demo_pic_page demo_pic_events))"

theorem single_usage_selected_once_witness:
  "map (\<lambda>r. selected_usages (usage_sel r)) (pic_rows demo_pic_dialog)
     = [[], [''corpdirectory'', ''yearbook''], [''yearbook'']]
   \<and> ''corpdirectory'' \<notin> set (selected_usages (usage_sel (pic_rows demo_pic_dialog ! 0)))"
proof -
  have sel: "map (\<lambda>r. selected_usages (usage_sel r)) (pic_rows demo_pic_dialog)
     = [[], [''corpdirectory'', ''yearbook''], [''yearbook'']]" by code_simp
  have "resp_ok demo_pictures" by (auto simp: resp_ok_def demo_pictures_def single_def)
  then have ok: "\<forall>ev \<in> set demo_pic_events. pic_event_ok ev" by (simp add: demo_pic_events_def pic_event_ok_def)
  have d: "dialog_in (foldl pic_step demo_pic_page demo_pic_events) = Some demo_pic_dialog" by code_simp
  have u: "single (usages demo_pic_dialog) ''corpdirectory''" by code_simp
  have l: "0 < length (pic_rows demo_pic_dialog)" "1 < length (pic_rows demo_pic_dialog)" by code_simp+
  have s: "''corpdirectory'' \<in> set (selected_usages (usage_sel (pic_rows demo_pic_dialog ! 1)))" by code_simp
  have "\<not> ''corpdirectory'' \<in> set (selected_usages (usage_sel (pic_rows demo_pic_dialog ! 0)))"
    using single_usage_selected_once [OF _ ok d u l(1) _ l(2) s] by (auto simp: demo_pic_page_def)
  with sel show ?thesis by simp
qed

section \<open>Opening the dialog again\<close>

text \<open>
  The dialog toggles where it means to show: asking for the pictures while they are shown hides the dialog
  when the answer comes, although it is filled anew.
\<close>

theorem asked_again_hides:
  assumes "display_shown p" "pic_requests p = []"
  shows "\<not> display_shown (foldl pic_step p [EditPhotos i, PicsArrive 0 resp])
       \<and> dialog_in (foldl pic_step p [EditPhotos i, PicsArrive 0 resp]) \<noteq> None"
  using assms by (simp add: pic_step_def pic_manip_def pics_answer_def)

end
