(* ===== verification/Directory.thy ===== *)
theory Directory
  imports Prelude
begin

text \<open>
  \<open>drops.js\<close>, the script of the directory of people: the search box, whose results are fetched when typing
  pauses, and the dialog for a person's desk.
\<close>

section \<open>The search box\<close>

text \<open>
  A person of an answer (the picture and the location may be missing), and the rows of a table of results.
\<close>

record person =
  person_img :: "string option"
  person_link :: string
  person_name :: string
  person_location :: "string option"

record people_answer =
  resp_type :: string
  people :: "person list option"

datatype result_row = PersonRow "string option" string string string | NoMatchesFound

text \<open>
  The page: the text of the box, the timer that is armed (with the text it was armed for), the texts that
  were asked for, the tables in the box of results, messages and reloads.
\<close>

record search_page =
  searchfor :: string
  search_timer :: "string option"
  finds :: "string list"
  resultsbox :: "result_row list list"
  search_alerts :: "string list"
  reloads :: nat

definition process_search :: "search_page \<Rightarrow> search_page" where
  "process_search p =
     (if searchfor p = [] then p\<lparr>search_timer := None, resultsbox := []\<rparr>
      else p\<lparr>search_timer := Some (searchfor p)\<rparr>)"

definition search_timer_fires :: "search_page \<Rightarrow> search_page" where
  "search_timer_fires p =
     (case search_timer p of None \<Rightarrow> p
      | Some s \<Rightarrow> p\<lparr>search_timer := None, resultsbox := [], finds := finds p @ [s]\<rparr>)"

definition person_row :: "person \<Rightarrow> result_row" where
  "person_row dude =
     PersonRow (case person_img dude of None \<Rightarrow> None | Some i \<Rightarrow> if i = [] then None else Some i)
       (person_link dude) (person_name dude)
       (case person_location dude of None \<Rightarrow> [] | Some l \<Rightarrow> l)"

definition result_table :: "people_answer \<Rightarrow> result_row list" where
  "result_table resp = (case people resp of None \<Rightarrow> [NoMatchesFound] | Some ps \<Rightarrow> map person_row ps)"

definition search_answer :: "people_answer \<Rightarrow> search_page \<Rightarrow> search_page" where
  "search_answer resp p =
     (if resp_type resp = ''person'' then p\<lparr>resultsbox := resultsbox p @ [result_table resp]\<rparr> else p)"

definition search_failed :: "nat \<Rightarrow> search_page \<Rightarrow> search_page" where
  "search_failed status p =
     (if status = 500
      then p\<lparr>search_alerts := search_alerts p
        @ [''There was an issue completing the search.  Please try again later.'']\<rparr>
      else p\<lparr>search_timer := None, searchfor := [], reloads := Suc (reloads p)\<rparr>)"

text \<open>Enter in the box and its form submit nothing: the handlers return false.\<close>

definition searchfor_keydown :: "nat \<Rightarrow> bool" where
  "searchfor_keydown key \<longleftrightarrow> key \<noteq> 13"

definition search_submit :: bool where
  "search_submit = False"

datatype search_event = KeyUp string | Pause | Found nat | NotFound nat

definition search_step :: "(string \<Rightarrow> people_answer) \<Rightarrow> search_page \<Rightarrow> search_event \<Rightarrow> search_page" where
  "search_step server p ev =
     (case ev of
        KeyUp s \<Rightarrow> process_search (p\<lparr>searchfor := s\<rparr>)
      | Pause \<Rightarrow> search_timer_fires p
      | Found k \<Rightarrow> if k < length (finds p) then search_answer (server (finds p ! k)) p else p
      | NotFound status \<Rightarrow> search_failed status p)"

text \<open>
  When the document is ready the box is looked at once: a browser keeps its text when the page is reloaded.
\<close>

definition search_ready :: "search_page \<Rightarrow> search_page" where
  "search_ready p = process_search p"

lemma reload_searches:
  "searchfor p \<noteq> [] \<Longrightarrow> finds (search_step server (search_ready p) Pause) = finds p @ [searchfor p]"
  by (simp add: search_ready_def process_search_def search_step_def search_timer_fires_def)

text \<open>A search that failed for another reason than an error of the server empties the box before the page is reloaded.\<close>

lemma reload_after_failure:
  "status \<noteq> 500 \<Longrightarrow> finds (search_step server (search_ready (search_failed status p)) Pause) = finds p"
  by (simp add: search_ready_def process_search_def search_step_def search_timer_fires_def search_failed_def)

section \<open>Searching by typing\<close>

text \<open>
  The reference: each time typing pauses the text is looked up, and its results are all that is shown.
\<close>

fun look_up :: "(string \<Rightarrow> people_answer) \<Rightarrow> string list list \<Rightarrow> result_row list list \<Rightarrow> result_row list list" where
  "look_up server [] shown = shown"
| "look_up server (typed # rounds) shown =
     look_up server rounds (if last typed = [] then [] else [result_table (server (last typed))])"

text \<open>The events of a session whose answers come before the next pause; \<open>n\<close> texts have been asked for.\<close>

fun search_session :: "nat \<Rightarrow> string list list \<Rightarrow> search_event list" where
  "search_session n [] = []"
| "search_session n (typed # rounds) =
     map KeyUp typed @
     (if last typed = [] then Pause # search_session n rounds
      else Pause # Found n # search_session (Suc n) rounds)"

lemma typing:
  "typed \<noteq> [] \<Longrightarrow> \<exists>q. foldl (search_step server) p (map KeyUp typed) = q
     \<and> search_timer q = (if last typed = [] then None else Some (last typed))
     \<and> (last typed = [] \<longrightarrow> resultsbox q = []) \<and> finds q = finds p"
proof (induction typed rule: rev_induct)
  case (snoc t ts)
  show ?case
  proof (cases "ts = []")
    case False
    then show ?thesis using snoc.IH by (auto simp: search_step_def process_search_def)
  qed (auto simp: search_step_def process_search_def)
qed simp

text \<open>
  C17: When every answer comes before typing pauses again, the search box shows at the end what looking up the
  text of every pause shows: the results for the last text alone, or nothing for an empty one.  One request
  is sent for each pause at a text.
\<close>

theorem searching_is_looking_up:
  assumes "\<forall>typed \<in> set rounds. typed \<noteq> []" "\<forall>t. resp_type (server t) = ''person''"
  shows "resultsbox (foldl (search_step server) p (search_session (length (finds p)) rounds))
       = look_up server rounds (resultsbox p)
     \<and> finds (foldl (search_step server) p (search_session (length (finds p)) rounds))
       = finds p @ filter (\<lambda>t. t \<noteq> []) (map last rounds)"
  using assms(1)
proof (induction rounds arbitrary: p)
  case (Cons typed rounds)
  obtain q where q: "foldl (search_step server) p (map KeyUp typed) = q"
      "search_timer q = (if last typed = [] then None else Some (last typed))"
      "last typed = [] \<longrightarrow> resultsbox q = []" "finds q = finds p"
    using typing [of typed server p] Cons.prems by auto
  show ?case
  proof (cases "last typed = []")
    case True
    then have "search_step server q Pause = q" using q(2) by (simp add: search_step_def search_timer_fires_def)
    then show ?thesis using Cons.IH [of q] Cons.prems q True by simp
  next
    case False
    define q' where "q' = search_step server (search_step server q Pause) (Found (length (finds p)))"
    have "resultsbox q' = [result_table (server (last typed))]" "finds q' = finds p @ [last typed]"
      using q False assms(2) by (simp_all add: q'_def search_step_def search_timer_fires_def search_answer_def)
    then show ?thesis using Cons.IH [of q'] Cons.prems q(1) False by (simp add: q'_def)
  qed
qed simp

text \<open>When answers overlap, the results for both texts are shown, in the order in which they arrived.\<close>

theorem overlapping_searches_mixed:
  assumes "finds p = []" "a \<noteq> []" "b \<noteq> []" "\<forall>t. resp_type (server t) = ''person''"
  shows "resultsbox (foldl (search_step server) p [KeyUp a, Pause, KeyUp b, Pause, Found 1, Found 0])
       = [result_table (server b), result_table (server a)]"
  using assms by (simp add: search_step_def process_search_def search_timer_fires_def search_answer_def)

definition demo_search :: search_page where
  "demo_search = \<lparr>searchfor = [], search_timer = None, finds = [], resultsbox = [], search_alerts = [], reloads = 0\<rparr>"

definition demo_people :: "string \<Rightarrow> people_answer" where
  "demo_people s = \<lparr>resp_type = ''person'',
     people = (if s = ''ann'' then Some [\<lparr>person_img = None, person_link = ''contact.php?person_id=4'', person_name = ''Ann'',
       person_location = None\<rparr>] else None)\<rparr>"

theorem searching_is_looking_up_witness:
  "resultsbox (foldl (search_step demo_people) demo_search (search_session 0 [[''a'', ''bob''], [''an'', ''ann'']]))
     = [[PersonRow None ''contact.php?person_id=4'' ''Ann'' []]]"
  using searching_is_looking_up [of "[[''a'', ''bob''], [''an'', ''ann'']]" demo_people demo_search]
  by (simp add: demo_people_def demo_search_def result_table_def person_row_def)

theorem overlapping_searches_mixed_witness:
  "resultsbox (foldl (search_step demo_people) demo_search
     [KeyUp ''bob'', Pause, KeyUp ''ann'', Pause, Found 1, Found 0])
     = [[PersonRow None ''contact.php?person_id=4'' ''Ann'' []], [NoMatchesFound]]"
  using overlapping_searches_mixed [of demo_search "''bob''" "''ann''" demo_people]
  by (simp add: demo_people_def demo_search_def result_table_def person_row_def)

section \<open>The person of the address\<close>

text \<open>
  The pattern \<open>[?&;]person_id=([^&#;]*)\<close>: the first place where it matches.
\<close>

definition person_key :: string where
  "person_key = ''person_id=''"

fun person_param :: "string \<Rightarrow> string option" where
  "person_param [] = None"
| "person_param (c # cs) =
     (if c \<in> {CHR ''?'', CHR ''&'', CHR '';''} \<and> prefix person_key cs
      then Some (takeWhile (\<lambda>x. x \<notin> {CHR ''&'', CHR ''#'', CHR '';''}) (drop (length person_key) cs))
      else person_param cs)"

text \<open>\<open>None\<close> is the exception of a malformed escape; the word is what \<open>undefined\<close> becomes in text.\<close>

definition personid :: "string \<Rightarrow> string option" where
  "personid href = (case person_param href of None \<Rightarrow> Some ''undefined'' | Some x \<Rightarrow> decodeURIComponent x)"

section \<open>The desk of a person\<close>

record location_record =
  lr_person_id :: string
  lr_person_location_id :: string
  lr_display_label :: string
  lr_columns :: "string \<Rightarrow> string"

text \<open>The form: its hidden fields, the label, and the text fields by the column they are for.\<close>

record location_form =
  lf_hidden :: "(string \<times> string) list"
  lf_label :: string
  lf_inputs :: "(string \<times> string) list"

record location_page =
  location_shown :: bool
  location_form_in :: "location_form option"
  location_asks :: "string list"
  location_posts :: "(string \<times> string) list list"
  location_alerts :: "string list"

definition location_columns :: "string list" where
  "location_columns = [''building'', ''floor'', ''section'', ''seat_number'']"

definition update_location :: "string \<Rightarrow> location_page \<Rightarrow> location_page" where
  "update_location href p =
     (case personid href of None \<Rightarrow> p
      | Some i \<Rightarrow> p\<lparr>location_asks := location_asks p @ [''ajax/location.pl?person_id='' @ i]\<rparr>)"

definition location_form_of :: "location_record \<Rightarrow> location_form" where
  "location_form_of x =
     \<lparr>lf_hidden = [(''person_id'', lr_person_id x), (''person_location_id'', lr_person_location_id x)],
      lf_label = lr_display_label x,
      lf_inputs = map (\<lambda>col. (col @ ''_'' @ lr_person_location_id x, lr_columns x col)) location_columns\<rparr>"

text \<open>\<open>toggle(1)\<close> shows what is hidden and hides what is shown.\<close>

definition location_answer :: "location_record \<Rightarrow> location_page \<Rightarrow> location_page" where
  "location_answer x p =
     p\<lparr>location_shown := \<not> location_shown p, location_form_in := Some (location_form_of x)\<rparr>"

definition location_ask_failed :: "location_page \<Rightarrow> location_page" where
  "location_ask_failed p = p\<lparr>location_alerts := location_alerts p
     @ [''There was an issue downloading location information.    Please reload the page or try later.'']\<rparr>"

definition location_type :: "string \<Rightarrow> string \<Rightarrow> location_page \<Rightarrow> location_page" where
  "location_type field v p =
     p\<lparr>location_form_in := map_option (\<lambda>f. f\<lparr>lf_inputs := map (\<lambda>(n, w). (n, if n = field then v else w)) (lf_inputs f)\<rparr>)
        (location_form_in p)\<rparr>"

definition location_submit :: "location_page \<Rightarrow> location_page" where
  "location_submit p =
     (case location_form_in p of None \<Rightarrow> p
      | Some f \<Rightarrow> p\<lparr>location_posts := location_posts p @ [lf_hidden f @ lf_inputs f]\<rparr>)"

definition location_posted :: "location_page \<Rightarrow> location_page" where
  "location_posted p = p\<lparr>location_shown := \<not> location_shown p, location_form_in := None\<rparr>"

definition location_post_failed :: "location_page \<Rightarrow> location_page" where
  "location_post_failed p = p\<lparr>location_alerts := location_alerts p
     @ [''There was an issue submitting your request.  Please try again later'']\<rparr>"

definition location_cancel :: "location_page \<Rightarrow> location_page" where
  "location_cancel p =
     (case location_form_in p of None \<Rightarrow> p
      | Some _ \<Rightarrow> p\<lparr>location_shown := \<not> location_shown p, location_form_in := None\<rparr>)"

text \<open>
  A desk that is opened, changed in one column and submitted posts the record with that column changed.
\<close>

theorem desk_posted:
  assumes "personid href = Some i" "col \<in> set location_columns"
  shows "location_posts (location_submit (location_type (col @ ''_'' @ lr_person_location_id x) v
           (location_answer x (update_location href p))))
       = location_posts p @ [[(''person_id'', lr_person_id x), (''person_location_id'', lr_person_location_id x)]
           @ map (\<lambda>c. (c @ ''_'' @ lr_person_location_id x, ((lr_columns x)(col := v)) c)) location_columns]"
  using assms
  by (auto simp: location_submit_def location_type_def location_answer_def update_location_def location_form_of_def
      location_columns_def)

end
