(* ===== verification/Phones.thy ===== *)
theory Phones
  imports Directory
begin

text \<open>
  The telephone numbers of a person's page in \<open>drops.js\<close>: the rows of the table of contacts, the forms that
  add or change a number in place, their hints, and the removal of a number.
\<close>

section \<open>Drop-downs and hinted fields\<close>

text \<open>An entry of a list of choices: a text, or a pair of a value and the text shown for it.\<close>

datatype menu_item = Plain string | Labelled string string

record phone_select =
  select_name :: string
  select_opts :: "(string \<times> string \<times> bool) list"

definition phone_option :: "string option \<Rightarrow> menu_item \<Rightarrow> string \<times> string \<times> bool" where
  "phone_option v c =
     (case c of Labelled x y \<Rightarrow> (x, y, v = Some x) | Plain x \<Rightarrow> (x, x, v = Some x))"

definition build_option :: "string \<Rightarrow> menu_item list \<Rightarrow> string option \<Rightarrow> phone_select" where
  "build_option newid in_list v = \<lparr>select_name = newid, select_opts = map (phone_option v) in_list\<rparr>"

text \<open>
  What a drop-down submits: the value of the option selected last, or of the first option when none was.
\<close>

definition select_value :: "phone_select \<Rightarrow> string option" where
  "select_value s =
     (case filter (snd \<circ> snd) (select_opts s) of
        [] \<Rightarrow> (case select_opts s of [] \<Rightarrow> None | x # _ \<Rightarrow> Some (fst x))
      | xs \<Rightarrow> Some (fst (last xs)))"

text \<open>
  A text field with a hint: its value, whether it is greyed out, and the hint that was put aside on focus.
\<close>

record hinted =
  hinted_value :: string
  inputhint :: bool
  preservedHint :: "string option"

text \<open>
  A field that was given a value keeps it, even an empty one: the attribute that is set then does not show.
\<close>

definition hinted_field :: "string \<Rightarrow> string option \<Rightarrow> hinted" where
  "hinted_field hint v =
     (case v of
        None \<Rightarrow> \<lparr>hinted_value = hint, inputhint = True, preservedHint = None\<rparr>
      | Some x \<Rightarrow> \<lparr>hinted_value = x, inputhint = (x = []), preservedHint = None\<rparr>)"

definition hint_focus :: "hinted \<Rightarrow> hinted" where
  "hint_focus h =
     (if inputhint h then h\<lparr>inputhint := False, preservedHint := Some (hinted_value h), hinted_value := []\<rparr> else h)"

definition hint_blur :: "hinted \<Rightarrow> hinted" where
  "hint_blur h =
     (case preservedHint h of
        Some s \<Rightarrow> if hinted_value h = [] \<and> s \<noteq> [] then h\<lparr>inputhint := True, hinted_value := s\<rparr> else h
      | None \<Rightarrow> h)"

text \<open>
  Leaving a hinted field without a text shows the hint again, whatever was typed meanwhile; a text stays.
\<close>

lemma hint_restored:
  assumes "inputhint h" "hinted_value h \<noteq> []"
  shows "hinted_value (hint_blur ((hint_focus h)\<lparr>hinted_value := s\<rparr>)) = (if s = [] then hinted_value h else s)"
    and "inputhint (hint_blur ((hint_focus h)\<lparr>hinted_value := s\<rparr>)) \<longleftrightarrow> s = []"
  using assms by (simp_all add: hint_focus_def hint_blur_def)

section \<open>The form of a number\<close>

record contact =
  person_contact_id :: string
  location_type :: string
  technology :: string
  privacy :: string
  iso_country_code :: string
  phone_number :: string
  phone_extension :: string
  phone_pin :: string

record contact_answer =
  answered_contact :: "contact option"
  locations :: "menu_item list"
  technologies :: "menu_item list"
  privacies :: "menu_item list"
  countries :: "menu_item list"

record phone_form =
  pf_person :: string
  pf_contact :: "string option"
  pf_location :: phone_select
  pf_technology :: phone_select
  pf_privacy :: phone_select
  pf_country :: phone_select
  pf_phone :: hinted
  pf_extension :: hinted
  pf_pin :: hinted
  pf_msg :: string

definition nonempty :: "string \<Rightarrow> string option" where
  "nonempty s = (if s = [] then None else Some s)"

definition phone_form_of :: "string \<Rightarrow> contact_answer \<Rightarrow> phone_form" where
  "phone_form_of person resp =
     (let c = answered_contact resp in
      \<lparr>pf_person = person,
       pf_contact = map_option person_contact_id c,
       pf_location = build_option ''locations'' (locations resp) (map_option location_type c),
       pf_technology = build_option ''technology'' (technologies resp) (map_option technology c),
       pf_privacy = build_option ''privacy'' (privacies resp) (map_option privacy c),
       pf_country = build_option ''country'' (countries resp) (map_option iso_country_code c),
       pf_phone = hinted_field ''phone'' (map_option phone_number c),
       pf_extension = hinted_field ''ext'' (Option.bind c (\<lambda>c. nonempty (phone_extension c))),
       pf_pin = hinted_field ''pin'' (Option.bind c (\<lambda>c. nonempty (phone_pin c))),
       pf_msg = []\<rparr>)"

text \<open>\<open>$(form).serialize()\<close>: a field for each input, and for each drop-down that has options.\<close>

definition select_field :: "phone_select \<Rightarrow> (string \<times> string) list" where
  "select_field s = (case select_value s of None \<Rightarrow> [] | Some v \<Rightarrow> [(select_name s, v)])"

definition serialize :: "phone_form \<Rightarrow> (string \<times> string) list" where
  "serialize f =
     [(''person_id'', pf_person f)]
     @ (case pf_contact f of None \<Rightarrow> [] | Some c \<Rightarrow> [(''person_contact_id'', c)])
     @ select_field (pf_location f) @ select_field (pf_technology f) @ select_field (pf_privacy f)
     @ select_field (pf_country f)
     @ [(''phone'', hinted_value (pf_phone f)), (''phone_extension'', hinted_value (pf_extension f)),
        (''pin'', hinted_value (pf_pin f))]"

section \<open>The table of contacts\<close>

text \<open>
  A row of the table: its identity and identifier, whether it has the class \<open>hide\<close>, and whether it shows a
  number, holds a form, or is another row (the legend is the one with that identifier).
\<close>

datatype row_content = Other | Phone string string string | Form phone_form

record tel_row =
  row_ref :: nat
  row_id :: "string option"
  row_hidden :: bool
  content :: row_content

text \<open>
  \<open>contact_asks\<close> holds, for every request for a form, the row that was clicked with the identifier asked
  for, or nothing for a new number; \<open>removals\<close> the rows whose removal was posted; \<open>posts\<close> the rows of the
  forms that were submitted, with their fields.
\<close>

record tel_page =
  href :: string
  tel_rows :: "tel_row list"
  next_row :: nat
  contact_asks :: "(nat \<times> string) option list"
  removals :: "nat list"
  posts :: "(nat \<times> (string \<times> string) list) list"
  hint_shown :: bool
  tel_alerts :: "string list"

definition row_at :: "tel_page \<Rightarrow> nat \<Rightarrow> tel_row option" where
  "row_at p r = find (\<lambda>x. row_ref x = r) (tel_rows p)"

text \<open>\<open>manip_phone\<close> for the button that adds a number, and for the number of a row.\<close>

definition manip_phone :: "nat option \<Rightarrow> tel_page \<Rightarrow> tel_page" where
  "manip_phone clicked p =
     (case clicked of
        None \<Rightarrow> p\<lparr>contact_asks := contact_asks p @ [None]\<rparr>
      | Some r \<Rightarrow>
          (case row_at p r of
             None \<Rightarrow> p
           | Some x \<Rightarrow>
               (case content x of
                  Phone c _ _ \<Rightarrow> if row_hidden x then p else p\<lparr>contact_asks := contact_asks p @ [Some (r, c)]\<rparr>
                | _ \<Rightarrow> p)))"

fun put_after :: "nat \<Rightarrow> tel_row \<Rightarrow> tel_row list \<Rightarrow> tel_row list" where
  "put_after r new [] = []"
| "put_after r new (x # rows) =
     (if row_ref x = r then x\<lparr>row_hidden := True\<rparr> # new # rows else x # put_after r new rows)"

fun put_before_legend :: "tel_row \<Rightarrow> tel_row list \<Rightarrow> tel_row list" where
  "put_before_legend new [] = []"
| "put_before_legend new (x # rows) =
     (if row_id x = Some ''legend'' then new # x # rows else x # put_before_legend new rows)"

text \<open>
  The answer.  When the address holds no well-formed identifier of a person the handler ends with an
  exception before it changes anything; a row that is gone takes no form.
\<close>

definition contact_arrives :: "(nat \<times> string) option \<Rightarrow> contact_answer \<Rightarrow> tel_page \<Rightarrow> tel_page" where
  "contact_arrives asked resp p =
     (case personid (href p) of
        None \<Rightarrow> p
      | Some i \<Rightarrow>
          let new = \<lparr>row_ref = next_row p, row_id = None, row_hidden = False, content = Form (phone_form_of i resp)\<rparr>
          in p\<lparr>tel_rows := (case asked of None \<Rightarrow> put_before_legend new (tel_rows p)
                             | Some (r, _) \<Rightarrow> put_after r new (tel_rows p)),
               next_row := Suc (next_row p), hint_shown := True\<rparr>)"

definition contact_failed :: "tel_page \<Rightarrow> tel_page" where
  "contact_failed p = p\<lparr>tel_alerts := tel_alerts p
     @ [''There was an issue downloading contact information.    Please reload the page or try later.'']\<rparr>"

text \<open>Cancel: the row before the form is shown again, whatever row that is.\<close>

fun cancel_row :: "nat \<Rightarrow> tel_row list \<Rightarrow> tel_row list" where
  "cancel_row r [] = []"
| "cancel_row r [x] = (if row_ref x = r then [] else [x])"
| "cancel_row r (x # y # rows) =
     (if row_ref x = r then y # rows
      else if row_ref y = r then x\<lparr>row_hidden := False\<rparr> # rows
      else x # cancel_row r (y # rows))"

definition is_form :: "tel_row \<Rightarrow> bool" where
  "is_form x = (case content x of Form _ \<Rightarrow> True | _ \<Rightarrow> False)"

definition cancelphone :: "nat \<Rightarrow> tel_page \<Rightarrow> tel_page" where
  "cancelphone r p =
     (case row_at p r of
        None \<Rightarrow> p
      | Some x \<Rightarrow> if is_form x then p\<lparr>hint_shown := False, tel_rows := cancel_row r (tel_rows p)\<rparr> else p)"

definition sbmtphone :: "nat \<Rightarrow> tel_page \<Rightarrow> tel_page" where
  "sbmtphone r p =
     (case row_at p r of
        None \<Rightarrow> p
      | Some x \<Rightarrow>
          (case content x of
             Form f \<Rightarrow> p\<lparr>hint_shown := False, posts := posts p @ [(r, serialize f)]\<rparr>
           | _ \<Rightarrow> p))"

record saved_record =
  saved_id :: string
  print_title :: string
  print_number :: string

definition map_row :: "nat \<Rightarrow> (tel_row \<Rightarrow> tel_row) \<Rightarrow> tel_row list \<Rightarrow> tel_row list" where
  "map_row r f rows = map (\<lambda>x. if row_ref x = r then f x else x) rows"

definition contact_row_id :: "string \<Rightarrow> string" where
  "contact_row_id c = ''contact'' @ c"

text \<open>
  The answer to a submission: an error is put into the form; otherwise every row with the identifier of the
  contact goes and the row of the form, if it still holds the form, shows the number.
\<close>

definition show_saved :: "saved_record \<Rightarrow> tel_row \<Rightarrow> tel_row" where
  "show_saved x row =
     (if is_form row
      then row\<lparr>row_id := Some (contact_row_id (saved_id x)),
        content := Phone (saved_id x) (print_title x @ '':'') (print_number x)\<rparr>
      else row)"

definition show_error :: "string \<Rightarrow> tel_row \<Rightarrow> tel_row" where
  "show_error e row = (case content row of Form f \<Rightarrow> row\<lparr>content := Form (f\<lparr>pf_msg := e\<rparr>)\<rparr> | _ \<Rightarrow> row)"

definition phone_saved :: "nat \<Rightarrow> string + saved_record \<Rightarrow> tel_page \<Rightarrow> tel_page" where
  "phone_saved r resp p =
     (case resp of
        Inl e \<Rightarrow> p\<lparr>tel_rows := map_row r (show_error e) (tel_rows p)\<rparr>
      | Inr x \<Rightarrow>
          p\<lparr>tel_rows := map_row r (show_saved x)
               (filter (\<lambda>y. row_id y \<noteq> Some (contact_row_id (saved_id x))) (tel_rows p))\<rparr>)"

definition post_failed :: "tel_page \<Rightarrow> tel_page" where
  "post_failed p = p\<lparr>tel_alerts := tel_alerts p
     @ [''There was an issue submitting your request.  Please try again later'']\<rparr>"

text \<open>Removing a number is asked about; the row goes when the server has removed it.\<close>

definition remove_phone :: "bool \<Rightarrow> nat \<Rightarrow> tel_page \<Rightarrow> tel_page" where
  "remove_phone confirmed r p =
     (case row_at p r of
        None \<Rightarrow> p
      | Some x \<Rightarrow>
          (case content x of
             Phone _ _ _ \<Rightarrow>
               if row_hidden x then p
               else if confirmed then p\<lparr>hint_shown := False, removals := removals p @ [r]\<rparr>
               else p\<lparr>hint_shown := False\<rparr>
           | _ \<Rightarrow> p))"

definition phone_removed :: "nat \<Rightarrow> string option \<Rightarrow> tel_page \<Rightarrow> tel_page" where
  "phone_removed r err p =
     (case err of Some _ \<Rightarrow> p | None \<Rightarrow> p\<lparr>tel_rows := filter (\<lambda>x. row_ref x \<noteq> r) (tel_rows p)\<rparr>)"

text \<open>
  The hint that is shown under the table while the pointer is over the row of buttons: it is put at the
  corner of the page first and then under the table, whose corner and height are given.
\<close>

record hint_box =
  hintoff :: bool
  offset :: "int \<times> int"

definition buttons_enter :: "int \<times> int \<Rightarrow> int \<Rightarrow> hint_box \<Rightarrow> hint_box" where
  "buttons_enter position height h =
     (let p = (fst position, snd position + height)
      in h\<lparr>hintoff := False\<rparr>\<lparr>offset := (0, 0)\<rparr>\<lparr>offset := p\<rparr>)"

definition buttons_leave :: "hint_box \<Rightarrow> hint_box" where
  "buttons_leave h = h\<lparr>hintoff := True\<rparr>"

datatype phone_field = PhoneField | ExtensionField | PinField

definition on_field :: "phone_field \<Rightarrow> (hinted \<Rightarrow> hinted) \<Rightarrow> phone_form \<Rightarrow> phone_form" where
  "on_field w g f =
     (case w of PhoneField \<Rightarrow> f\<lparr>pf_phone := g (pf_phone f)\<rparr>
      | ExtensionField \<Rightarrow> f\<lparr>pf_extension := g (pf_extension f)\<rparr>
      | PinField \<Rightarrow> f\<lparr>pf_pin := g (pf_pin f)\<rparr>)"

definition in_form :: "nat \<Rightarrow> (phone_form \<Rightarrow> phone_form) \<Rightarrow> tel_page \<Rightarrow> tel_page" where
  "in_form r g p =
     p\<lparr>tel_rows := map_row r (\<lambda>x. case content x of Form f \<Rightarrow> x\<lparr>content := Form (g f)\<rparr> | _ \<Rightarrow> x) (tel_rows p)\<rparr>"

text \<open>
  Events.  The server is a parameter: what it answers for a contact, to a submission, and to a removal.
\<close>

record tel_server =
  contacts :: "string option \<Rightarrow> contact_answer"
  save :: "(string \<times> string) list \<Rightarrow> string + saved_record"
  remove_error :: "string option"

datatype tel_event =
  AddPhone | EditPhone nat | ContactArrives nat | ContactFails | CancelPhone nat | SubmitPhone nat | Saved nat
| PostFails | RemovePhone bool nat | Removed nat | FocusField nat phone_field | TypeField nat phone_field string
| BlurField nat phone_field

definition tel_step :: "tel_server \<Rightarrow> tel_page \<Rightarrow> tel_event \<Rightarrow> tel_page" where
  "tel_step server p ev =
     (case ev of
        AddPhone \<Rightarrow> manip_phone None p
      | EditPhone r \<Rightarrow> manip_phone (Some r) p
      | ContactArrives k \<Rightarrow>
          if k < length (contact_asks p)
          then contact_arrives (contact_asks p ! k) (contacts server (map_option snd (contact_asks p ! k))) p else p
      | ContactFails \<Rightarrow> contact_failed p
      | CancelPhone r \<Rightarrow> cancelphone r p
      | SubmitPhone r \<Rightarrow> sbmtphone r p
      | Saved k \<Rightarrow>
          if k < length (posts p) then phone_saved (fst (posts p ! k)) (save server (snd (posts p ! k))) p else p
      | PostFails \<Rightarrow> post_failed p
      | RemovePhone b r \<Rightarrow> remove_phone b r p
      | Removed k \<Rightarrow> if k < length (removals p) then phone_removed (removals p ! k) (remove_error server) p else p
      | FocusField r w \<Rightarrow> in_form r (on_field w hint_focus) p
      | TypeField r w s \<Rightarrow> in_form r (on_field w (\<lambda>h. h\<lparr>hinted_value := s\<rparr>)) p
      | BlurField r w \<Rightarrow> in_form r (on_field w hint_blur) p)"

section \<open>Hidden numbers have their form\<close>

text \<open>What the invariant is about: the kind of a row, with the contact it shows or its form changes.\<close>

datatype row_kind = OtherRow | PhoneRow string | FormRow "string option"

definition kind :: "tel_row \<Rightarrow> row_kind" where
  "kind x = (case content x of Other \<Rightarrow> OtherRow | Phone c _ _ \<Rightarrow> PhoneRow c | Form f \<Rightarrow> FormRow (pf_contact f))"

definition form_for :: "tel_row \<Rightarrow> tel_row \<Rightarrow> bool" where
  "form_for x y \<longleftrightarrow> (\<exists>c. kind x = PhoneRow c \<and> kind y = FormRow (Some c))"

fun hidden_ok :: "tel_row list \<Rightarrow> bool" where
  "hidden_ok [] = True"
| "hidden_ok (x # xs) = ((row_hidden x \<longrightarrow> (case xs of [] \<Rightarrow> False | y # _ \<Rightarrow> form_for x y)) \<and> hidden_ok xs)"

definition row_ok :: "tel_row \<Rightarrow> bool" where
  "row_ok x \<longleftrightarrow> (case kind x of OtherRow \<Rightarrow> \<not> row_hidden x | PhoneRow c \<Rightarrow> row_id x = Some (contact_row_id c)
     | FormRow _ \<Rightarrow> row_id x = None \<and> \<not> row_hidden x)"

lemma kind_simps [simp]:
  "kind (x\<lparr>row_hidden := b\<rparr>) = kind x" "kind (x\<lparr>row_id := i\<rparr>) = kind x"
  "content x = Phone c t n \<Longrightarrow> kind x = PhoneRow c" "content x = Form f \<Longrightarrow> kind x = FormRow (pf_contact f)"
  "content x = Other \<Longrightarrow> kind x = OtherRow"
  by (simp_all add: kind_def)

lemma is_form_kind: "is_form x \<longleftrightarrow> (\<exists>c. kind x = FormRow c)"
  by (simp add: is_form_def kind_def split: row_content.split)

lemma form_for_simps [simp]:
  "form_for (x\<lparr>row_hidden := b\<rparr>) y = form_for x y" "form_for x (y\<lparr>row_hidden := b\<rparr>) = form_for x y"
  by (simp_all add: form_for_def)

lemma form_for_is_form: "form_for x y \<Longrightarrow> is_form y"
  by (auto simp: form_for_def is_form_kind)

lemma hidden_ok_filter:
  "hidden_ok rows \<Longrightarrow> \<forall>x \<in> set rows. is_form x \<longrightarrow> Q x \<Longrightarrow> hidden_ok (filter Q rows)"
proof (induction rows)
  case (Cons x xs)
  have IH: "hidden_ok (filter Q xs)" using Cons by simp
  show ?case
  proof (cases "row_hidden x \<and> Q x")
    case True
    then obtain y ys where xs: "xs = y # ys" "form_for x y" using Cons.prems(1) by (cases xs) auto
    then have "Q y" using Cons.prems(2) form_for_is_form by simp
    then show ?thesis using True IH xs by simp
  qed (use IH in auto)
qed simp

lemma hidden_ok_put_after:
  assumes "hidden_ok rows" "\<forall>x \<in> set rows. row_ref x = r \<longrightarrow> kind x = PhoneRow c"
    and "kind new = FormRow (Some c)" "\<not> row_hidden new"
  shows "hidden_ok (put_after r new rows)"
  using assms(1,2)
proof (induction rows)
  case (Cons x xs)
  show ?case
  proof (cases "row_ref x = r")
    case True
    then show ?thesis using Cons.prems assms(3,4) by (auto simp: form_for_def)
  next
    case False
    then show ?thesis using Cons by (cases xs) (auto simp: form_for_def)
  qed
qed simp

lemma hidden_ok_put_before_legend:
  assumes "hidden_ok rows" "\<forall>x \<in> set rows. row_ok x" "\<not> row_hidden new"
  shows "hidden_ok (put_before_legend new rows)"
  using assms(1,2)
proof (induction rows)
  case (Cons x xs)
  show ?case
  proof (cases "row_id x = Some ''legend''")
    case True
    then show ?thesis using Cons.prems assms(3) by auto
  next
    case False
    then show ?thesis using Cons by (cases xs) (auto simp: form_for_def row_ok_def)
  qed
qed simp

lemma hidden_ok_cancel: "hidden_ok rows \<Longrightarrow> hidden_ok (cancel_row r rows)"
proof (induction r rows rule: cancel_row.induct)
  case (3 r x y rows)
  then show ?case by (cases rows) auto
qed auto

lemma hidden_ok_map:
  assumes "hidden_ok rows" "\<And>x. row_hidden (g x) = row_hidden x"
    and "\<forall>x \<in> set rows. \<forall>y \<in> set rows. row_hidden x \<and> form_for x y \<longrightarrow> form_for (g x) (g y)"
  shows "hidden_ok (map g rows)"
  using assms(1,3)
proof (induction rows)
  case (Cons x xs)
  then show ?case using assms(2) by (cases xs) auto
qed simp

text \<open>
  The invariant of the page: rows have identities of their own, hidden rows have their form, and what was
  asked for, posted or is to be removed still concerns the row it was started from.
\<close>

definition concerns :: "tel_page \<Rightarrow> nat \<Rightarrow> (row_kind \<Rightarrow> bool) \<Rightarrow> bool" where
  "concerns p r K \<longleftrightarrow> r < next_row p \<and> (\<forall>x \<in> set (tel_rows p). row_ref x = r \<longrightarrow> K (kind x))"

definition jobs_ok :: "tel_page \<Rightarrow> bool" where
  "jobs_ok p \<longleftrightarrow>
     (\<forall>r c. Some (r, c) \<in> set (contact_asks p) \<longrightarrow> concerns p r (\<lambda>k. k = PhoneRow c))
   \<and> (\<forall>r. r \<in> set (removals p) \<longrightarrow> concerns p r (\<lambda>k. \<forall>c. k \<noteq> FormRow c))
   \<and> (\<forall>r fs. (r, fs) \<in> set (posts p) \<longrightarrow> concerns p r (\<lambda>k. \<forall>c. k = FormRow c \<longrightarrow> (\<exists>f. fs = serialize f \<and> pf_contact f = c)))"

definition tel_ok :: "tel_page \<Rightarrow> bool" where
  "tel_ok p \<longleftrightarrow> distinct (map row_ref (tel_rows p)) \<and> (\<forall>x \<in> set (tel_rows p). row_ref x < next_row p \<and> row_ok x)
     \<and> hidden_ok (tel_rows p) \<and> jobs_ok p"

text \<open>A row that comes from another: the same row, or a form whose number was saved.\<close>

definition from_row :: "tel_row \<Rightarrow> tel_row \<Rightarrow> bool" where
  "from_row y x \<longleftrightarrow> row_ref y = row_ref x \<and> (kind y = kind x \<or> (\<exists>c d. kind x = FormRow c \<and> kind y = PhoneRow d))"

lemma concerns_rows:
  assumes "concerns p r K" "next_row p \<le> next_row q"
    and "\<forall>y \<in> set (tel_rows q). row_ref y \<ge> next_row p \<or> (\<exists>x \<in> set (tel_rows p). from_row y x)"
    and "\<And>c d. K (FormRow c) \<Longrightarrow> K (PhoneRow d)"
  shows "concerns q r K"
  unfolding concerns_def
proof (intro conjI ballI impI)
  show "r < next_row q" using assms(1,2) by (simp add: concerns_def)
  fix y
  assume y: "y \<in> set (tel_rows q)" "row_ref y = r"
  then obtain x where "x \<in> set (tel_rows p)" "from_row y x"
    using assms(1,3) by (auto simp: concerns_def)
  then show "K (kind y)" using assms(1,4) y(2) by (auto simp: from_row_def concerns_def)
qed

lemma jobs_ok_rows:
  assumes "jobs_ok p" "next_row p \<le> next_row q"
    and "\<forall>y \<in> set (tel_rows q). row_ref y \<ge> next_row p \<or> (\<exists>x \<in> set (tel_rows p). from_row y x)"
    and "contact_asks q = contact_asks p" "removals q = removals p" "posts q = posts p"
  shows "jobs_ok q"
proof -
  note c = concerns_rows [OF _ assms(2,3)]
  show ?thesis
    unfolding jobs_ok_def assms(4-6)
  proof (intro conjI allI impI)
    fix r c
    assume "Some (r, c) \<in> set (contact_asks p)"
    then have "concerns p r (\<lambda>k. k = PhoneRow c)" using assms(1) unfolding jobs_ok_def by blast
    then show "concerns q r (\<lambda>k. k = PhoneRow c)" by (rule c) simp
  next
    fix r
    assume "r \<in> set (removals p)"
    then have "concerns p r (\<lambda>k. \<forall>c. k \<noteq> FormRow c)" using assms(1) unfolding jobs_ok_def by blast
    then show "concerns q r (\<lambda>k. \<forall>c. k \<noteq> FormRow c)" by (rule c) simp
  next
    fix r fs
    let ?K = "\<lambda>k. \<forall>c. k = FormRow c \<longrightarrow> (\<exists>f. fs = serialize f \<and> pf_contact f = c)"
    assume "(r, fs) \<in> set (posts p)"
    then have "concerns p r ?K" using assms(1) unfolding jobs_ok_def by blast
    then show "concerns q r ?K" by (rule c) simp
  qed
qed

lemma from_row_refl [simp]: "from_row x x"
  by (simp add: from_row_def)

lemma put_after_mem:
  "y \<in> set (put_after r new rows) \<Longrightarrow> y = new \<or> y \<in> set rows \<or> (\<exists>x \<in> set rows. row_ref x = r \<and> y = x\<lparr>row_hidden := True\<rparr>)"
  by (induction rows) (auto split: if_splits)

lemma put_before_legend_mem: "y \<in> set (put_before_legend new rows) \<Longrightarrow> y = new \<or> y \<in> set rows"
  by (induction rows) (auto split: if_splits)

lemma cancel_row_mem:
  "y \<in> set (cancel_row r rows) \<Longrightarrow> y \<in> set rows \<or> (\<exists>x \<in> set rows. y = x\<lparr>row_hidden := False\<rparr>)"
  by (induction r rows rule: cancel_row.induct) (auto split: if_splits)

lemma refs_of_rows:
  "set (map row_ref (put_after r new rows)) \<subseteq> insert (row_ref new) (row_ref ` set rows)"
  "set (map row_ref (put_before_legend new rows)) \<subseteq> insert (row_ref new) (row_ref ` set rows)"
  by (induction rows) auto

lemma refs_of_cancel: "set (map row_ref (cancel_row r rows)) \<subseteq> row_ref ` set rows"
  by (induction r rows rule: cancel_row.induct) auto

lemma distinct_rows:
  assumes "distinct (map row_ref rows)"
  shows "row_ref new \<notin> row_ref ` set rows \<Longrightarrow> distinct (map row_ref (put_after r new rows))"
    and "row_ref new \<notin> row_ref ` set rows \<Longrightarrow> distinct (map row_ref (put_before_legend new rows))"
    and "distinct (map row_ref (cancel_row r rows))"
proof -
  show "distinct (map row_ref (put_after r new rows))" if "row_ref new \<notin> row_ref ` set rows"
    using assms that
  proof (induction rows)
    case (Cons x xs)
    then have "distinct (map row_ref (put_after r new xs))" by simp
    moreover have "row_ref x \<notin> set (map row_ref (put_after r new xs))"
      using Cons.prems refs_of_rows(1) [of r new xs] by (metis distinct.simps(2) image_set insertE list.set_intros(1)
        list.simps(9) subset_iff)
    ultimately show ?case using Cons.prems by auto
  qed simp
  show "distinct (map row_ref (put_before_legend new rows))" if "row_ref new \<notin> row_ref ` set rows"
    using assms that
  proof (induction rows)
    case (Cons x xs)
    then have "distinct (map row_ref (put_before_legend new xs))" by simp
    moreover have "row_ref x \<notin> set (map row_ref (put_before_legend new xs))"
      using Cons.prems refs_of_rows(2) [of new xs] by (metis distinct.simps(2) image_set insertE list.set_intros(1)
        list.simps(9) subset_iff)
    ultimately show ?case using Cons.prems by auto
  qed simp
  show "distinct (map row_ref (cancel_row r rows))"
    using assms
  proof (induction r rows rule: cancel_row.induct)
    case (3 r x y rows)
    then show ?case using refs_of_cancel [of r "y # rows"] by auto
  qed auto
qed

lemma row_at_Some: "row_at p r = Some x \<Longrightarrow> x \<in> set (tel_rows p) \<and> row_ref x = r"
  by (auto simp: row_at_def find_Some_iff)

lemma concerns_row:
  assumes "tel_ok p" "row_at p r = Some x" "K (kind x)"
  shows "concerns p r K"
proof -
  have x: "x \<in> set (tel_rows p)" "row_ref x = r" using row_at_Some [OF assms(2)] by simp_all
  have "inj_on row_ref (set (tel_rows p))" using assms(1) by (simp add: tel_ok_def distinct_map)
  then have "y = x" if "y \<in> set (tel_rows p)" "row_ref y = r" for y
    using x that by (simp add: inj_on_def)
  moreover have "r < next_row p" using assms(1) x unfolding tel_ok_def by blast
  ultimately show ?thesis using assms(3) by (auto simp: concerns_def)
qed

text \<open>
  What the server does: it sends the contact it was asked for, and answers a changed contact with its
  identifier.
\<close>

definition server_ok :: "tel_server \<Rightarrow> bool" where
  "server_ok server \<longleftrightarrow>
     (\<forall>c. \<exists>x. answered_contact (contacts server (Some c)) = Some x \<and> person_contact_id x = c)
   \<and> (\<forall>f c x. pf_contact f = Some c \<and> save server (serialize f) = Inr x \<longrightarrow> saved_id x = c)"

lemma concerns_upd [simp]:
  "concerns (p\<lparr>contact_asks := a\<rparr>) r K = concerns p r K" "concerns (p\<lparr>removals := b\<rparr>) r K = concerns p r K"
  "concerns (p\<lparr>posts := c\<rparr>) r K = concerns p r K" "concerns (p\<lparr>hint_shown := h\<rparr>) r K = concerns p r K"
  "concerns (p\<lparr>tel_alerts := l\<rparr>) r K = concerns p r K"
  by (simp_all add: concerns_def)

lemma tel_ok_same [simp]: "tel_ok (p\<lparr>hint_shown := h\<rparr>) = tel_ok p" "tel_ok (p\<lparr>tel_alerts := l\<rparr>) = tel_ok p"
  by (simp_all add: tel_ok_def jobs_ok_def)

lemma tel_ok_ask:
  "tel_ok p \<Longrightarrow> (\<forall>r c. a = Some (r, c) \<longrightarrow> concerns p r (\<lambda>k. k = PhoneRow c)) \<Longrightarrow> tel_ok (p\<lparr>contact_asks := contact_asks p @ [a]\<rparr>)"
  unfolding tel_ok_def jobs_ok_def by auto

lemma tel_ok_removal:
  "tel_ok p \<Longrightarrow> concerns p r (\<lambda>k. \<forall>c. k \<noteq> FormRow c) \<Longrightarrow> tel_ok (p\<lparr>removals := removals p @ [r]\<rparr>)"
  unfolding tel_ok_def jobs_ok_def by auto

lemma tel_ok_post:
  "tel_ok p \<Longrightarrow> concerns p r (\<lambda>k. \<forall>c. k = FormRow c \<longrightarrow> (\<exists>f. fs = serialize f \<and> pf_contact f = c))
     \<Longrightarrow> tel_ok (p\<lparr>posts := posts p @ [(r, fs)]\<rparr>)"
  unfolding tel_ok_def jobs_ok_def by auto

lemma tel_ok_from:
  assumes "tel_ok p" "distinct (map row_ref (tel_rows q))" "hidden_ok (tel_rows q)"
    and "\<forall>y \<in> set (tel_rows q). row_ok y \<and> (\<exists>x \<in> set (tel_rows p). from_row y x)"
    and "next_row q = next_row p" "contact_asks q = contact_asks p" "removals q = removals p" "posts q = posts p"
  shows "tel_ok q"
proof -
  have "row_ref y < next_row p" if y: "y \<in> set (tel_rows q)" for y
  proof -
    obtain x where "x \<in> set (tel_rows p)" "from_row y x" using assms(4) y by blast
    then show ?thesis using assms(1) by (simp add: tel_ok_def from_row_def)
  qed
  moreover have "jobs_ok q"
    using assms(1,4-8) by (intro jobs_ok_rows [of p q]) (auto simp: tel_ok_def)
  ultimately show ?thesis using assms(2-5) by (simp add: tel_ok_def)
qed

lemma manip_phone_ok:
  assumes "tel_ok p"
  shows "tel_ok (manip_phone clicked p)"
proof (cases clicked)
  case None
  then show ?thesis using assms by (simp add: manip_phone_def tel_ok_ask)
next
  case (Some r)
  show ?thesis
  proof (cases "row_at p r")
    case (Some x)
    show ?thesis
    proof (cases "content x")
      case (Phone c t n)
      have "concerns p r (\<lambda>k. k = PhoneRow c)"
        by (rule concerns_row [OF assms Some]) (simp add: Phone)
      then show ?thesis using assms \<open>clicked = Some r\<close> Some Phone by (simp add: manip_phone_def tel_ok_ask)
    qed (use assms \<open>clicked = Some r\<close> Some in \<open>simp_all add: manip_phone_def\<close>)
  qed (use assms Some in \<open>simp add: manip_phone_def\<close>)
qed

lemma contact_arrives_ok:
  assumes "tel_ok p" "server_ok server" "k < length (contact_asks p)" "asked = contact_asks p ! k"
  shows "tel_ok (contact_arrives asked (contacts server (map_option snd asked)) p)"
proof (cases "personid (href p)")
  case (Some i)
  define resp where "resp = contacts server (map_option snd asked)"
  define new where "new = \<lparr>row_ref = next_row p, row_id = None, row_hidden = False, content = Form (phone_form_of i resp)\<rparr>"
  define rows where "rows = (case asked of None \<Rightarrow> put_before_legend new (tel_rows p)
      | Some (r, _) \<Rightarrow> put_after r new (tel_rows p))"
  define q where "q = p\<lparr>tel_rows := rows, next_row := Suc (next_row p), hint_shown := True\<rparr>"
  have q: "contact_arrives asked (contacts server (map_option snd asked)) p = q"
    using Some by (cases asked) (auto simp: contact_arrives_def q_def rows_def new_def resp_def Let_def)
  have new: "row_ref new = next_row p" "\<not> row_hidden new" "row_id new = None"
    "kind new = FormRow (map_option person_contact_id (answered_contact resp))"
    by (simp_all add: new_def phone_form_of_def Let_def kind_def)
  have rows_ok: "\<forall>x \<in> set (tel_rows p). row_ref x < next_row p \<and> row_ok x" and h: "hidden_ok (tel_rows p)"
    and d: "distinct (map row_ref (tel_rows p))" and j: "jobs_ok p"
    using assms(1) by (simp_all add: tel_ok_def)
  have fresh: "row_ref new \<notin> row_ref ` set (tel_rows p)" using rows_ok new(1) by fastforce
  have job: "concerns p r (\<lambda>k. k = PhoneRow c)" if "asked = Some (r, c)" for r c
    using j that assms(3,4) nth_mem [OF assms(3)] unfolding jobs_ok_def by metis
  have "distinct (map row_ref rows)"
    using distinct_rows(1,2) [OF d fresh] by (simp add: rows_def split: option.split)
  moreover have "hidden_ok rows"
  proof (cases asked)
    case None
    then show ?thesis using hidden_ok_put_before_legend [OF h _ new(2)] rows_ok by (simp add: rows_def)
  next
    case (Some a)
    obtain r c where a: "a = (r, c)" by (cases a)
    have "kind new = FormRow (Some c)"
      using assms(2) by (auto simp: new(4) resp_def Some a server_ok_def dest: spec [of _ c])
    moreover have "\<forall>x \<in> set (tel_rows p). row_ref x = r \<longrightarrow> kind x = PhoneRow c"
      using job [of r c] Some a by (simp add: concerns_def)
    ultimately have "hidden_ok (put_after r new (tel_rows p))" using hidden_ok_put_after [OF h _ _ new(2)] by blast
    then show ?thesis by (simp add: rows_def Some a)
  qed
  moreover have mem: "y = new \<or> y \<in> set (tel_rows p)
      \<or> (\<exists>x c. x \<in> set (tel_rows p) \<and> kind x = PhoneRow c \<and> y = x\<lparr>row_hidden := True\<rparr>)" if y: "y \<in> set rows" for y
  proof (cases asked)
    case None
    then show ?thesis using y put_before_legend_mem by (auto simp: rows_def)
  next
    case (Some a)
    obtain r c where a: "a = (r, c)" by (cases a)
    show ?thesis using y put_after_mem [of y r new "tel_rows p"] job [of r c] Some a
      by (auto simp: rows_def concerns_def)
  qed
  moreover have "row_ref y < Suc (next_row p) \<and> row_ok y" if y: "y \<in> set rows" for y
    using mem [OF y] rows_ok new by (auto simp: row_ok_def less_Suc_eq)
  moreover have "jobs_ok q"
  proof (rule jobs_ok_rows [OF j])
    show "\<forall>y \<in> set (tel_rows q). next_row p \<le> row_ref y \<or> (\<exists>x \<in> set (tel_rows p). from_row y x)"
    proof
      fix y
      assume "y \<in> set (tel_rows q)"
      then have "y \<in> set rows" by (simp add: q_def)
      from mem [OF this] show "next_row p \<le> row_ref y \<or> (\<exists>x \<in> set (tel_rows p). from_row y x)"
        using new(1) by (auto simp: from_row_def)
    qed
  qed (simp_all add: q_def)
  ultimately show ?thesis unfolding q by (simp add: tel_ok_def q_def)
qed (use assms(1) in \<open>simp add: contact_arrives_def\<close>)

lemma cancelphone_ok:
  assumes "tel_ok p"
  shows "tel_ok (cancelphone r p)"
proof (cases "row_at p r")
  case (Some x)
  have "tel_ok (p\<lparr>tel_rows := cancel_row r (tel_rows p)\<rparr>)"
  proof (rule tel_ok_from [OF assms])
    show "\<forall>y \<in> set (tel_rows (p\<lparr>tel_rows := cancel_row r (tel_rows p)\<rparr>)). row_ok y \<and> (\<exists>x \<in> set (tel_rows p). from_row y x)"
    proof
      fix y
      assume "y \<in> set (tel_rows (p\<lparr>tel_rows := cancel_row r (tel_rows p)\<rparr>))"
      then obtain z where z: "z \<in> set (tel_rows p)" "y = z \<or> y = z\<lparr>row_hidden := False\<rparr>"
        using cancel_row_mem by fastforce
      then have "row_ok z" using assms by (simp add: tel_ok_def)
      then have "row_ok y" using z(2) by (auto simp: row_ok_def split: row_kind.split)
      moreover have "from_row y z" using z(2) by (auto simp: from_row_def)
      ultimately show "row_ok y \<and> (\<exists>x \<in> set (tel_rows p). from_row y x)" using z(1) by blast
    qed
  qed (use assms hidden_ok_cancel distinct_rows(3) in \<open>simp_all add: tel_ok_def\<close>)
  moreover have "p\<lparr>hint_shown := False, tel_rows := cancel_row r (tel_rows p)\<rparr>
      = (p\<lparr>tel_rows := cancel_row r (tel_rows p)\<rparr>)\<lparr>hint_shown := False\<rparr>" by simp
  ultimately have "tel_ok (p\<lparr>hint_shown := False, tel_rows := cancel_row r (tel_rows p)\<rparr>)"
    by (simp only: tel_ok_same)
  then show ?thesis using Some assms by (simp add: cancelphone_def)
qed (use assms in \<open>simp add: cancelphone_def\<close>)

lemma sbmtphone_ok:
  assumes "tel_ok p"
  shows "tel_ok (sbmtphone r p)"
proof (cases "row_at p r")
  case (Some x)
  show ?thesis
  proof (cases "content x")
    case (Form f)
    have "concerns p r (\<lambda>k. \<forall>c. k = FormRow c \<longrightarrow> (\<exists>g. serialize f = serialize g \<and> pf_contact g = c))"
      by (rule concerns_row [OF assms Some]) (auto simp: Form)
    then have "tel_ok ((p\<lparr>hint_shown := False\<rparr>)\<lparr>posts := posts (p\<lparr>hint_shown := False\<rparr>) @ [(r, serialize f)]\<rparr>)"
      using assms by (intro tel_ok_post) (simp_all only: tel_ok_same concerns_upd)
    then show ?thesis using Some Form by (simp add: sbmtphone_def)
  qed (use assms Some in \<open>simp_all add: sbmtphone_def\<close>)
qed (use assms in \<open>simp add: sbmtphone_def\<close>)

lemma remove_phone_ok:
  assumes "tel_ok p"
  shows "tel_ok (remove_phone b r p)"
proof (cases "row_at p r")
  case (Some x)
  show ?thesis
  proof (cases "content x")
    case (Phone c t n)
    have "concerns p r (\<lambda>k. \<forall>c. k \<noteq> FormRow c)"
      by (rule concerns_row [OF assms Some]) (simp add: Phone)
    then have "tel_ok ((p\<lparr>hint_shown := False\<rparr>)\<lparr>removals := removals (p\<lparr>hint_shown := False\<rparr>) @ [r]\<rparr>)"
      using assms by (intro tel_ok_removal) (simp_all only: tel_ok_same concerns_upd)
    then show ?thesis using Some Phone assms by (simp add: remove_phone_def)
  qed (use assms Some in \<open>simp_all add: remove_phone_def\<close>)
qed (use assms in \<open>simp add: remove_phone_def\<close>)

lemma phone_removed_ok:
  assumes "tel_ok p" "r \<in> set (removals p)"
  shows "tel_ok (phone_removed r err p)"
proof (cases err)
  case None
  have "\<forall>x \<in> set (tel_rows p). is_form x \<longrightarrow> row_ref x \<noteq> r"
    using assms by (auto simp: tel_ok_def jobs_ok_def concerns_def is_form_kind)
  then have "hidden_ok (filter (\<lambda>x. row_ref x \<noteq> r) (tel_rows p))"
    using assms(1) by (intro hidden_ok_filter) (simp_all add: tel_ok_def)
  moreover have "distinct (map row_ref (filter (\<lambda>x. row_ref x \<noteq> r) (tel_rows p)))"
    using assms(1) by (simp add: tel_ok_def distinct_map_filter)
  ultimately have "tel_ok (p\<lparr>tel_rows := filter (\<lambda>x. row_ref x \<noteq> r) (tel_rows p)\<rparr>)"
    using assms(1) by (intro tel_ok_from [OF assms(1)]) (auto simp: tel_ok_def intro: from_row_refl)
  then show ?thesis using None by (simp add: phone_removed_def)
qed (use assms in \<open>simp add: phone_removed_def\<close>)

text \<open>A change of a row that leaves what it is.\<close>

lemma map_row_ok:
  assumes "tel_ok p" "\<And>x. row_ref (f x) = row_ref x \<and> row_id (f x) = row_id x \<and> row_hidden (f x) = row_hidden x \<and> kind (f x) = kind x"
  shows "tel_ok (p\<lparr>tel_rows := map_row r f (tel_rows p)\<rparr>)"
proof (rule tel_ok_from [OF assms(1)])
  have "map row_ref (map_row r f (tel_rows p)) = map row_ref (tel_rows p)"
    using assms(2) by (auto simp: map_row_def)
  then show "distinct (map row_ref (tel_rows (p\<lparr>tel_rows := map_row r f (tel_rows p)\<rparr>)))"
    using assms(1) by (simp add: tel_ok_def)
  have "hidden_ok (map_row r f (tel_rows p))"
    using assms unfolding map_row_def by (intro hidden_ok_map) (auto simp: tel_ok_def form_for_def)
  then show "hidden_ok (tel_rows (p\<lparr>tel_rows := map_row r f (tel_rows p)\<rparr>))" by simp
  show "\<forall>y \<in> set (tel_rows (p\<lparr>tel_rows := map_row r f (tel_rows p)\<rparr>)). row_ok y \<and> (\<exists>x \<in> set (tel_rows p). from_row y x)"
  proof
    fix y
    assume "y \<in> set (tel_rows (p\<lparr>tel_rows := map_row r f (tel_rows p)\<rparr>))"
    then obtain x where x: "x \<in> set (tel_rows p)" "y = f x \<or> y = x" by (auto simp: map_row_def)
    moreover have "row_ok x" using x(1) assms(1) by (simp add: tel_ok_def)
    moreover have "row_ok (f x) = row_ok x" using assms(2) [of x] by (cases "kind x") (simp_all add: row_ok_def)
    ultimately have "row_ok y" by blast
    moreover have "from_row y x" using x(2) assms(2) by (auto simp: from_row_def)
    ultimately show "row_ok y \<and> (\<exists>x \<in> set (tel_rows p). from_row y x)" using x(1) by blast
  qed
qed simp_all

lemma in_form_ok:
  assumes "tel_ok p" "\<And>f. pf_contact (g f) = pf_contact f"
  shows "tel_ok (in_form r g p)"
  unfolding in_form_def
  by (rule map_row_ok [OF assms(1)]) (simp add: kind_def assms(2) split: row_content.split)

lemma on_field_contact [simp]: "pf_contact (on_field w g f) = pf_contact f"
  by (simp add: on_field_def split: phone_field.split)

lemma show_saved_simps [simp]:
  "row_ref (show_saved x y) = row_ref y" "row_hidden (show_saved x y) = row_hidden y"
  "from_row (show_saved x y) y" "row_ok y \<Longrightarrow> row_ok (show_saved x y)"
  "\<not> is_form y \<Longrightarrow> show_saved x y = y" "is_form y \<Longrightarrow> kind (show_saved x y) = PhoneRow (saved_id x)"
  by (auto simp: show_saved_def from_row_def is_form_kind row_ok_def kind_def split: row_content.split)

text \<open>A number that was saved takes the place of its form; the row it was shown in before goes.\<close>

lemma phone_saved_ok:
  assumes "tel_ok p" "server_ok server" "(r, fs) \<in> set (posts p)"
  shows "tel_ok (phone_saved r (save server fs) p)"
proof (cases "save server fs")
  case (Inl e)
  have "tel_ok (p\<lparr>tel_rows := map_row r (show_error e) (tel_rows p)\<rparr>)"
    by (rule map_row_ok [OF assms(1)]) (auto simp: show_error_def kind_def split: row_content.split)
  then show ?thesis by (simp add: phone_saved_def Inl)
next
  case (Inr x)
  define rows where "rows = filter (\<lambda>y. row_id y \<noteq> Some (contact_row_id (saved_id x))) (tel_rows p)"
  have ok: "\<forall>y \<in> set (tel_rows p). row_ok y" and d: "distinct (map row_ref (tel_rows p))" and h: "hidden_ok (tel_rows p)"
    using assms(1) by (simp_all add: tel_ok_def)
  have "hidden_ok rows"
    unfolding rows_def using ok by (intro hidden_ok_filter [OF h]) (auto simp: is_form_kind row_ok_def)
  moreover have other: "c \<noteq> saved_id x" if y: "y \<in> set rows" "kind y = PhoneRow c" for y c
  proof -
    have "row_ok y" "row_id y \<noteq> Some (contact_row_id (saved_id x))" using y(1) ok by (auto simp: rows_def)
    then show ?thesis using y(2) by (auto simp: row_ok_def contact_row_id_def)
  qed
  moreover have mine: "c = saved_id x" if y: "y \<in> set rows" "row_ref y = r" "kind y = FormRow (Some c)" for y c
  proof -
    have "concerns p r (\<lambda>k. \<forall>c. k = FormRow c \<longrightarrow> (\<exists>f. fs = serialize f \<and> pf_contact f = c))"
      using assms(1,3) unfolding tel_ok_def jobs_ok_def by blast
    then obtain f where "fs = serialize f" "pf_contact f = Some c"
      using y by (auto simp: concerns_def rows_def)
    then show ?thesis using assms(2) Inr unfolding server_ok_def by metis
  qed
  ultimately have "hidden_ok (map_row r (show_saved x) rows)"
    unfolding map_row_def
  proof (intro hidden_ok_map ballI impI)
    fix y z
    assume y: "y \<in> set rows" "z \<in> set rows" "row_hidden y \<and> form_for y z"
    then obtain c where c: "kind y = PhoneRow c" "kind z = FormRow (Some c)" by (auto simp: form_for_def)
    have "row_ref z \<noteq> r" using other [OF y(1) c(1)] mine [OF y(2) _ c(2)] by blast
    moreover have "\<not> is_form y" using c(1) by (simp add: is_form_kind)
    ultimately show "form_for (if row_ref y = r then show_saved x y else y) (if row_ref z = r then show_saved x z else z)"
      using y(3) by simp
  qed simp_all
  moreover have "map row_ref (map_row r (show_saved x) rows) = map row_ref rows"
    by (simp add: map_row_def)
  moreover have "distinct (map row_ref rows)" using d by (simp add: rows_def distinct_map_filter)
  moreover have "row_ok y \<and> (\<exists>z \<in> set (tel_rows p). from_row y z)" if y: "y \<in> set (map_row r (show_saved x) rows)" for y
  proof -
    obtain z where z: "z \<in> set rows" "y = z \<or> y = show_saved x z" using y by (auto simp: map_row_def)
    then have "z \<in> set (tel_rows p)" "row_ok z" using ok by (auto simp: rows_def)
    then show ?thesis using z(2) show_saved_simps(3,4) from_row_refl by metis
  qed
  ultimately have "tel_ok (p\<lparr>tel_rows := map_row r (show_saved x) rows\<rparr>)"
    by (intro tel_ok_from [OF assms(1)]) simp_all
  then show ?thesis by (simp add: phone_saved_def Inr rows_def)
qed

lemma tel_step_ok:
  assumes "tel_ok p \<and> server_ok server"
  shows "tel_ok (tel_step server p ev) \<and> server_ok server"
proof -
  have ok: "tel_ok p" "server_ok server" using assms by simp_all
  have "tel_ok (tel_step server p ev)"
  proof (cases ev)
    case (ContactArrives k)
    then show ?thesis using ok contact_arrives_ok by (simp add: tel_step_def)
  next
    case (Saved k)
    then show ?thesis using ok phone_saved_ok [of p server "fst (posts p ! k)" "snd (posts p ! k)"]
      by (simp add: tel_step_def)
  next
    case (Removed k)
    then show ?thesis using ok phone_removed_ok by (simp add: tel_step_def)
  next
    case (FocusField r w)
    then show ?thesis using in_form_ok [OF ok(1), of "on_field w hint_focus"] by (simp add: tel_step_def)
  next
    case (TypeField r w s)
    then show ?thesis using in_form_ok [OF ok(1), of "on_field w (\<lambda>h. h\<lparr>hinted_value := s\<rparr>)"] by (simp add: tel_step_def)
  next
    case (BlurField r w)
    then show ?thesis using in_form_ok [OF ok(1), of "on_field w hint_blur"] by (simp add: tel_step_def)
  qed (use ok in \<open>simp_all add: tel_step_def manip_phone_ok cancelphone_ok sbmtphone_ok remove_phone_ok contact_failed_def post_failed_def\<close>)
  then show ?thesis using ok by simp
qed

interpretation phone_table: handled "tel_step server" "\<lambda>_. True" "\<lambda>p. tel_ok p \<and> server_ok server"
  by unfold_locales (rule tel_step_ok)

text \<open>
  C10: In every session with the table of contacts (forms opened twice, answers late and in any order, numbers
  saved, removed or cancelled meanwhile) a row that is hidden shows a number, and right after it stands a form
  that changes that number: no number disappears without a form in its place.
\<close>

theorem hidden_numbers_have_forms:
  assumes "tel_ok p0" "server_ok server" "foldl (tel_step server) p0 evs = p"
    and "tel_rows p = xs @ x # ys" "row_hidden x"
  shows "\<exists>c t n y zs f. content x = Phone c t n \<and> ys = y # zs \<and> content y = Form f \<and> pf_contact f = Some c"
proof -
  have "tel_ok p" using phone_table.run_ok [of p0 server evs] assms(1-3) by simp
  then have "hidden_ok (xs @ x # ys)" using assms(4) by (simp add: tel_ok_def)
  then have "hidden_ok (x # ys)" by (induction xs) auto
  then obtain y zs where y: "ys = y # zs" "form_for x y" using assms(5) by (cases ys) auto
  then obtain c where c: "kind x = PhoneRow c" "kind y = FormRow (Some c)" by (auto simp: form_for_def)
  have "\<exists>t n. content x = Phone c t n" using c(1) by (auto simp: kind_def split: row_content.splits)
  moreover have "\<exists>f. content y = Form f \<and> pf_contact f = Some c"
    using c(2) by (auto simp: kind_def split: row_content.splits)
  ultimately show ?thesis using y(1) by blast
qed

definition demo_contact :: contact where
  "demo_contact = \<lparr>person_contact_id = ''5'', location_type = ''o'', technology = ''m'', privacy = ''B'',
     iso_country_code = ''U'', phone_number = ''2'', phone_extension = [], phone_pin = []\<rparr>"

definition demo_tel_server :: tel_server where
  "demo_tel_server =
     \<lparr>contacts = (\<lambda>a. \<lparr>answered_contact = map_option (\<lambda>c. demo_contact\<lparr>person_contact_id := c\<rparr>) a,
        locations = [Plain ''h'', Plain ''o''], technologies = [Plain ''p'', Plain ''m''],
        privacies = [Plain ''V'', Plain ''B''], countries = [Labelled ''U'' ''U1'']\<rparr>),
      save = (\<lambda>fs. Inr \<lparr>saved_id = (case fs of _ # (k, c) # _ \<Rightarrow> if k = ''person_contact_id'' then c else ''8'' | _ \<Rightarrow> ''8''),
        print_title = ''m(o)'', print_number = ''+1 2''\<rparr>),
      remove_error = None\<rparr>"

definition demo_tel_page :: tel_page where
  "demo_tel_page =
     \<lparr>href = ''?person_id=7'',
      tel_rows = [\<lparr>row_ref = 0, row_id = Some ''contact5'', row_hidden = False, content = Phone ''5'' ''m(o):'' ''+1 2''\<rparr>,
        \<lparr>row_ref = 1, row_id = Some ''legend'', row_hidden = False, content = Other\<rparr>],
      next_row = 2, contact_asks = [], removals = [], posts = [], hint_shown = False, tel_alerts = []\<rparr>"

lemma demo_tel_ok: "tel_ok demo_tel_page" "server_ok demo_tel_server"
  by (simp_all add: tel_ok_def demo_tel_page_def row_ok_def kind_def contact_row_id_def jobs_ok_def server_ok_def
      demo_tel_server_def serialize_def demo_contact_def)

definition demo_tel_rows :: "tel_row list" where
  "demo_tel_rows = tel_rows (foldl (tel_step demo_tel_server) demo_tel_page
     [EditPhone 0, EditPhone 0, ContactArrives 0, AddPhone, ContactArrives 1, ContactArrives 2, CancelPhone 2])"

theorem hidden_numbers_have_forms_witness:
  "row_hidden (demo_tel_rows ! 0) \<and> map row_ref demo_tel_rows = [0, 3, 4, 1]
   \<and> (\<exists>c t n y zs f. content (hd demo_tel_rows) = Phone c t n \<and> tl demo_tel_rows = y # zs
        \<and> content y = Form f \<and> pf_contact f = Some c)"
proof -
  have h: "row_hidden (demo_tel_rows ! 0)" "map row_ref demo_tel_rows = [0, 3, 4, 1]" by code_simp+
  then have "demo_tel_rows \<noteq> []" by force
  then have r: "demo_tel_rows = [] @ hd demo_tel_rows # tl demo_tel_rows" "row_hidden (hd demo_tel_rows)"
    using h(1) by (metis append_Nil list.collapse, metis hd_conv_nth)
  show ?thesis
    using hidden_numbers_have_forms [OF demo_tel_ok refl _ r(2)] r(1) h unfolding demo_tel_rows_def by blast
qed

section \<open>Submitting a number\<close>

lemma map_row_mem: "y \<in> set (map_row r f rows) \<longleftrightarrow> (\<exists>x \<in> set rows. y = (if row_ref x = r then f x else x))"
  unfolding map_row_def set_map image_iff by (rule refl)

text \<open>The rows after a form was saved: the row of the form shows the number, and no other row has its identifier.\<close>

definition rows_saved :: "saved_record \<Rightarrow> nat \<Rightarrow> tel_row list \<Rightarrow> tel_row list" where
  "rows_saved s r rows = map_row r (show_saved s) (filter (\<lambda>y. row_id y \<noteq> Some (contact_row_id (saved_id s))) rows)"

lemma phone_saved_rows:
  "tel_rows (phone_saved r (Inr s) p) = rows_saved s r (tel_rows p)" "posts (phone_saved r (Inr s) p) = posts p"
  by (simp_all add: phone_saved_def rows_saved_def)

lemma rows_savedE:
  assumes "y \<in> set (rows_saved s r rows)"
  obtains z where "z \<in> set rows" "row_id z \<noteq> Some (contact_row_id (saved_id s))" "y = (if row_ref z = r then show_saved s z else z)"
  using assms unfolding rows_saved_def map_row_mem by auto

lemma rows_saved_cases:
  assumes "tel_ok p" "x \<in> set (tel_rows p)" "row_ref x = r" "y \<in> set (rows_saved s r (tel_rows p))"
  shows "y = show_saved s x \<or> (row_ref y \<noteq> r \<and> row_ok y \<and> row_id y \<noteq> Some (contact_row_id (saved_id s)))"
proof -
  from assms(4) obtain z where z: "z \<in> set (tel_rows p)" "row_id z \<noteq> Some (contact_row_id (saved_id s))"
    and y: "y = (if row_ref z = r then show_saved s z else z)" by (rule rows_savedE)
  have "row_ok z" "row_ref z = r \<Longrightarrow> z = x"
    using assms(1-3) z(1) by (auto simp: tel_ok_def distinct_map inj_on_def)
  then show ?thesis using z(2) y by auto
qed

lemma rows_saved_form:
  assumes "row_ok x" "is_form x" "row_ref x = r" "x \<in> set rows"
  shows "show_saved s x \<in> set (rows_saved s r rows)"
    "content (show_saved s x) = Phone (saved_id s) (print_title s @ '':'') (print_number s)"
    "row_id (show_saved s x) = Some (contact_row_id (saved_id s))"
proof -
  have "row_id x = None" using assms(1,2) by (auto simp: row_ok_def is_form_kind)
  then show "show_saved s x \<in> set (rows_saved s r rows)"
    using assms(3,4) by (auto simp: rows_saved_def map_row_mem intro!: bexI [of _ x])
qed (use assms(2) in \<open>simp_all add: show_saved_def\<close>)

text \<open>Saved once more, the form is gone, and the row of the first answer goes.\<close>

lemma rows_saved_twice:
  assumes "tel_ok p" "x \<in> set (tel_rows p)" "is_form x" "row_ref x = r"
    and "y \<in> set (rows_saved s r (rows_saved s r (tel_rows p)))"
  shows "row_id y \<noteq> Some (contact_row_id (saved_id s)) \<and> (\<forall>t n. content y \<noteq> Phone (saved_id s) t n)"
proof -
  from assms(5) obtain z where z: "z \<in> set (rows_saved s r (tel_rows p))" "row_id z \<noteq> Some (contact_row_id (saved_id s))"
    and y: "y = (if row_ref z = r then show_saved s z else z)" by (rule rows_savedE)
  have "row_ok x" using assms(1,2) by (simp add: tel_ok_def)
  then have "row_id (show_saved s x) = Some (contact_row_id (saved_id s))"
    by (rule rows_saved_form(3) [OF _ assms(3,4,2)])
  then have "row_ref z \<noteq> r" "row_ok z"
    using rows_saved_cases [OF assms(1,2,4) z(1)] z(2) by auto
  then show ?thesis using z(2) y by (auto simp: row_ok_def kind_def)
qed

text \<open>
  C36: A changed number that is submitted once and saved is shown where its form stood, and nowhere else.
  Submitted twice before the first answer it is shown nowhere after the second: that answer removes the row
  which the first one made.
\<close>

theorem number_submitted_once_or_twice:
  assumes "tel_ok p" "server_ok server" "posts p = []"
    and "row_at p r = Some x" "content x = Form f" "pf_contact f = Some c" "save server (serialize f) = Inr s"
  shows "let q = foldl (tel_step server) p [SubmitPhone r, Saved 0];
             q2 = foldl (tel_step server) p [SubmitPhone r, SubmitPhone r, Saved 0, Saved 1]
         in (\<exists>y \<in> set (tel_rows q). row_ref y = r \<and> content y = Phone c (print_title s @ '':'') (print_number s))
          \<and> (\<forall>y \<in> set (tel_rows q). row_id y = Some (contact_row_id c) \<longrightarrow> row_ref y = r)
          \<and> (\<forall>y \<in> set (tel_rows q2). row_id y \<noteq> Some (contact_row_id c) \<and> (\<forall>t n. content y \<noteq> Phone c t n))"
proof -
  have x: "x \<in> set (tel_rows p)" "row_ref x = r" using row_at_Some [OF assms(4)] by simp_all
  have c: "saved_id s = c" using assms(2,6,7) unfolding server_ok_def by blast
  have form: "is_form x" using assms(5) by (simp add: is_form_def)
  have "row_ok x" using assms(1) x(1) by (simp add: tel_ok_def)
  note shown = rows_saved_form [OF this form x(2,1), of s]
  let ?R = "rows_saved s r (tel_rows p)"
  have "foldl (tel_step server) p [SubmitPhone r, Saved 0]
      = phone_saved r (Inr s) (p\<lparr>hint_shown := False, posts := [(r, serialize f)]\<rparr>)"
    using assms(3-5,7) by (simp add: tel_step_def sbmtphone_def)
  then have rows1: "tel_rows (foldl (tel_step server) p [SubmitPhone r, Saved 0]) = ?R"
    by (simp add: phone_saved_rows)
  have "row_ref (show_saved s x) = r" using x(2) by simp
  then have once: "\<exists>y \<in> set ?R. row_ref y = r \<and> content y = Phone c (print_title s @ '':'') (print_number s)"
    using shown(1,2) unfolding c by blast
  have only: "\<forall>y \<in> set ?R. row_id y = Some (contact_row_id c) \<longrightarrow> row_ref y = r"
    using \<open>row_ref (show_saved s x) = r\<close> rows_saved_cases [OF assms(1) x, of _ s] unfolding c by blast
  define p2 where "p2 = p\<lparr>hint_shown := False, posts := [(r, serialize f), (r, serialize f)]\<rparr>"
  have "foldl (tel_step server) p [SubmitPhone r, SubmitPhone r] = p2"
    using assms(3-5) by (simp add: tel_step_def sbmtphone_def p2_def row_at_def)
  then have "foldl (tel_step server) p [SubmitPhone r, SubmitPhone r, Saved 0, Saved 1]
      = phone_saved r (Inr s) (phone_saved r (Inr s) p2)"
    by (simp add: tel_step_def p2_def phone_saved_rows assms(7))
  then have rows2: "tel_rows (foldl (tel_step server) p [SubmitPhone r, SubmitPhone r, Saved 0, Saved 1]) = rows_saved s r ?R"
    by (simp add: phone_saved_rows p2_def)
  show ?thesis
    using once only rows_saved_twice [OF assms(1) x(1) form x(2), of _ s] unfolding Let_def rows1 rows2 c by blast
qed

theorem number_submitted_once_or_twice_witness:
  "let p = foldl (tel_step demo_tel_server) demo_tel_page [EditPhone 0, ContactArrives 0];
       q = foldl (tel_step demo_tel_server) p [SubmitPhone 2, Saved 0];
       q2 = foldl (tel_step demo_tel_server) p [SubmitPhone 2, SubmitPhone 2, Saved 0, Saved 1]
   in map row_id (tel_rows q) = [Some ''contact5'', Some ''legend''] \<and> map row_id (tel_rows q2) = [Some ''legend'']
    \<and> (\<exists>y \<in> set (tel_rows q). row_ref y = 2 \<and> content y = Phone ''5'' ''m(o):'' ''+1 2'')"
proof -
  define p where "p = foldl (tel_step demo_tel_server) demo_tel_page [EditPhone 0, ContactArrives 0]"
  define f where "f = phone_form_of ''7'' (contacts demo_tel_server (Some ''5''))"
  define s where "s = \<lparr>saved_id = ''5'', print_title = ''m(o)'', print_number = ''+1 2''\<rparr>"
  have ok: "tel_ok p" unfolding p_def
    using phone_table.run_ok [of demo_tel_page demo_tel_server "[EditPhone 0, ContactArrives 0]"] demo_tel_ok by blast
  have "posts p = []" unfolding p_def by code_simp
  moreover have "row_at p 2 = Some \<lparr>row_ref = 2, row_id = None, row_hidden = False, content = Form f\<rparr>"
    unfolding p_def f_def by code_simp
  moreover have "pf_contact f = Some ''5''" unfolding f_def by code_simp
  moreover have "save demo_tel_server (serialize f) = Inr s" unfolding f_def s_def by code_simp
  ultimately have "\<exists>y \<in> set (tel_rows (foldl (tel_step demo_tel_server) p [SubmitPhone 2, Saved 0])).
      row_ref y = 2 \<and> content y = Phone ''5'' (print_title s @ '':'') (print_number s)"
    using number_submitted_once_or_twice [OF ok demo_tel_ok(2), of 2 _ f "''5''" s] unfolding Let_def
    by (metis tel_row.select_convs(4))
  moreover have "map row_id (tel_rows (foldl (tel_step demo_tel_server) p [SubmitPhone 2, Saved 0]))
      = [Some ''contact5'', Some ''legend'']"
    "map row_id (tel_rows (foldl (tel_step demo_tel_server) p [SubmitPhone 2, SubmitPhone 2, Saved 0, Saved 1]))
      = [Some ''legend'']"
    unfolding p_def by code_simp+
  ultimately show ?thesis unfolding Let_def p_def [symmetric] s_def by simp
qed

text \<open>What a menu offers, and what its drop-down submits when a value it offers was selected.\<close>

definition menu_value :: "menu_item \<Rightarrow> string" where
  "menu_value m = (case m of Plain x \<Rightarrow> x | Labelled x _ \<Rightarrow> x)"

lemma select_value_build:
  assumes "v \<in> menu_value ` set ms"
  shows "select_value (build_option n ms (Some v)) = Some v"
proof -
  have o: "fst (phone_option (Some v) m) = menu_value m" "snd (snd (phone_option (Some v) m)) \<longleftrightarrow> v = menu_value m" for m
    by (simp_all add: phone_option_def menu_value_def split: menu_item.split)
  define sel where "sel = filter (snd \<circ> snd) (map (phone_option (Some v)) ms)"
  have "fst x = v" if "x \<in> set sel" for x
  proof -
    obtain m where "x = phone_option (Some v) m" "snd (snd x)" using \<open>x \<in> set sel\<close> unfolding sel_def by auto
    then show ?thesis using o by simp
  qed
  moreover have "sel \<noteq> []"
  proof -
    obtain m where m: "m \<in> set ms" "v = menu_value m" using assms by blast
    then have "phone_option (Some v) m \<in> set sel" using o(2) [of m] by (simp add: sel_def)
    then show ?thesis by force
  qed
  ultimately show ?thesis
    by (auto simp: select_value_def build_option_def simp flip: sel_def split: list.split)
qed

definition offered :: "contact_answer \<Rightarrow> contact \<Rightarrow> bool" where
  "offered resp x \<longleftrightarrow> location_type x \<in> menu_value ` set (locations resp)
     \<and> technology x \<in> menu_value ` set (technologies resp)
     \<and> privacy x \<in> menu_value ` set (privacies resp) \<and> iso_country_code x \<in> menu_value ` set (countries resp)"



end
