(* ===== verification/DeviceSearch.thy ===== *)
theory DeviceSearch
  imports Prelude
begin

text \<open>
  \<open>ajaxsearch.js\<close>, its first search: the pop-up that completes the name of a device in a text field (the
  parent of a device, the device of a power port).  The hidden field next to the text field holds the
  identifier of the device.
\<close>

section \<open>Fields and pop-ups\<close>

text \<open>
  A drop-down of an answer: its options (value, text) and which of them is selected.
\<close>

record ds_drop =
  drop_opts :: "(string \<times> string) list"
  drop_selected :: "nat option"

text \<open>
  A pop-up stays an object after it has left the page: requests and the timer still refer to it.  Its
  \<open>contents\<close> are the drop-downs among its children, and \<open>txtid\<close> is the name of its field, which stands for
  the text field and the hidden field together.
\<close>

record ds_popup =
  txtid :: string
  leaveUp :: bool
  shown :: bool
  contents :: "ds_drop list"
  user_abort :: bool
  oncompletion :: bool

text \<open>
  A field: its text, the value of the hidden field, what the script notes on it, and its pop-up while
  that is in the page.
\<close>

record ds_field =
  ftext :: string
  idsave :: string
  is_pending :: bool
  oldval :: string
  orig_value :: "string option"
  popUp :: "nat option"

text \<open>
  The page: fields, pop-ups, the globals \<open>searchrequest\<close> (the last of the requests, which are the texts
  looked for, each with whether its answer is complete), \<open>searchpopup\<close> and \<open>timer\<close> (with the field and
  pop-up its function was made for).  Completions called, forms told not to submit, and exceptions are
  recorded.
\<close>

record ds_page =
  ds_fields :: "string \<rightharpoonup> ds_field"
  ds_popups :: "nat \<rightharpoonup> ds_popup"
  ds_next :: nat
  lookups :: "(string \<times> bool) list"
  searchpopup :: "nat option"
  ds_timer :: "(string \<times> nat) option"
  completions :: "string list"
  dontSubmit :: bool
  ds_errors :: "js_error list"

definition in_field :: "string \<Rightarrow> (ds_field \<Rightarrow> ds_field) \<Rightarrow> ds_page \<Rightarrow> ds_page" where
  "in_field f g p = p\<lparr>ds_fields := (ds_fields p)(f := map_option g (ds_fields p f))\<rparr>"

definition in_popup :: "nat \<Rightarrow> (ds_popup \<Rightarrow> ds_popup) \<Rightarrow> ds_page \<Rightarrow> ds_page" where
  "in_popup r g p = p\<lparr>ds_popups := (ds_popups p)(r := map_option g (ds_popups p r))\<rparr>"

definition popup_of :: "ds_page \<Rightarrow> string \<Rightarrow> nat option" where
  "popup_of p f = Option.bind (ds_fields p f) popUp"

text \<open>The position of an element: its offset and those of its offset parents but the outermost.\<close>

definition findPos :: "int list \<Rightarrow> int option \<Rightarrow> int" where
  "findPos offsets x = (if offsets \<noteq> [] then sum_list offsets else case x of None \<Rightarrow> 0 | Some i \<Rightarrow> i)"

section \<open>Opening, requesting, closing\<close>

text \<open>
  The condition that should keep the original value assigns \<open>null\<close> to it.
\<close>

definition create_search_popup :: "string \<Rightarrow> bool \<Rightarrow> ds_page \<Rightarrow> nat \<times> ds_page" where
  "create_search_popup f ondone p =
     (case popup_of p f of
        Some r \<Rightarrow> (r, p)
      | None \<Rightarrow>
          let r = ds_next p;
              u = \<lparr>txtid = f, leaveUp = False, shown = False, contents = [], user_abort = False, oncompletion = ondone\<rparr>
          in (r, (in_field f (\<lambda>e. e\<lparr>orig_value := None, popUp := Some r\<rparr>) p)
                   \<lparr>ds_popups := (ds_popups p)(r \<mapsto> u), ds_next := Suc r\<rparr>))"

text \<open>Taking a pop-up out of the page fails when it is not in it.\<close>

definition remove_popup :: "nat \<Rightarrow> ds_page \<Rightarrow> ds_page" where
  "remove_popup r p =
     (case ds_popups p r of
        None \<Rightarrow> p
      | Some u \<Rightarrow>
          if popup_of p (txtid u) = Some r then in_field (txtid u) (\<lambda>e. e\<lparr>popUp := None\<rparr>) p
          else p\<lparr>ds_errors := ds_errors p @ [TypeError]\<rparr>)"

definition changePopup_Search :: "string \<Rightarrow> nat \<Rightarrow> ds_page \<Rightarrow> ds_page" where
  "changePopup_Search f r p =
     (let p1 = p\<lparr>ds_timer := None\<rparr> in
      case ds_fields p f of
        None \<Rightarrow> p1
      | Some e \<Rightarrow>
          if ftext e \<noteq> []
          then (in_popup r (\<lambda>u. u\<lparr>shown := True\<rparr>) p1)\<lparr>lookups := lookups p @ [(ftext e, False)], searchpopup := Some r\<rparr>
          else remove_popup r (in_popup r (\<lambda>u. u\<lparr>shown := False\<rparr>) p1))"

definition lookup_url :: "string \<Rightarrow> string" where
  "lookup_url s = ''ajax-devsearch.pl?lookfor='' @ s"

text \<open>
  The handler of every request looks at the last one.
\<close>

definition updatePopUpSearchPage :: "(string \<Rightarrow> (string \<times> string) list list) \<Rightarrow> ds_page \<Rightarrow> ds_page" where
  "updatePopUpSearchPage server p =
     (if lookups p \<noteq> [] \<and> snd (last (lookups p)) then
        (case searchpopup p of
           None \<Rightarrow> p
         | Some r \<Rightarrow>
             in_popup r (\<lambda>u. u\<lparr>contents := map (\<lambda>os. \<lparr>drop_opts = os, drop_selected = None\<rparr>) (server (fst (last (lookups p)))),
               shown := True\<rparr>) p)
      else p)"

text \<open>The first option that is selected or has the text that was typed.\<close>

definition taken_option :: "string \<Rightarrow> ds_drop \<Rightarrow> (string \<times> string) option" where
  "taken_option typedval d =
     map_option snd (find (\<lambda>(i, v, t). drop_selected d = Some i \<or> t = typedval) (enumerate 0 (drop_opts d)))"

text \<open>
  Closing: the chosen device is filled in; otherwise the text from before is put back when a key was
  pressed since, and the field is emptied when none was.
\<close>

definition fill_in :: "ds_drop option \<Rightarrow> ds_popup \<Rightarrow> ds_field \<Rightarrow> ds_field" where
  "fill_in dropdown u e =
     (let e1 = (if user_abort u then e
                else
                  (let e0 = (case Option.bind dropdown (taken_option (ftext e)) of
                               None \<Rightarrow> e | Some (v, t) \<Rightarrow> e\<lparr>idsave := v, ftext := t\<rparr>)
                   in if ftext e0 = [] then e0\<lparr>idsave := []\<rparr> else e0));
          reset = (\<not> user_abort u \<and> Option.bind dropdown (taken_option (ftext e)) \<noteq> None)
      in if reset then e1\<lparr>is_pending := False\<rparr>
         else if is_pending e1 then e1\<lparr>ftext := oldval e1, is_pending := False\<rparr>
         else e1\<lparr>ftext := [], idsave := [], is_pending := False\<rparr>)"

text \<open>
  The completion is called unless the original value is kept and equal, which it never is.
\<close>

definition closeAndFillIn_Search :: "ds_drop option \<Rightarrow> nat \<Rightarrow> ds_page \<Rightarrow> ds_page" where
  "closeAndFillIn_Search dropdown r p =
     (case ds_popups p r of
        None \<Rightarrow> p
      | Some u \<Rightarrow>
          (case ds_fields p (txtid u) of
             None \<Rightarrow> p
           | Some e \<Rightarrow>
               let e' = fill_in dropdown u e;
                   p1 = in_popup r (\<lambda>u. u\<lparr>leaveUp := True, shown := False, contents := []\<rparr>) (in_field (txtid u) (\<lambda>_. e') p);
                   p2 = (if \<not> user_abort u \<and> oncompletion u \<and> (orig_value e' \<in> {None, Some []} \<or> orig_value e' \<noteq> Some (ftext e'))
                         then (in_field (txtid u) (\<lambda>e. e\<lparr>orig_value := None\<rparr>) p1)\<lparr>completions := completions p @ [txtid u]\<rparr>
                         else p1)
               in remove_popup r p2))"

section \<open>The handlers\<close>

text \<open>
  The condition that should look for a drop-down assigns \<open>null\<close>: none is ever passed on.
\<close>

definition processSearchBox_Breakdown :: "nat \<Rightarrow> ds_page \<Rightarrow> ds_page" where
  "processSearchBox_Breakdown r p = closeAndFillIn_Search None r p"

definition hideonBlur_Search :: "nat \<Rightarrow> ds_page \<Rightarrow> ds_page" where
  "hideonBlur_Search r p = processSearchBox_Breakdown r p"

text \<open>The condition assigns \<open>true\<close>, so the pop-up is shown in any case.\<close>

definition keepVisible_Search :: "nat \<Rightarrow> ds_page \<Rightarrow> ds_page" where
  "keepVisible_Search r p = in_popup r (\<lambda>u. u\<lparr>leaveUp := False, shown := True\<rparr>) p"

definition mouseover_Search :: "nat \<Rightarrow> ds_page \<Rightarrow> ds_page" where
  "mouseover_Search r p = in_popup r (\<lambda>u. u\<lparr>leaveUp := True\<rparr>) p"

definition mouseout_Search :: "nat \<Rightarrow> ds_page \<Rightarrow> ds_page" where
  "mouseout_Search r p = in_popup r (\<lambda>u. u\<lparr>leaveUp := False\<rparr>) p"

definition inputEvent_Search :: "string \<Rightarrow> bool \<Rightarrow> ds_page \<Rightarrow> ds_page" where
  "inputEvent_Search f ondone p =
     (if ds_timer p \<noteq> None then p
      else
        let (r, p1) = (case popup_of p f of
                         Some r \<Rightarrow> (r, p)
                       | None \<Rightarrow> create_search_popup f ondone (in_field f (\<lambda>e. e\<lparr>orig_value := Some []\<rparr>) p))
        in changePopup_Search f r p1)"

text \<open>Keys that never search: locks, modifiers, and the keys that move.\<close>

definition silent_key :: "nat \<Rightarrow> bool" where
  "silent_key k \<longleftrightarrow> k \<in> {144, 145, 19, 20} \<or> (16 \<le> k \<and> k \<le> 18) \<or> (33 \<le> k \<and> k \<le> 45)"

text \<open>A key in the field.  The property \<open>oldvalue\<close> that is also set is never used.\<close>

definition keyprocess_Search :: "string \<Rightarrow> nat \<Rightarrow> nat \<Rightarrow> bool \<Rightarrow> ds_page \<Rightarrow> ds_page" where
  "keyprocess_Search f keycode charCode ondone p =
     (let p1 = in_field f (\<lambda>e. if is_pending e then e else e\<lparr>oldval := ftext e, is_pending := True\<rparr>) (p\<lparr>ds_timer := None\<rparr>)
      in if keycode = 9 \<or> (keycode \<noteq> 40 \<and> (silent_key keycode \<or> (keycode \<noteq> 27 \<and> keycode \<noteq> 0 \<and> charCode = 0))) then p1
         else
           (case popup_of p f of
              None \<Rightarrow>
                if keycode = 27 then p1
                else let (r, p2) = create_search_popup f ondone p1 in p2\<lparr>ds_timer := Some (f, r)\<rparr>
            | Some r \<Rightarrow>
                if keycode = 40 then in_popup r (\<lambda>u. u\<lparr>leaveUp := True\<rparr>) p1
                else if keycode = 27 then processSearchBox_Breakdown r (in_popup r (\<lambda>u. u\<lparr>leaveUp := False\<rparr>) p1)
                else p1\<lparr>ds_timer := Some (f, r)\<rparr>))"

definition hidePopup_Search :: "string \<Rightarrow> ds_page \<Rightarrow> ds_page" where
  "hidePopup_Search f p =
     (case popup_of p f of
        None \<Rightarrow> p
      | Some r \<Rightarrow>
          (case ds_popups p r of
             None \<Rightarrow> p
           | Some u \<Rightarrow>
               if leaveUp u then in_popup r (\<lambda>u. u\<lparr>leaveUp := False\<rparr>) p
               else if shown u
               then closeAndFillIn_Search (case contents u of [] \<Rightarrow> None | d # _ \<Rightarrow> Some d) r p
               else p))"

text \<open>A key in the \<open>i\<close>-th drop-down of a pop-up: Enter takes the choice, Escape gives up.\<close>

definition checkSelectKeypress_Search :: "nat \<Rightarrow> nat \<Rightarrow> nat \<Rightarrow> ds_page \<Rightarrow> ds_page" where
  "checkSelectKeypress_Search r i keycode p =
     (case ds_popups p r of
        None \<Rightarrow> p
      | Some u \<Rightarrow>
          if i < length (contents u) then
            (if keycode = 13 then closeAndFillIn_Search (Some (contents u ! i)) r (p\<lparr>dontSubmit := True\<rparr>)
             else if keycode = 27 then
               closeAndFillIn_Search (Some (contents u ! i)) r
                 (in_popup r (\<lambda>u. u\<lparr>user_abort := True\<rparr>)
                    (in_field (txtid u)
                       (\<lambda>e. case orig_value e of Some v \<Rightarrow> if v = [] then e else e\<lparr>ftext := v\<rparr> | None \<Rightarrow> e) p))
             else p)
          else p)"

definition timer_runs :: "ds_page \<Rightarrow> ds_page" where
  "timer_runs p = (case ds_timer p of None \<Rightarrow> p | Some (f, r) \<Rightarrow> changePopup_Search f r p)"

text \<open>A request reports: that it has come further, or that its answer is complete.\<close>

definition request_reports :: "(string \<Rightarrow> (string \<times> string) list list) \<Rightarrow> nat \<Rightarrow> bool \<Rightarrow> ds_page \<Rightarrow> ds_page" where
  "request_reports server k complete p =
     (if k < length (lookups p)
      then updatePopUpSearchPage server
        (if complete then p\<lparr>lookups := (lookups p)[k := (fst (lookups p ! k), True)]\<rparr> else p)
      else p)"

text \<open>The user selects an option of a drop-down.\<close>

definition select_option :: "nat \<Rightarrow> nat \<Rightarrow> nat \<Rightarrow> ds_page \<Rightarrow> ds_page" where
  "select_option r i j p = in_popup r (\<lambda>u. u\<lparr>contents := (contents u)[i := (contents u ! i)\<lparr>drop_selected := Some j\<rparr>]\<rparr>) p"

definition set_text :: "string \<Rightarrow> string \<Rightarrow> ds_page \<Rightarrow> ds_page" where
  "set_text f s p = in_field f (\<lambda>e. e\<lparr>ftext := s\<rparr>) p"

text \<open>
  What the user does.  \<open>PressKey\<close> is a key that does not change the text, \<open>TypeKey\<close> one that does (a
  \<open>keydown\<close> event, with the code 0 for the character as browsers send it, and then the text changes);
  \<open>Paste\<close> changes the text without a key.
\<close>

datatype ds_event =
  PressKey string nat | TypeKey string nat string | Paste string string | Leave string | TimerRuns
| Reports nat bool | SelectOption string nat nat | SelectKey string nat nat
| EnterPopup string | LeavePopup string | FocusPopup string | BlurPopup string

definition with_popup :: "string \<Rightarrow> (nat \<Rightarrow> ds_page \<Rightarrow> ds_page) \<Rightarrow> ds_page \<Rightarrow> ds_page" where
  "with_popup f g p = (case popup_of p f of None \<Rightarrow> p | Some r \<Rightarrow> g r p)"

text \<open>The handlers hang on the fields of the page.\<close>

definition at_field :: "string \<Rightarrow> (ds_page \<Rightarrow> ds_page) \<Rightarrow> ds_page \<Rightarrow> ds_page" where
  "at_field f g p = (if ds_fields p f = None then p else g p)"

definition ds_step :: "(string \<Rightarrow> (string \<times> string) list list) \<Rightarrow> ds_page \<Rightarrow> ds_event \<Rightarrow> ds_page" where
  "ds_step server p ev =
     (case ev of
        PressKey f k \<Rightarrow> at_field f (keyprocess_Search f k 0 True) p
      | TypeKey f k s \<Rightarrow> at_field f (\<lambda>p. inputEvent_Search f True (set_text f s (keyprocess_Search f k 0 True p))) p
      | Paste f s \<Rightarrow> at_field f (\<lambda>p. inputEvent_Search f True (set_text f s p)) p
      | Leave f \<Rightarrow> hidePopup_Search f p
      | TimerRuns \<Rightarrow> timer_runs p
      | Reports k b \<Rightarrow> request_reports server k b p
      | SelectOption f i j \<Rightarrow> with_popup f (\<lambda>r. select_option r i j) p
      | SelectKey f i k \<Rightarrow> with_popup f (\<lambda>r. checkSelectKeypress_Search r i k) p
      | EnterPopup f \<Rightarrow> with_popup f mouseover_Search p
      | LeavePopup f \<Rightarrow> with_popup f mouseout_Search p
      | FocusPopup f \<Rightarrow> with_popup f keepVisible_Search p
      | BlurPopup f \<Rightarrow> with_popup f hideonBlur_Search p)"

section \<open>The identifier belongs to the name\<close>

text \<open>
  Pairs of an identifier and a name that some answer of the server lists, and what a field may hold at rest:
  no name, no identifier, its original pair, or a pair that was listed.
\<close>

definition listed_pair :: "(string \<Rightarrow> (string \<times> string) list list) \<Rightarrow> string \<times> string \<Rightarrow> bool" where
  "listed_pair server x \<longleftrightarrow> (\<exists>s. \<exists>os \<in> set (server s). x \<in> set os)"

definition good_pair :: "(string \<Rightarrow> (string \<times> string) list list) \<Rightarrow> string \<times> string \<Rightarrow> string \<Rightarrow> string \<Rightarrow> bool" where
  "good_pair server orig i t \<longleftrightarrow> t = [] \<or> i = [] \<or> (i, t) = orig \<or> listed_pair server (i, t)"

definition ds_field_ok :: "(string \<Rightarrow> (string \<times> string) list list) \<Rightarrow> string \<times> string \<Rightarrow> ds_field \<Rightarrow> bool" where
  "ds_field_ok server orig e \<longleftrightarrow>
     (is_pending e \<longrightarrow> good_pair server orig (idsave e) (oldval e))
   \<and> (case popUp e of None \<Rightarrow> good_pair server orig (idsave e) (ftext e) | Some _ \<Rightarrow> is_pending e)"

definition contents_ok :: "(string \<Rightarrow> (string \<times> string) list list) \<Rightarrow> ds_popup \<Rightarrow> bool" where
  "contents_ok server u \<longleftrightarrow> (\<forall>d \<in> set (contents u). \<forall>x \<in> set (drop_opts d). listed_pair server x)"

definition ds_ok :: "(string \<Rightarrow> (string \<times> string) list list) \<Rightarrow> (string \<Rightarrow> string \<times> string) \<Rightarrow> ds_page \<Rightarrow> bool" where
  "ds_ok server orig p \<longleftrightarrow>
     (\<forall>f e. ds_fields p f = Some e \<longrightarrow> ds_field_ok server (orig f) e)
   \<and> (\<forall>f r. popup_of p f = Some r \<or> ds_timer p = Some (f, r) \<longrightarrow> (\<exists>u. ds_popups p r = Some u \<and> txtid u = f))
   \<and> (\<forall>r u. ds_popups p r = Some u \<longrightarrow> contents_ok server u \<and> r < ds_next p)"

lemma ds_okD:
  assumes "ds_ok server orig p"
  shows "ds_fields p f = Some e \<Longrightarrow> ds_field_ok server (orig f) e"
    and "popup_of p f = Some r \<Longrightarrow> \<exists>u. ds_popups p r = Some u \<and> txtid u = f"
    and "ds_timer p = Some (f, r) \<Longrightarrow> \<exists>u. ds_popups p r = Some u \<and> txtid u = f"
    and "ds_popups p r = Some u \<Longrightarrow> contents_ok server u"
    and "ds_popups p r = Some u \<Longrightarrow> r < ds_next p"
  using assms unfolding ds_ok_def by blast+

lemma page_parts [simp]:
  "ds_fields (in_popup r g p) = ds_fields p" "ds_timer (in_popup r g p) = ds_timer p" "ds_next (in_popup r g p) = ds_next p"
  "popup_of (in_popup r g p) f = popup_of p f" "ds_popups (in_field f h p) = ds_popups p"
  "ds_timer (in_field f h p) = ds_timer p" "ds_next (in_field f h p) = ds_next p"
  "ds_fields (in_field f h p) f' = (if f' = f then map_option h (ds_fields p f) else ds_fields p f')"
  "ds_popups (in_popup r g p) r' = (if r' = r then map_option g (ds_popups p r) else ds_popups p r')"
  "lookups (in_popup r g p) = lookups p" "lookups (in_field f h p) = lookups p"
  "searchpopup (in_popup r g p) = searchpopup p" "searchpopup (in_field f h p) = searchpopup p"
  by (simp_all add: in_popup_def in_field_def popup_of_def)

lemma popup_of_in_field:
  "popup_of (in_field f h p) f' = (if f' = f then Option.bind (ds_fields p f) (\<lambda>e. popUp (h e)) else popup_of p f')"
  by (cases "ds_fields p f") (simp_all add: popup_of_def)

lemma in_popup_ok:
  assumes "ds_ok server orig p" "\<And>u. txtid (g u) = txtid u" "\<And>u. contents_ok server u \<Longrightarrow> contents_ok server (g u)"
  shows "ds_ok server orig (in_popup r g p)"
  unfolding ds_ok_def
proof (intro conjI allI impI)
  fix f e
  assume "ds_fields (in_popup r g p) f = Some e"
  then show "ds_field_ok server (orig f) e" using ds_okD(1) [OF assms(1)] by simp
next
  fix f s
  assume "popup_of (in_popup r g p) f = Some s \<or> ds_timer (in_popup r g p) = Some (f, s)"
  then obtain u where "ds_popups p s = Some u" "txtid u = f" using ds_okD(2,3) [OF assms(1)] by auto
  then show "\<exists>u. ds_popups (in_popup r g p) s = Some u \<and> txtid u = f" using assms(2) by (cases "s = r") auto
next
  fix s u
  assume "ds_popups (in_popup r g p) s = Some u"
  then obtain v where v: "ds_popups p s = Some v" "u = v \<or> u = g v" by (auto split: if_splits)
  then show "contents_ok server u" using ds_okD(4) [OF assms(1) v(1)] assms(3) by blast
  show "s < ds_next (in_popup r g p)" using ds_okD(5) [OF assms(1) v(1)] by simp
qed

lemma in_field_ok:
  assumes "ds_ok server orig p" "\<And>e. ds_fields p f = Some e \<Longrightarrow> ds_field_ok server (orig f) (h e)"
    and "\<And>e r. ds_fields p f = Some e \<Longrightarrow> popUp (h e) = Some r \<Longrightarrow> popUp e = Some r"
  shows "ds_ok server orig (in_field f h p)"
  unfolding ds_ok_def
proof (intro conjI allI impI)
  fix f' e
  assume "ds_fields (in_field f h p) f' = Some e"
  then show "ds_field_ok server (orig f') e"
    using ds_okD(1) [OF assms(1)] assms(2) by (auto split: if_splits)
next
  fix f' s
  assume "popup_of (in_field f h p) f' = Some s \<or> ds_timer (in_field f h p) = Some (f', s)"
  moreover have "popup_of p f' = Some s" if "popup_of (in_field f h p) f' = Some s"
    using that assms(3) by (auto simp: popup_of_in_field popup_of_def bind_eq_Some_conv split: if_splits)
  ultimately show "\<exists>u. ds_popups (in_field f h p) s = Some u \<and> txtid u = f'" using ds_okD(2,3) [OF assms(1)] by auto
next
  fix s u
  assume "ds_popups (in_field f h p) s = Some u"
  then show "contents_ok server u" "s < ds_next (in_field f h p)" using ds_okD(4,5) [OF assms(1)] by auto
qed

text \<open>Changes of the parts the invariant does not speak of.\<close>

lemma ds_ok_same:
  assumes "ds_ok server orig p" "ds_fields q = ds_fields p" "ds_popups q = ds_popups p" "ds_next q = ds_next p"
    and "ds_timer q = ds_timer p \<or> ds_timer q = None"
  shows "ds_ok server orig q"
  using assms unfolding ds_ok_def popup_of_def by auto

lemma create_ok:
  assumes "ds_ok server orig p" "create_search_popup f ondone p = (r, q)"
    and "\<And>e. ds_fields p f = Some e \<Longrightarrow> is_pending e" "ds_fields p f \<noteq> None"
  shows "ds_ok server orig q \<and> popup_of q f = Some r"
proof (cases "popup_of p f")
  case None
  obtain e where e: "ds_fields p f = Some e" using assms(4) by blast
  have fe: "ds_field_ok server (orig f) e" "is_pending e" using ds_okD(1) [OF assms(1) e] assms(3) [OF e] by simp_all
  define u where "u = \<lparr>txtid = f, leaveUp = False, shown = False, contents = [], user_abort = False, oncompletion = ondone\<rparr>"
  have r: "r = ds_next p" and q: "q = (in_field f (\<lambda>e. e\<lparr>orig_value := None, popUp := Some r\<rparr>) p)
      \<lparr>ds_popups := (ds_popups p)(r \<mapsto> u), ds_next := Suc r\<rparr>"
    using assms(2) None by (auto simp: create_search_popup_def Let_def u_def)
  have F: "ds_fields q = (ds_fields p)(f \<mapsto> e\<lparr>orig_value := None, popUp := Some r\<rparr>)" "ds_timer q = ds_timer p"
    by (simp_all add: q in_field_def e)
  have P: "ds_popups q = (ds_popups p)(r \<mapsto> u)" "ds_next q = Suc r" by (simp_all add: q)
  have po: "popup_of q f' = (if f' = f then Some r else popup_of p f')" for f'
    by (simp add: popup_of_def F)
  have old: "s \<noteq> r" if "ds_popups p s = Some v" for s v
    using ds_okD(5) [OF assms(1) that] r by simp
  have "ds_field_ok server (orig f') e'" if "ds_fields q f' = Some e'" for f' e'
    using that fe ds_okD(1) [OF assms(1)] by (auto simp: F ds_field_ok_def split: if_splits)
  moreover have "\<exists>v. ds_popups q s = Some v \<and> txtid v = f'" if w: "popup_of q f' = Some s \<or> ds_timer q = Some (f', s)" for f' s
  proof (cases "popup_of q f' = Some s \<and> f' = f")
    case True
    then have "s = r" "f' = f" by (auto simp: po split: if_splits)
    then show ?thesis by (simp add: P u_def)
  next
    case False
    then obtain v where "ds_popups p s = Some v" "txtid v = f'"
      using w ds_okD(2,3) [OF assms(1)] by (fastforce simp: po F split: if_splits)
    then show ?thesis using old by (simp add: P)
  qed
  moreover have "contents_ok server v \<and> s < ds_next q" if "ds_popups q s = Some v" for s v
    using that ds_okD(4,5) [OF assms(1)] r by (auto simp: P u_def contents_ok_def less_Suc_eq split: if_splits)
  ultimately have "ds_ok server orig q" unfolding ds_ok_def by blast
  then show ?thesis by (simp add: po)
next
  case (Some s)
  then show ?thesis using assms(1,2) by (simp add: create_search_popup_def)
qed

lemma remove_popup_ok:
  assumes "ds_ok server orig p" "\<And>u e. ds_popups p r = Some u \<Longrightarrow> ds_fields p (txtid u) = Some e \<Longrightarrow> popUp e = Some r
      \<Longrightarrow> good_pair server (orig (txtid u)) (idsave e) (ftext e)"
  shows "ds_ok server orig (remove_popup r p)"
proof (cases "ds_popups p r")
  case (Some u)
  show ?thesis
  proof (cases "popup_of p (txtid u) = Some r")
    case True
    have "ds_ok server orig (in_field (txtid u) (\<lambda>e. e\<lparr>popUp := None\<rparr>) p)"
    proof (rule in_field_ok [OF assms(1)])
      fix e
      assume e: "ds_fields p (txtid u) = Some e"
      then have "popUp e = Some r" using True by (simp add: popup_of_def)
      then show "ds_field_ok server (orig (txtid u)) (e\<lparr>popUp := None\<rparr>)"
        using assms(2) [OF Some e] ds_okD(1) [OF assms(1) e] by (simp add: ds_field_ok_def)
    qed simp
    then show ?thesis using Some True by (simp add: remove_popup_def)
  next
    case False
    have "ds_ok server orig (p\<lparr>ds_errors := ds_errors p @ [TypeError]\<rparr>)" by (rule ds_ok_same [OF assms(1)]) simp_all
    then show ?thesis using Some False by (simp add: remove_popup_def)
  qed
qed (simp add: remove_popup_def assms(1))

lemma change_ok:
  assumes "ds_ok server orig p" "\<exists>u. ds_popups p r = Some u \<and> txtid u = f"
  shows "ds_ok server orig (changePopup_Search f r p)"
proof -
  define p1 where "p1 = p\<lparr>ds_timer := None\<rparr>"
  have ok: "ds_ok server orig p1" unfolding p1_def by (rule ds_ok_same [OF assms(1)]) simp_all
  have parts: "ds_fields p1 = ds_fields p" "ds_popups p1 = ds_popups p" by (simp_all add: p1_def)
  show ?thesis
  proof (cases "ds_fields p f")
    case None
    then show ?thesis using ok by (simp add: changePopup_Search_def p1_def)
  next
    case (Some e)
    have okp: "ds_ok server orig (in_popup r (\<lambda>u. u\<lparr>shown := b\<rparr>) p1)" for b
      using ok by (rule in_popup_ok) (simp_all add: contents_ok_def)
    show ?thesis
    proof (cases "ftext e = []")
      case True
      have "ds_ok server orig (remove_popup r (in_popup r (\<lambda>u. u\<lparr>shown := False\<rparr>) p1))"
        using okp by (rule remove_popup_ok) (use assms(2) Some True in \<open>auto simp: parts good_pair_def\<close>)
      then show ?thesis using Some True by (simp add: changePopup_Search_def p1_def Let_def)
    next
      case False
      have "ds_ok server orig ((in_popup r (\<lambda>u. u\<lparr>shown := True\<rparr>) p1)\<lparr>lookups := lookups p @ [(ftext e, False)], searchpopup := Some r\<rparr>)"
        by (rule ds_ok_same [OF okp [of True]]) simp_all
      then show ?thesis using Some False by (simp add: changePopup_Search_def p1_def Let_def)
    qed
  qed
qed

lemma taken_listed:
  "taken_option s d = Some x \<Longrightarrow> x \<in> set (drop_opts d)"
  by (auto simp: taken_option_def find_Some_iff in_set_enumerate_eq nth_enumerate_eq)

lemma fill_in_good:
  assumes "ds_field_ok server orig e" "popUp e = Some r" "\<And>d x. dropdown = Some d \<Longrightarrow> x \<in> set (drop_opts d) \<Longrightarrow> listed_pair server x"
  shows "good_pair server orig (idsave (fill_in dropdown u e)) (ftext (fill_in dropdown u e))"
    and "\<not> is_pending (fill_in dropdown u e)" and "popUp (fill_in dropdown u e) = Some r"
proof -
  have p: "is_pending e" "good_pair server orig (idsave e) (oldval e)"
    using assms(1,2) by (simp_all add: ds_field_ok_def)
  have "listed_pair server x" if l: "Option.bind dropdown (taken_option (ftext e)) = Some x" for x
  proof -
    obtain d where "dropdown = Some d" "taken_option (ftext e) d = Some x"
      using l by (auto simp: bind_eq_Some_conv)
    then show ?thesis using assms(3) [of d x] taken_listed [of "ftext e" d x] by simp
  qed
  then show "good_pair server orig (idsave (fill_in dropdown u e)) (ftext (fill_in dropdown u e))"
    using p by (auto simp: fill_in_def Let_def good_pair_def split: option.splits)
  show "\<not> is_pending (fill_in dropdown u e)" "popUp (fill_in dropdown u e) = Some r"
    using p(1) assms(2) by (auto simp: fill_in_def Let_def split: option.splits)
qed

lemma close_ok:
  assumes "ds_ok server orig p" "popup_of p f = Some r"
    and "\<And>d x. dropdown = Some d \<Longrightarrow> x \<in> set (drop_opts d) \<Longrightarrow> listed_pair server x"
  shows "ds_ok server orig (closeAndFillIn_Search dropdown r p)"
proof -
  obtain u where u: "ds_popups p r = Some u" "txtid u = f" using ds_okD(2) [OF assms(1,2)] by blast
  obtain e where e: "ds_fields p f = Some e" "popUp e = Some r" using assms(2) by (auto simp: popup_of_def bind_eq_Some_conv)
  define e' where "e' = fill_in dropdown u e"
  note a = ds_okD(1) [OF assms(1) e(1)] e(2) assms(3)
  have g: "good_pair server (orig f) (idsave e') (ftext e')" "\<not> is_pending e'" "popUp e' = Some r"
    unfolding e'_def by (rule fill_in_good [OF a]; assumption)+
  define p1 where "p1 = in_popup r (\<lambda>u. u\<lparr>leaveUp := True, shown := False, contents := []\<rparr>) (in_field f (\<lambda>_. e') p)"
  define p2 where "p2 = (if \<not> user_abort u \<and> oncompletion u \<and> (orig_value e' \<in> {None, Some []} \<or> orig_value e' \<noteq> Some (ftext e'))
      then (in_field f (\<lambda>e. e\<lparr>orig_value := None\<rparr>) p1)\<lparr>completions := completions p @ [f]\<rparr> else p1)"
  define q where "q = remove_popup r p2"
  have cl: "closeAndFillIn_Search dropdown r p = q"
    by (simp only: closeAndFillIn_Search_def u option.case e Let_def q_def p2_def p1_def e'_def)
  have f1: "ds_fields p1 = (ds_fields p)(f \<mapsto> e')" by (auto simp: p1_def in_field_def in_popup_def e)
  have f2: "\<exists>ov. ds_fields p2 = (ds_fields p)(f \<mapsto> e'\<lparr>orig_value := ov\<rparr>)"
  proof (cases "p2 = p1")
    case True
    then show ?thesis using f1 by (intro exI [of _ "orig_value e'"]) simp
  next
    case False
    then show ?thesis by (intro exI [of _ None]) (auto simp: p2_def in_field_def f1 split: if_splits)
  qed
  then obtain ov where f2: "ds_fields p2 = (ds_fields p)(f \<mapsto> e'\<lparr>orig_value := ov\<rparr>)" by blast
  have d1: "ds_popups p1 = (ds_popups p)(r \<mapsto> u\<lparr>leaveUp := True, shown := False, contents := []\<rparr>)"
    "ds_timer p1 = ds_timer p" "ds_next p1 = ds_next p"
    by (auto simp: p1_def in_field_def in_popup_def u)
  then have d2: "ds_popups p2 = (ds_popups p)(r \<mapsto> u\<lparr>leaveUp := True, shown := False, contents := []\<rparr>)"
    "ds_timer p2 = ds_timer p" "ds_next p2 = ds_next p"
    by (auto simp: p2_def in_field_def)
  have "popup_of p2 f = Some r" by (simp add: popup_of_def f2 g(3))
  then have q: "ds_fields q = (ds_fields p)(f \<mapsto> e'\<lparr>orig_value := ov, popUp := None\<rparr>)"
    "ds_popups q = (ds_popups p)(r \<mapsto> u\<lparr>leaveUp := True, shown := False, contents := []\<rparr>)"
    "ds_timer q = ds_timer p" "ds_next q = ds_next p"
    by (simp_all add: q_def remove_popup_def d2 u(2) in_field_def f2)
  have "ds_field_ok server (orig f') x" if "ds_fields q f' = Some x" for f' x
    using that g ds_okD(1) [OF assms(1)] by (auto simp: q ds_field_ok_def split: if_splits)
  moreover have "\<exists>v. ds_popups q s = Some v \<and> txtid v = f'" if "popup_of q f' = Some s \<or> ds_timer q = Some (f', s)" for f' s
  proof -
    have "popup_of p f' = Some s \<or> ds_timer p = Some (f', s)"
      using that by (auto simp: popup_of_def q split: if_splits)
    then obtain v where "ds_popups p s = Some v" "txtid v = f'" using ds_okD(2,3) [OF assms(1)] by blast
    then show ?thesis using u by (auto simp: q)
  qed
  moreover have "contents_ok server v \<and> s < ds_next q" if "ds_popups q s = Some v" for s v
    using that ds_okD(4,5) [OF assms(1)] u(1) by (auto simp: q contents_ok_def split: if_splits)
  ultimately have "ds_ok server orig q" unfolding ds_ok_def by blast
  then show ?thesis by (simp only: cl)
qed

lemma close_shown_ok:
  assumes "ds_ok server orig p" "popup_of p f = Some r" "ds_popups p r = Some u" "d \<in> set (contents u)"
  shows "ds_ok server orig (closeAndFillIn_Search (Some d) r p)"
  using ds_okD(4) [OF assms(1,3)] assms(4)
  by (intro close_ok [OF assms(1,2)]) (auto simp: contents_ok_def)

lemma hide_ok:
  assumes "ds_ok server orig p"
  shows "ds_ok server orig (hidePopup_Search f p)"
proof (cases "popup_of p f")
  case (Some r)
  obtain u where u: "ds_popups p r = Some u" using ds_okD(2) [OF assms Some] by blast
  have "ds_ok server orig (in_popup r (\<lambda>u. u\<lparr>leaveUp := False\<rparr>) p)"
    using assms by (rule in_popup_ok) (simp_all add: contents_ok_def)
  moreover have "ds_ok server orig (closeAndFillIn_Search (case contents u of [] \<Rightarrow> None | d # _ \<Rightarrow> Some d) r p)"
    using close_ok [OF assms Some, of None] close_shown_ok [OF assms Some u] by (auto split: list.split)
  ultimately show ?thesis using Some u assms by (simp add: hidePopup_Search_def)
qed (simp add: hidePopup_Search_def assms)

lemma keydown_field_ok:
  "ds_field_ok server orig e \<Longrightarrow> ds_field_ok server orig (if is_pending e then e else e\<lparr>oldval := ftext e, is_pending := True\<rparr>)"
  by (auto simp: ds_field_ok_def split: option.splits)

text \<open>A key leaves every field that had its pop-up well, and notes the text of the field it was pressed in.\<close>

lemma key_ok:
  assumes "ds_ok server orig p" "k \<noteq> 0" "ds_fields p f \<noteq> None"
  shows "ds_ok server orig (keyprocess_Search f k 0 ondone p)"
proof -
  define p1 where "p1 = in_field f (\<lambda>e. if is_pending e then e else e\<lparr>oldval := ftext e, is_pending := True\<rparr>) (p\<lparr>ds_timer := None\<rparr>)"
  have "ds_ok server orig (p\<lparr>ds_timer := None\<rparr>)" by (rule ds_ok_same [OF assms(1)]) simp_all
  then have ok: "ds_ok server orig p1"
    unfolding p1_def
    by (rule in_field_ok) (use ds_okD(1) [OF assms(1)] keydown_field_ok in \<open>auto split: if_splits\<close>)
  have pend: "is_pending e" if "ds_fields p1 f = Some e" for e
  proof -
    obtain e0 where "e = (if is_pending e0 then e0 else e0\<lparr>oldval := ftext e0, is_pending := True\<rparr>)"
      using \<open>ds_fields p1 f = Some e\<close> by (auto simp: p1_def)
    then show ?thesis by simp
  qed
  have po: "popup_of p1 f = popup_of p f"
    by (cases "ds_fields p f") (simp_all add: p1_def popup_of_in_field popup_of_def)
  show ?thesis
  proof (cases "k \<in> {27, 40}")
    case False
    then show ?thesis using assms(2) ok by (simp add: keyprocess_Search_def p1_def Let_def)
  next
    case True
    then have w: "\<not> (k = 9 \<or> (k \<noteq> 40 \<and> (silent_key k \<or> (k \<noteq> 27 \<and> k \<noteq> 0 \<and> (0 :: nat) = 0))))"
      by (auto simp: silent_key_def)
    have kp: "keyprocess_Search f k 0 ondone p =
        (case popup_of p f of
           None \<Rightarrow> if k = 27 then p1 else let (r, p2) = create_search_popup f ondone p1 in p2\<lparr>ds_timer := Some (f, r)\<rparr>
         | Some r \<Rightarrow>
             if k = 40 then in_popup r (\<lambda>u. u\<lparr>leaveUp := True\<rparr>) p1
             else if k = 27 then processSearchBox_Breakdown r (in_popup r (\<lambda>u. u\<lparr>leaveUp := False\<rparr>) p1)
             else p1\<lparr>ds_timer := Some (f, r)\<rparr>)"
      unfolding keyprocess_Search_def Let_def p1_def [symmetric] if_not_P [OF w] by (rule refl)
    have lv: "ds_ok server orig (in_popup r (\<lambda>u. u\<lparr>leaveUp := b\<rparr>) p1)" for r b
      using ok by (rule in_popup_ok) (simp_all add: contents_ok_def)
    show ?thesis
    proof (cases "popup_of p f")
      case (Some r)
      have "ds_ok server orig (processSearchBox_Breakdown r (in_popup r (\<lambda>u. u\<lparr>leaveUp := False\<rparr>) p1))"
        unfolding processSearchBox_Breakdown_def using Some po by (intro close_ok [OF lv, where f = f]) simp_all
      then show ?thesis using kp Some True lv by auto
    next
      case None
      have fld: "ds_fields p1 f \<noteq> None" using assms(3) by (simp add: p1_def)
      obtain r q where c: "create_search_popup f ondone p1 = (r, q)" by (cases "create_search_popup f ondone p1")
      have q: "ds_ok server orig q" "popup_of q f = Some r" using create_ok [OF ok c pend fld] by simp_all
      then have "\<exists>u. ds_popups q r = Some u \<and> txtid u = f" using ds_okD(2) by blast
      then have "ds_ok server orig (q\<lparr>ds_timer := Some (f, r)\<rparr>)"
        using q(1) unfolding ds_ok_def popup_of_def by auto
      then show ?thesis using kp None ok c by simp
    qed
  qed
qed

text \<open>A key that types: the pop-up is left alone and a request follows for the new text.\<close>

definition typing_key :: "nat \<Rightarrow> bool" where
  "typing_key k \<longleftrightarrow> k \<notin> {0, 9, 27, 40}"

lemma typed_ok:
  assumes "ds_ok server orig p" "typing_key k" "ds_fields p f = Some e0"
  shows "ds_ok server orig (inputEvent_Search f ondone (set_text f s (keyprocess_Search f k 0 ondone p)))"
proof -
  define p1 where "p1 = keyprocess_Search f k 0 ondone p"
  have p1: "p1 = in_field f (\<lambda>e. if is_pending e then e else e\<lparr>oldval := ftext e, is_pending := True\<rparr>) (p\<lparr>ds_timer := None\<rparr>)"
    using assms(2) by (simp add: p1_def keyprocess_Search_def typing_key_def Let_def)
  have ok1: "ds_ok server orig p1" unfolding p1_def using assms by (intro key_ok) (simp_all add: typing_key_def)
  obtain e1 where e1: "ds_fields p1 f = Some e1" "is_pending e1"
    using assms(3) by (cases "is_pending e0") (simp_all add: p1)
  have t1: "ds_timer p1 = None" by (simp add: p1)
  note f1 = ds_okD(1) [OF ok1 e1(1)]
  show ?thesis
  proof (cases "popup_of p1 f")
    case (Some r)
    have "ds_ok server orig (set_text f s p1)"
      unfolding set_text_def
    proof (rule in_field_ok [OF ok1])
      fix e
      assume "ds_fields p1 f = Some e"
      then show "ds_field_ok server (orig f) (e\<lparr>ftext := s\<rparr>)"
        using f1 e1 Some by (simp add: ds_field_ok_def popup_of_def)
    qed simp
    moreover have "popup_of (set_text f s p1) f = Some r"
      using Some e1(1) by (simp add: set_text_def popup_of_in_field popup_of_def)
    ultimately have "ds_ok server orig (changePopup_Search f r (set_text f s p1))"
      using change_ok ds_okD(2) by blast
    then show ?thesis
      using \<open>popup_of (set_text f s p1) f = Some r\<close> t1 by (simp add: inputEvent_Search_def p1_def set_text_def)
  next
    case None
    (* opening the pop-up first and changing the text afterwards gives the same page *)
    define h :: "ds_field \<Rightarrow> ds_field" where "h = (\<lambda>e. e\<lparr>orig_value := Some []\<rparr>)"
    obtain r q where c: "create_search_popup f ondone p1 = (r, q)" by (cases "create_search_popup f ondone p1")
    have q: "ds_ok server orig q" "popup_of q f = Some r"
      using create_ok [OF ok1 c] e1 by simp_all
    have eq: "create_search_popup f ondone (in_field f h (set_text f s p1)) = (r, set_text f s q)"
      using c None e1(1)
      by (cases p1, cases e1)
        (auto simp: create_search_popup_def popup_of_in_field set_text_def Let_def in_field_def popup_of_def h_def)
    have "ds_ok server orig (set_text f s q)"
      unfolding set_text_def
    proof (rule in_field_ok [OF q(1)])
      fix e
      assume "ds_fields q f = Some e"
      then have "ds_field_ok server (orig f) e" "popUp e = Some r"
        using ds_okD(1) [OF q(1)] q(2) by (simp_all add: popup_of_def)
      then show "ds_field_ok server (orig f) (e\<lparr>ftext := s\<rparr>)" by (simp add: ds_field_ok_def)
    qed simp
    moreover have "popup_of (set_text f s q) f = Some r"
      using q(2) by (auto simp: set_text_def popup_of_in_field popup_of_def bind_eq_Some_conv)
    ultimately have "ds_ok server orig (changePopup_Search f r (set_text f s q))"
      using change_ok ds_okD(2) by blast
    moreover have "popup_of (set_text f s p1) f = None"
      using None e1(1) by (simp add: set_text_def popup_of_in_field popup_of_def)
    ultimately show ?thesis
      using t1 eq by (simp add: inputEvent_Search_def p1_def [symmetric] h_def) (simp add: set_text_def)
  qed
qed

definition ds_event_ok :: "ds_event \<Rightarrow> bool" where
  "ds_event_ok ev = (case ev of PressKey _ k \<Rightarrow> k \<noteq> 0 | TypeKey _ k _ \<Rightarrow> typing_key k | Paste _ _ \<Rightarrow> False | _ \<Rightarrow> True)"

lemma report_ok:
  assumes "ds_ok server orig p"
  shows "ds_ok server orig (request_reports server k b p)"
proof -
  define p1 where "p1 = (if b then p\<lparr>lookups := (lookups p)[k := (fst (lookups p ! k), True)]\<rparr> else p)"
  have "ds_ok server orig p1" by (rule ds_ok_same [OF assms]) (simp_all add: p1_def)
  moreover have "contents_ok server (u\<lparr>contents := map (\<lambda>os. \<lparr>drop_opts = os, drop_selected = None\<rparr>) (server s), shown := True\<rparr>)" for s u
    by (auto simp: contents_ok_def listed_pair_def)
  ultimately have "ds_ok server orig (updatePopUpSearchPage server p1)"
    unfolding updatePopUpSearchPage_def by (auto split: option.split intro!: in_popup_ok)
  then show ?thesis using assms by (simp add: request_reports_def p1_def)
qed

lemma select_key_ok:
  assumes "ds_ok server orig p" "popup_of p f = Some r"
  shows "ds_ok server orig (checkSelectKeypress_Search r i k p)"
proof -
  obtain u where u: "ds_popups p r = Some u" "txtid u = f" using ds_okD(2) [OF assms] by blast
  show ?thesis
  proof (cases "i < length (contents u)")
    case True
    then have d: "contents u ! i \<in> set (contents u)" by simp
    have "ds_ok server orig (p\<lparr>dontSubmit := True\<rparr>)" by (rule ds_ok_same [OF assms(1)]) simp_all
    then have 1: "ds_ok server orig (closeAndFillIn_Search (Some (contents u ! i)) r (p\<lparr>dontSubmit := True\<rparr>))"
      using close_shown_ok [of server orig "p\<lparr>dontSubmit := True\<rparr>" f r u] u assms(2) d by (simp add: popup_of_def)
    define g where "g = (\<lambda>e :: ds_field. case orig_value e of Some v \<Rightarrow> if v = [] then e else e\<lparr>ftext := v\<rparr> | None \<Rightarrow> e)"
    have g: "popUp (g e) = popUp e" "is_pending (g e) = is_pending e" "idsave (g e) = idsave e" "oldval (g e) = oldval e" for e
      by (simp_all add: g_def split: option.split)
    have "ds_ok server orig (in_field f g p)"
    proof (rule in_field_ok [OF assms(1)])
      fix e
      assume e: "ds_fields p f = Some e"
      then show "ds_field_ok server (orig f) (g e)"
        using ds_okD(1) [OF assms(1) e] assms(2) by (simp add: ds_field_ok_def g popup_of_def)
    qed (simp add: g)
    then have ok: "ds_ok server orig (in_popup r (\<lambda>u. u\<lparr>user_abort := True\<rparr>) (in_field f g p))" (is "ds_ok _ _ ?q")
      by (rule in_popup_ok) (simp_all add: contents_ok_def)
    have "popup_of ?q f = Some r" using assms(2) by (cases "ds_fields p f") (simp_all add: popup_of_in_field popup_of_def g)
    then have 2: "ds_ok server orig (closeAndFillIn_Search (Some (contents u ! i)) r ?q)"
      using close_shown_ok [OF ok, of f r "u\<lparr>user_abort := True\<rparr>"] u d by simp
    show ?thesis
      using 1 2 u True assms(1) by (simp add: checkSelectKeypress_Search_def g_def)
  qed (use u assms(1) in \<open>simp add: checkSelectKeypress_Search_def\<close>)
qed

lemma select_option_ok:
  assumes "ds_ok server orig p"
  shows "ds_ok server orig (select_option r i j p)"
  unfolding select_option_def using assms
proof (rule in_popup_ok)
  fix u
  assume u: "contents_ok server u"
  show "contents_ok server (u\<lparr>contents := (contents u)[i := (contents u ! i)\<lparr>drop_selected := Some j\<rparr>]\<rparr>)"
  proof (cases "i < length (contents u)")
    case True
    then have "drop_opts (contents u ! i) \<in> drop_opts ` set (contents u)" by simp
    then show ?thesis
      using u set_update_subset_insert [of "contents u" i "(contents u ! i)\<lparr>drop_selected := Some j\<rparr>"]
      unfolding contents_ok_def by fastforce
  next
    case False
    then have "(contents u)[i := (contents u ! i)\<lparr>drop_selected := Some j\<rparr>] = contents u" by (simp add: list_update_beyond)
    then show ?thesis using u by (simp add: contents_ok_def)
  qed
qed simp

lemma with_popup_ok:
  assumes "ds_ok server orig p" "\<And>r. popup_of p f = Some r \<Longrightarrow> ds_ok server orig (g r p)"
  shows "ds_ok server orig (with_popup f g p)"
  using assms by (simp add: with_popup_def split: option.split)

lemma ds_step_ok:
  assumes "ds_ok server orig p" "ds_event_ok ev"
  shows "ds_ok server orig (ds_step server p ev)"
proof (cases ev)
  case (PressKey f k)
  then show ?thesis using assms key_ok by (simp add: ds_step_def at_field_def ds_event_ok_def)
next
  case (TypeKey f k s)
  then show ?thesis using assms typed_ok by (auto simp: ds_step_def at_field_def ds_event_ok_def)
next
  case TimerRuns
  have "ds_ok server orig (timer_runs p)"
    using assms(1) ds_okD(3) [OF assms(1)] change_ok [OF assms(1)] by (auto simp: timer_runs_def split: option.split)
  then show ?thesis using TimerRuns by (simp add: ds_step_def)
next
  case (BlurPopup f)
  have "ds_ok server orig (with_popup f hideonBlur_Search p)"
    unfolding hideonBlur_Search_def processSearchBox_Breakdown_def using assms(1)
    by (rule with_popup_ok) (rule close_ok [OF assms(1)], simp_all)
  then show ?thesis using BlurPopup by (simp add: ds_step_def)
next
  case (EnterPopup f)
  have "ds_ok server orig (with_popup f mouseover_Search p)"
    using assms(1) by (rule with_popup_ok) (auto simp: mouseover_Search_def contents_ok_def intro!: in_popup_ok assms)
  then show ?thesis using EnterPopup by (simp add: ds_step_def)
next
  case (LeavePopup f)
  have "ds_ok server orig (with_popup f mouseout_Search p)"
    using assms(1) by (rule with_popup_ok) (auto simp: mouseout_Search_def contents_ok_def intro!: in_popup_ok assms)
  then show ?thesis using LeavePopup by (simp add: ds_step_def)
next
  case (FocusPopup f)
  have "ds_ok server orig (with_popup f keepVisible_Search p)"
    using assms(1) by (rule with_popup_ok) (auto simp: keepVisible_Search_def contents_ok_def intro!: in_popup_ok assms)
  then show ?thesis using FocusPopup by (simp add: ds_step_def)
next
  case (SelectOption f i j)
  then show ?thesis using assms(1) select_option_ok with_popup_ok [OF assms(1), of f "\<lambda>r. select_option r i j"]
    by (simp add: ds_step_def)
next
  case (SelectKey f i k)
  then show ?thesis using select_key_ok [OF assms(1)] with_popup_ok [OF assms(1), of f "\<lambda>r. checkSelectKeypress_Search r i k"]
    by (simp add: ds_step_def)
qed (use assms in \<open>simp_all add: ds_step_def hide_ok report_ok ds_event_ok_def\<close>)

interpretation device_search: handled "ds_step server" ds_event_ok "ds_ok server orig"
  by unfold_locales (rule ds_step_ok)

text \<open>A page as the server makes it: every field holds its pair, and nothing has been searched.\<close>

definition ds_start :: "(string \<Rightarrow> string \<times> string) \<Rightarrow> ds_page \<Rightarrow> bool" where
  "ds_start orig p \<longleftrightarrow> ds_popups p = Map.empty \<and> ds_timer p = None
     \<and> (\<forall>f e. ds_fields p f = Some e \<longrightarrow> (idsave e, ftext e) = orig f \<and> \<not> is_pending e \<and> popUp e = None)"

lemma ds_start_ok: "ds_start orig p \<Longrightarrow> ds_ok server orig p"
  by (auto simp: ds_start_def ds_ok_def ds_field_ok_def good_pair_def popup_of_def bind_eq_Some_conv)


definition demo_ds_server :: "string \<Rightarrow> (string \<times> string) list list" where
  "demo_ds_server s = [[(''4'', ''a''), (''9'', ''b'')]]"

definition demo_ds_field :: ds_field where
  "demo_ds_field = \<lparr>ftext = ''c'', idsave = ''2'', is_pending = False, oldval = [], orig_value = None, popUp = None\<rparr>"

definition demo_ds_page :: ds_page where
  "demo_ds_page = \<lparr>ds_fields = [''a'' \<mapsto> demo_ds_field], ds_popups = Map.empty, ds_next = 0, lookups = [], searchpopup = None,
     ds_timer = None, completions = [], dontSubmit = False, ds_errors = []\<rparr>"

definition demo_ds_events :: "ds_event list" where
  "demo_ds_events = [TypeKey ''a'' 83 ''b'', Reports 0 True, Leave ''a'']"


section \<open>Text that comes without a key\<close>

text \<open>
  C37: Text that is pasted with the mouse opens the pop-up but is not noted as a change.  Escape then keeps
  the pasted text as the name, next to the identifier of the device that was there before.
\<close>

theorem pasted_text_keeps_identifier:
  assumes "ds_fields p f = Some e" "popUp e = None" "\<not> is_pending e" "ds_timer p = None" "s \<noteq> []"
  shows "\<exists>e'. ds_fields (foldl (ds_step server) p [Paste f s, PressKey f 27]) f = Some e'
       \<and> popUp e' = None \<and> ftext e' = s \<and> idsave e' = idsave e"
proof -
  define r where "r = ds_next p"
  define u where "u = \<lparr>txtid = f, leaveUp = False, shown = True, contents = [], user_abort = False, oncompletion = True\<rparr>"
  define q where "q = ds_step server p (Paste f s)"
  have po: "popup_of p f = None" using assms(1,2) by (simp add: popup_of_def)
  have q: "ds_fields q f = Some (e\<lparr>ftext := s, orig_value := None, popUp := Some r\<rparr>)" "ds_popups q r = Some u"
      "popup_of q f = Some r"
    using assms po
    by (simp_all add: q_def ds_step_def at_field_def inputEvent_Search_def set_text_def popup_of_in_field
        create_search_popup_def Let_def changePopup_Search_def r_def u_def in_popup_def in_field_def popup_of_def)
  define e1 where "e1 = e\<lparr>ftext := s, orig_value := None, popUp := Some r, oldval := s, is_pending := True\<rparr>"
  define p1 where "p1 = in_popup r (\<lambda>u. u\<lparr>leaveUp := False\<rparr>)
      (in_field f (\<lambda>e. if is_pending e then e else e\<lparr>oldval := ftext e, is_pending := True\<rparr>) (q\<lparr>ds_timer := None\<rparr>))"
  have p1: "ds_fields p1 f = Some e1" "ds_popups p1 r = Some u" "popup_of p1 f = Some r"
    using q assms(3) by (simp_all add: p1_def e1_def u_def popup_of_in_field)
  have key: "ds_step server q (PressKey f 27) = closeAndFillIn_Search None r p1"
    using q(1,3) by (simp add: ds_step_def at_field_def keyprocess_Search_def Let_def silent_key_def p1_def
        processSearchBox_Breakdown_def)
  have fill: "fill_in None u e1 = e1\<lparr>is_pending := False\<rparr>"
    using assms(5) by (simp add: fill_in_def u_def e1_def Let_def)
  have u': "txtid u = f" "\<not> user_abort u" "oncompletion u" by (simp_all add: u_def)
  have e1': "ftext e1 = s" "idsave e1 = idsave e" "popUp e1 = Some r" "orig_value e1 = None" by (simp_all add: e1_def)
  have "\<exists>e'. ds_fields (closeAndFillIn_Search None r p1) f = Some e' \<and> popUp e' = None \<and> ftext e' = s \<and> idsave e' = idsave e"
    using p1 u' e1' by (simp add: closeAndFillIn_Search_def fill Let_def remove_popup_def popup_of_in_field popup_of_def)
  then show ?thesis by (simp add: key flip: q_def)
qed

theorem pasted_text_keeps_identifier_witness:
  "map_option (\<lambda>e. (idsave e, ftext e))
     (ds_fields (foldl (ds_step demo_ds_server) demo_ds_page [Paste ''a'' ''junk'', PressKey ''a'' 27]) ''a'')
     = Some (''2'', ''junk'')"
  using pasted_text_keeps_identifier [of demo_ds_page "''a''" demo_ds_field "''junk''" demo_ds_server]
  by (auto simp: demo_ds_page_def demo_ds_field_def)

end
