(* ===== verification/Spec2Isabelle.thy ===== *)
theory Spec2Isabelle
  imports Paging Attest Toggles DnsRecords Racks Popups AppTree Netblocks Collections AccountCollections OtherEnd
    DeviceForm DevicePage DeviceRows DeviceTabs PatchPanels Pictures Phones DeviceSearch
begin

text \<open>
  The browser side of JazzHands: of \<^verbatim>\<open>stab\<close>, the web interface for devices, networks and DNS, the scripts
  under \<^verbatim>\<open>src/management/stab/web/src/web/javascript/\<close>; of the directory of people the script
  \<^verbatim>\<open>src/management/directory/drops.js\<close>; and \<^verbatim>\<open>src/javascript/common.js\<close> that the pages of all applications
  share.  The pages are made by Perl and PHP programs; a script is a set of handlers that change the document, ask the server with Ajax, and
  decide what a form submits.

  Parts and theories.

  \<^item> \<open>Prelude\<close>: results that may be an exception (\<open>'a js\<close>), string operations, numbers as decimal strings,
    loops over lists that stop at an exception (\<open>js_foldl\<close>, \<open>js_run\<close>), the search for a free number
    (\<open>first_free\<close>), and two contracts as locales: \<open>numbered_rows\<close>, a form that grows by numbered rows, and
    \<open>handled\<close>, a page whose handlers keep what is claimed of it.
  \<^item> \<open>Dom\<close>: the document as the list of its elements in document order, each with its identity and its path,
    and the queries and changes the scripts use (\<^verbatim>\<open>getElementById\<close>, \<^verbatim>\<open>closest\<close>, \<^verbatim>\<open>find\<close>, insertion and removal).
  \<^item> \<open>FormTracking\<close>, \<open>FormReset\<close>: \<^verbatim>\<open>form-tracking.js\<close>, which marks the fields that differ from the original
    and submits their names.  \<open>Paging\<close>: \<^verbatim>\<open>paging.js\<close>, the header that leads to the pages of a list, and
    rows of other IP universes.  The root theory joins the two: paging loses no edits.
  \<^item> \<open>Attest\<close>: \<^verbatim>\<open>attest.js\<close>, the approval page.
  \<^item> \<open>Toggles\<close>, \<open>Ports\<close>, \<open>DeviceForm\<close>, \<open>DevicePage\<close>, \<open>DeviceTabs\<close>, \<open>DeviceRows\<close>, \<open>PatchPanels\<close>: \<^verbatim>\<open>device-utils.js\<close>,
    the device page: the toggles of interfaces, netblocks and DNS records; links and the requests for
    ports; the submission and its questions; small handlers; the tabs; rows fetched on demand and
    licences; and the rows of a physical connection.
  \<^item> \<open>OtherEnd\<close>, \<open>DeviceSearch\<close>: \<^verbatim>\<open>ajaxsearch.js\<close>, the search for the device at the other end of a port, and
    the older search that completes the name of a device.
  \<^item> \<open>Directory\<close>, \<open>Phones\<close>, \<open>Pictures\<close>: \<^verbatim>\<open>drops.js\<close>: the search box and the desk dialog, the table of telephone
    numbers with its hints, and the dialog for pictures.
  \<^item> \<open>Rows\<close>, \<open>DnsRefs\<close>, \<open>DnsRecords\<close>: \<^verbatim>\<open>dns-common.js\<close> and \<^verbatim>\<open>dns-utils.js\<close>, rows of DNS records and references.
  \<^item> \<open>StabCommon\<close>: \<^verbatim>\<open>stab-common.js\<close>, \<^verbatim>\<open>ajax-utils.js\<close>, \<^verbatim>\<open>tickets.js\<close> and \<^verbatim>\<open>devicetype.js\<close>.  \<open>Racks\<close>: \<^verbatim>\<open>racks.js\<close>.
    \<open>Popups\<close>: \<^verbatim>\<open>table-manip.js\<close>.  \<open>AppTree\<close>: \<^verbatim>\<open>app-utils.js\<close>.  \<open>EditableText\<close>: \<^verbatim>\<open>common.js\<close>.  \<open>Netblocks\<close>:
    \<^verbatim>\<open>netblock.js\<close>.  \<open>Collections\<close>, \<open>AccountCollections\<close>: \<^verbatim>\<open>netblock-collection.js\<close> and
    \<^verbatim>\<open>account-collection.js\<close>.

  Conventions.  A handler is a function from the state of its page to the new state; the state is the
  document (with the requests and messages the scripts emit) where a script works on arbitrary
  elements, and a record of the widgets where it works on fixed ones.  A definition has the name of the
  function it translates.  An exception is a value: \<open>Inl\<close> of the kind of the exception, or the second
  component of a pair when the changes made before it stay.  The answer of a request is an event of its
  own, so that the order of clicks and answers is explicit in the theorems about sessions; what the
  server sends, the position of elements on the screen and the user's confirmation are parameters.

  Lemma groups.  Each theory shows what every handler does to the part of the state a property speaks of
  (often as one map over the elements), then that it keeps an invariant, and then the property for every
  session, by the contract \<open>handled\<close> or by induction.  The properties about exceptions and about answers
  that come late show what the code does there, which is not always what it means to do.

  Bounds and fuel.  \<open>updateNetworkInterfaceUI\<close> calls itself on the level below, and there are three levels:
  fuel 3 is enough, which \<open>click_keeps_tab_consistent\<close> shows with its result; \<open>allowed_state\<close> and
  \<open>first_free\<close> are loops that may not end, as partial functions, and they are shown to return.  Numbers of
  rows, pages and records are natural numbers or integers, as they stay far below the \<open>2 ^ 53\<close> up to which
  JavaScript's numbers are exact.

  Not modelled: positions, colours and sizes (of \<open>findPosX\<close> and \<open>findPosY\<close> only the sums); the
  plugins the scripts attach (chosen, autocomplete, DataTables with its only call in \<^verbatim>\<open>reporting.js\<close>) beyond their callbacks; the libraries under
  \<^verbatim>\<open>src/javascript/external/\<close>, which are not the program's own; \<open>scrollToTargetDNSRecord\<close>, which only scrolls;
  and the programs in Perl, PHP and SQL behind the pages.
\<close>

section \<open>Unsaved edits and paging\<close>

text \<open>
  C5: Whatever the user has edited on a page, no button of its paging header leaves the page while a
  tracked field of a form differs from its original state or a row is added or marked for removal; once
  none does, the button for another page leads there.
\<close>

theorem paging_loses_no_edits:
  assumes "page_ok d0" "session d0 (doc st)"
  shows "(location (changePage pid pg st) \<noteq> location st \<longrightarrow>
       (\<forall>e \<in> set (doc st). has ''tracked'' e \<and> (\<exists>f \<in> set (doc st). tag f = ''form'' \<and> inside (ref f) e)
          \<longrightarrow> \<not> differs (doc st) e)
     \<and> (\<forall>e \<in> set (doc st). tag e = ''tr'' \<longrightarrow>
          \<not> has ''rowrm'' e \<and> \<not> has ''dnsadd'' e \<and> \<not> has ''dnsrefadd'' e))
   \<and> ((\<forall>e \<in> set (doc st). has ''tracked'' e \<longrightarrow> \<not> differs (doc st) e)
       \<and> (\<forall>e \<in> set (doc st). tag e = ''tr'' \<longrightarrow>
          \<not> has ''rowrm'' e \<and> \<not> has ''dnsadd'' e \<and> \<not> has ''dnsrefadd'' e)
       \<and> \<not> same_page pg (ppage (pagers st pid))
      \<longrightarrow> location (changePage pid pg st) = page_link pid pg (plimit (pagers st pid)) (location st))"
proof -
  have t: "has ''changed'' e \<longleftrightarrow> differs (doc st) e" if "e \<in> set (doc st)" "has ''tracked'' e" for e
    using session_ok [OF assms] that by (simp add: tracking_ok_def)
  have p: "hasPendingChanges (doc st) \<longleftrightarrow>
      (\<exists>e \<in> set (doc st). has ''tracked'' e \<and> differs (doc st) e
         \<and> (\<exists>f \<in> set (doc st). tag f = ''form'' \<and> inside (ref f) e))
      \<or> (\<exists>e \<in> set (doc st). tag e = ''tr'' \<and> (has ''rowrm'' e \<or> has ''dnsadd'' e \<or> has ''dnsrefadd'' e))"
    using t unfolding hasPendingChanges_def filter_empty_conv by blast
  show ?thesis
    unfolding changePage_def p by (auto split: if_splits)
qed

definition demo_paging :: paging_page where
  "demo_paging = \<lparr>doc = demo_typed, alerts = [], requests = [], location = ''/dns/?dnsdomainid=7'',
     pagers = (\<lambda>_. \<lparr>pcount = 25, plimit = 10, ppage = 1, poffset = None, pcross = False\<rparr>)\<rparr>"

theorem paging_loses_no_edits_witness:
  "location (changePage ''paging-dns'' (Number 2) demo_paging) = location demo_paging"
proof -
  have ex: "\<exists>e \<in> set (doc demo_paging). (has ''tracked'' e
      \<and> (\<exists>f \<in> set (doc demo_paging). tag f = ''form'' \<and> inside (ref f) e)) \<and> differs (doc demo_paging) e"
    by code_simp
  have doc: "doc demo_paging = demo_typed" by (simp add: demo_paging_def)
  show ?thesis
    using paging_loses_no_edits [OF demo_page_ok, of demo_paging "''paging-dns''" "Number 2"] demo_session ex
    unfolding doc by blast
qed

end
